(* ===== verification/Prelude.thy ===== *)
theory Prelude
  imports Main "HOL-Library.Word"
begin

text \<open>
  Shared vocabulary of the development: the C and Go machine integers as words, the
  collections of simplification rules that the component proofs draw on, and the generic
  facts on words, lists and maps that more than one component needs.

  Word arithmetic is read through \<open>uint\<close> (unsigned value) and \<open>sint\<close> (two's
  complement value). A 64-bit clock is compared through the sign of a difference, so the
  facts below say when a wrapped difference has the sign of the unbounded one.
\<close>

type_synonym u16 = "16 word"
type_synonym u32 = "32 word"
type_synonym u64 = "64 word"
type_synonym s32 = "32 word" \<comment> \<open>a signed C value; its number is \<open>sint\<close>\<close>
type_synonym s64 = "64 word"

named_theorems frame \<open>what an operation leaves unchanged\<close>
named_theorems ops \<open>definitions of the operations, for unfolding a whole handler\<close>

subsection \<open>Sixty-four bit words\<close>

lemma uint_via_sint64:
  "uint (x :: u64) = (if sint x < 0 then sint x + 2 ^ 64 else sint x)"
proof -
  have m: "uint x = sint x mod 2 ^ 64"
    by (simp only: uint_sint take_bit_eq_mod len_bit0 len_num1) simp
  have lo: "- (2 ^ 63) \<le> sint x" and hi: "sint x < 2 ^ 63"
    using sint_ge [of x] sint_lt [of x] by simp_all
  show ?thesis
  proof (cases "sint x < 0")
    case True
    have "sint x mod 2 ^ 64 = (sint x + 2 ^ 64) mod 2 ^ 64" by simp
    also have "\<dots> = sint x + 2 ^ 64"
      using True lo by (intro mod_pos_pos_trivial) simp_all
    finally show ?thesis using True m by simp
  next
    case False
    then have "sint x mod 2 ^ 64 = sint x"
      using hi by (intro mod_pos_pos_trivial) simp_all
    then show ?thesis using False m by simp
  qed
qed

lemma sint64_neg_iff: "sint (x :: u64) < 0 \<longleftrightarrow> 2 ^ 63 \<le> uint x"
  using uint_via_sint64 [of x] sint_ge [of x] sint_lt [of x] by (auto split: if_splits)

lemma sint64_range: "- (2 ^ 63) \<le> sint (x :: u64)" "sint x < 2 ^ 63"
  using sint_ge [of x] sint_lt [of x] by simp_all

lemma uint64_lt: "uint (x :: u64) < 2 ^ 64"
  using uint_lt2p [of x] by simp

lemma sint64_of_int:
  assumes "- (2 ^ 63) \<le> i" and "i < 2 ^ 63"
  shows "sint (of_int i :: u64) = i"
  using assms by (simp add: sint_uint uint_word_of_int_eq signed_take_bit_take_bit
      signed_take_bit_int_eq_self)

lemma of_int_sint64: "of_int (sint (x :: u64)) = x"
  by simp

lemma word_offset64: "(v :: u64) = w + of_int (sint (v - w))"
  by simp

lemma uint64_of_nat: "n < 2 ^ 64 \<Longrightarrow> uint (of_nat n :: u64) = int n"
  by (simp add: uint_word_of_int_eq take_bit_int_eq_self unsigned_of_nat take_bit_nat_eq_self)

lemma uint64_add: "uint (a :: u64) + uint b < 2 ^ 64 \<Longrightarrow> uint (a + b) = uint a + uint b"
  using uint_add_lem [of a b] by simp

lemma uint64_mult: "uint (a :: u64) * uint b < 2 ^ 64 \<Longrightarrow> uint (a * b) = uint a * uint b"
  using uint_mult_lem [of a b] by simp

lemma uint64_sub: "b \<le> (a :: u64) \<Longrightarrow> uint (a - b) = uint a - uint b"
  using uint_sub_lem [of b a] by (simp add: word_le_def)

lemma uint64_sub_wrap:
  "a < (b :: u64) \<Longrightarrow> uint (a - b) = uint a - uint b + 2 ^ 64"
  using uint_sub_if' [of a b] by (simp add: word_less_def split: if_splits)

lemma uint64_less: "(a :: u64) < b \<longleftrightarrow> uint a < uint b"
  by (rule word_less_def)

lemma uint64_le: "(a :: u64) \<le> b \<longleftrightarrow> uint a \<le> uint b"
  by (rule word_le_def)

end
