(* ===== verification/Scx_Common.thy ===== *)
theory Scx_Common
  imports Prelude
begin

text \<open>
  The sched\_ext layer of \<^verbatim>\<open>bpf/scx_common.bpf.h\<close>: the dispatch queue and flag constants,
  the choice of kfunc names by kernel generation, the kfuncs the header declares, and the
  ELF section names of the struct\_ops macros.

  The kfuncs are kernel code. The header declares them and nothing else of them is in the
  repository, so the kernel is the parameter \<open>K\<close> of every definition that calls into it:
  a record with one function per declared kfunc, over a kernel state of unknown type. The
  only kernel memory written out is the part of \<^verbatim>\<open>struct task_struct\<close> that the scheduler reads
  and writes itself.
\<close>

unbundle bit_operations_syntax

subsection \<open>Kernel objects the scheduler touches\<close>

record sched_ext_entity =
  dsq_vtime :: u64
  slice :: u64

record task_struct =
  tgid :: s32
  scx :: sched_ext_entity

type_synonym task_ref = nat   \<comment> \<open>a \<^verbatim>\<open>struct task_struct *\<close>\<close>
type_synonym cgroup_ref = nat \<comment> \<open>a \<^verbatim>\<open>struct cgroup *\<close>\<close>

record 'k kstate =
  tasks :: "task_ref \<Rightarrow> task_struct"
  kern :: 'k

abbreviation vtime_of :: "'k kstate \<Rightarrow> task_ref \<Rightarrow> u64" where
  "vtime_of k p \<equiv> dsq_vtime (scx (tasks k p))"

abbreviation slice_of :: "'k kstate \<Rightarrow> task_ref \<Rightarrow> u64" where
  "slice_of k p \<equiv> slice (scx (tasks k p))"

definition set_vtime :: "task_ref \<Rightarrow> u64 \<Rightarrow> 'k kstate \<Rightarrow> 'k kstate" where
  "set_vtime p v k = k\<lparr>tasks := (tasks k)(p := (tasks k p)
     \<lparr>scx := (scx (tasks k p))\<lparr>dsq_vtime := v\<rparr>\<rparr>)\<rparr>"

definition set_slice :: "task_ref \<Rightarrow> u64 \<Rightarrow> 'k kstate \<Rightarrow> 'k kstate" where
  "set_slice p v k = k\<lparr>tasks := (tasks k)(p := (tasks k p)
     \<lparr>scx := (scx (tasks k p))\<lparr>slice := v\<rparr>\<rparr>)\<rparr>"

subsection \<open>The kfunc declarations\<close>

text \<open>
  \<open>SCX_KERNEL_MAJOR\<close> and \<open>SCX_KERNEL_MINOR\<close> are the build's \<^verbatim>\<open>-D\<close> options, absent when not
  passed. Both generations of the renamed kfuncs are fields; a kernel exports one of them.
  The last field is the read \<^verbatim>\<open>cgrp->kn->id\<close> of a cgroup held by the scheduler.
\<close>

record 'k scx_env =
  SCX_KERNEL_MAJOR :: "int option"
  SCX_KERNEL_MINOR :: "int option"
  scx_bpf_create_dsq :: "u64 \<Rightarrow> s32 \<Rightarrow> 'k kstate \<Rightarrow> s32 \<times> 'k kstate"
  scx_bpf_destroy_dsq :: "u64 \<Rightarrow> 'k kstate \<Rightarrow> 'k kstate"
  scx_bpf_dispatch :: "task_ref \<Rightarrow> u64 \<Rightarrow> u64 \<Rightarrow> u64 \<Rightarrow> 'k kstate \<Rightarrow> 'k kstate"
  scx_bpf_dispatch_vtime ::
    "task_ref \<Rightarrow> u64 \<Rightarrow> u64 \<Rightarrow> u64 \<Rightarrow> u64 \<Rightarrow> 'k kstate \<Rightarrow> 'k kstate"
  scx_bpf_consume :: "u64 \<Rightarrow> 'k kstate \<Rightarrow> bool \<times> 'k kstate"
  scx_bpf_dsq_insert :: "task_ref \<Rightarrow> u64 \<Rightarrow> u64 \<Rightarrow> u64 \<Rightarrow> 'k kstate \<Rightarrow> 'k kstate"
  scx_bpf_dsq_insert_vtime ::
    "task_ref \<Rightarrow> u64 \<Rightarrow> u64 \<Rightarrow> u64 \<Rightarrow> u64 \<Rightarrow> 'k kstate \<Rightarrow> 'k kstate"
  scx_bpf_dsq_move_to_local :: "u64 \<Rightarrow> 'k kstate \<Rightarrow> bool \<times> 'k kstate"
  scx_bpf_kick_cpu :: "s32 \<Rightarrow> u64 \<Rightarrow> 'k kstate \<Rightarrow> 'k kstate"
  scx_bpf_select_cpu_dfl ::
    "task_ref \<Rightarrow> s32 \<Rightarrow> u64 \<Rightarrow> bool \<Rightarrow> 'k kstate \<Rightarrow> (s32 \<times> bool) \<times> 'k kstate"
  scx_bpf_task_cgroup :: "task_ref \<Rightarrow> 'k kstate \<Rightarrow> cgroup_ref option \<times> 'k kstate"
  bpf_cgroup_release :: "cgroup_ref \<Rightarrow> 'k kstate \<Rightarrow> 'k kstate"
  cgrp_kn_id :: "cgroup_ref \<Rightarrow> 'k kstate \<Rightarrow> u64"

subsection \<open>Kernel generation and unified names\<close>

fun scx_legacy_kfuncs :: "int option \<Rightarrow> int option \<Rightarrow> bool" where
  "scx_legacy_kfuncs (Some major) (Some minor) = (major < 6 \<or> major = 6 \<and> minor < 13)"
| "scx_legacy_kfuncs _ _ = False"

abbreviation legacy :: "'k scx_env \<Rightarrow> bool" where
  "legacy K \<equiv> scx_legacy_kfuncs (SCX_KERNEL_MAJOR K) (SCX_KERNEL_MINOR K)"

definition scx_dsq_insert ::
    "'k scx_env \<Rightarrow> task_ref \<Rightarrow> u64 \<Rightarrow> u64 \<Rightarrow> u64 \<Rightarrow> 'k kstate \<Rightarrow> 'k kstate" where
  "scx_dsq_insert K = (if legacy K then scx_bpf_dispatch K else scx_bpf_dsq_insert K)"

definition scx_dsq_insert_vtime ::
    "'k scx_env \<Rightarrow> task_ref \<Rightarrow> u64 \<Rightarrow> u64 \<Rightarrow> u64 \<Rightarrow> u64 \<Rightarrow> 'k kstate \<Rightarrow> 'k kstate" where
  "scx_dsq_insert_vtime K =
     (if legacy K then scx_bpf_dispatch_vtime K else scx_bpf_dsq_insert_vtime K)"

definition scx_dsq_move_to_local :: "'k scx_env \<Rightarrow> u64 \<Rightarrow> 'k kstate \<Rightarrow> bool \<times> 'k kstate" where
  "scx_dsq_move_to_local K =
     (if legacy K then scx_bpf_consume K else scx_bpf_dsq_move_to_local K)"

text \<open>The symbol each unified name expands to, and the symbols the header declares.\<close>

datatype unified = Dsq_insert | Dsq_insert_vtime | Dsq_move_to_local

fun scx_unified_symbol :: "bool \<Rightarrow> unified \<Rightarrow> string" where
  "scx_unified_symbol True Dsq_insert = ''scx_bpf_dispatch''"
| "scx_unified_symbol True Dsq_insert_vtime = ''scx_bpf_dispatch_vtime''"
| "scx_unified_symbol True Dsq_move_to_local = ''scx_bpf_consume''"
| "scx_unified_symbol False Dsq_insert = ''scx_bpf_dsq_insert''"
| "scx_unified_symbol False Dsq_insert_vtime = ''scx_bpf_dsq_insert_vtime''"
| "scx_unified_symbol False Dsq_move_to_local = ''scx_bpf_dsq_move_to_local''"

definition declared_kfuncs :: "bool \<Rightarrow> string list" where
  "declared_kfuncs leg =
     [''scx_bpf_create_dsq'', ''scx_bpf_destroy_dsq''] @
     (if leg then [''scx_bpf_dispatch'', ''scx_bpf_dispatch_vtime'', ''scx_bpf_consume'']
      else [''scx_bpf_dsq_insert'', ''scx_bpf_dsq_insert_vtime'', ''scx_bpf_dsq_move_to_local'']) @
     [''scx_bpf_kick_cpu'', ''scx_bpf_select_cpu_dfl'', ''scx_bpf_task_cgroup'',
      ''bpf_cgroup_release'']"

subsection \<open>Constants\<close>

definition SCX_DSQ_FLAG_BUILTIN :: u64 where
  "SCX_DSQ_FLAG_BUILTIN = push_bit 63 1"

definition SCX_DSQ_INVALID :: u64 where
  "SCX_DSQ_INVALID = SCX_DSQ_FLAG_BUILTIN OR 0"

definition SCX_DSQ_GLOBAL :: u64 where
  "SCX_DSQ_GLOBAL = SCX_DSQ_FLAG_BUILTIN OR 1"

definition SCX_DSQ_LOCAL :: u64 where
  "SCX_DSQ_LOCAL = SCX_DSQ_FLAG_BUILTIN OR 2"

definition SCX_DSQ_LOCAL_ON :: u64 where
  "SCX_DSQ_LOCAL_ON = SCX_DSQ_FLAG_BUILTIN OR 3"

definition SCX_SLICE_DFL :: u64 where
  "SCX_SLICE_DFL = 20000000"

definition SCX_ENQ_WAKEUP :: u64 where
  "SCX_ENQ_WAKEUP = 1"

definition SCX_ENQ_HEAD :: u64 where
  "SCX_ENQ_HEAD = push_bit 4 1"

definition SCX_KICK_IDLE :: u64 where
  "SCX_KICK_IDLE = 1"

definition SCX_KICK_PREEMPT :: u64 where
  "SCX_KICK_PREEMPT = push_bit 1 1"

definition builtin_dsqs :: "u64 list" where
  "builtin_dsqs = [SCX_DSQ_INVALID, SCX_DSQ_GLOBAL, SCX_DSQ_LOCAL, SCX_DSQ_LOCAL_ON]"

definition is_builtin_dsq :: "u64 \<Rightarrow> bool" where
  "is_builtin_dsq d \<longleftrightarrow> d AND SCX_DSQ_FLAG_BUILTIN \<noteq> 0"

lemmas scx_const_defs =
  SCX_DSQ_FLAG_BUILTIN_def SCX_DSQ_INVALID_def SCX_DSQ_GLOBAL_def SCX_DSQ_LOCAL_def
  SCX_DSQ_LOCAL_ON_def builtin_dsqs_def is_builtin_dsq_def

subsection \<open>Section names of the struct\_ops macros\<close>

definition BPF_STRUCT_OPS :: "string \<Rightarrow> string" where
  "BPF_STRUCT_OPS name = ''struct_ops/'' @ name"

definition BPF_STRUCT_OPS_SLEEPABLE :: "string \<Rightarrow> string" where
  "BPF_STRUCT_OPS_SLEEPABLE name = ''struct_ops.s/'' @ name"

definition SCX_OPS_SECTION :: string where
  "SCX_OPS_SECTION = ''.struct_ops.link''"

subsection \<open>Facts\<close>

lemma set_vtime_simps [simp]:
  "vtime_of (set_vtime p v k) q = (if q = p then v else vtime_of k q)"
  "slice_of (set_vtime p v k) q = slice_of k q"
  "tgid (tasks (set_vtime p v k) q) = tgid (tasks k q)"
  "kern (set_vtime p v k) = kern k"
  by (simp_all add: set_vtime_def)

lemma set_slice_simps [simp]:
  "vtime_of (set_slice p v k) q = vtime_of k q"
  "slice_of (set_slice p v k) q = (if q = p then v else slice_of k q)"
  "tgid (tasks (set_slice p v k) q) = tgid (tasks k q)"
  "kern (set_slice p v k) = kern k"
  by (simp_all add: set_slice_def)

lemma legacy_iff:
  "scx_legacy_kfuncs mj mn \<longleftrightarrow>
     (\<exists>a b. mj = Some a \<and> mn = Some b \<and> (a < 6 \<or> a = 6 \<and> b < 13))"
  by (cases mj; cases mn) auto

lemma unified_symbol_inj:
  "scx_unified_symbol l u = scx_unified_symbol l' u' \<Longrightarrow> l = l' \<and> u = u'"
  by (cases l; cases l'; cases u; cases u') simp_all

lemma unified_symbol_declared:
  "scx_unified_symbol l u \<in> set (declared_kfuncs l)"
  by (cases l; cases u) (simp_all add: declared_kfuncs_def)

lemma unified_symbol_undeclared:
  "scx_unified_symbol (\<not> l) u \<notin> set (declared_kfuncs l)"
  by (cases l; cases u) (simp_all add: declared_kfuncs_def)

lemma builtin_dsqs_builtin: "\<forall>d \<in> set builtin_dsqs. is_builtin_dsq d"
  by (simp add: scx_const_defs)

lemma builtin_dsqs_distinct: "distinct builtin_dsqs"
  by (simp add: scx_const_defs)

end
