(* ===== verification/Scx_Reference.thy ===== *)
theory Scx_Reference
  imports Scx_Common
begin

text \<open>
  What the scheduler relies on of the kernel, as named predicates on the kernel parameter,
  and a small executable kernel that satisfies them. The predicates are the documented
  behaviour of the kfuncs: a task's cgroup is returned with a reference that is dropped by
  the release; a vtime insertion stores the slice and the vtime in the task and files it in
  the dispatch queue by wrapping vtime order, after entries of equal vtime; a move takes the
  first entry. The reference kernel shows that they can hold together; properties are proved
  for every kernel that satisfies them.
\<close>

subsection \<open>Contracts\<close>

definition cgroup_query_contract :: "'k scx_env \<Rightarrow> bool" where
  "cgroup_query_contract K \<longleftrightarrow>
     (\<forall>p k. tasks (snd (scx_bpf_task_cgroup K p k)) = tasks k) \<and>
     (\<forall>c k. tasks (bpf_cgroup_release K c k) = tasks k)"

text \<open>While a run lasts no task changes its cgroup, and cgroup queries leave the queues alone.\<close>

definition stable_cgroup_contract ::
    "'k scx_env \<Rightarrow> (task_ref \<Rightarrow> u64) \<Rightarrow> ('k \<Rightarrow> u64 \<Rightarrow> (task_ref \<times> u64) list) \<Rightarrow> bool" where
  "stable_cgroup_contract K cg dsq \<longleftrightarrow>
     (\<forall>p k. case scx_bpf_task_cgroup K p k of
        (None, k') \<Rightarrow> cg p = 0 | (Some c, k') \<Rightarrow> cgrp_kn_id K c k' = cg p) \<and>
     (\<forall>p k. dsq (kern (snd (scx_bpf_task_cgroup K p k))) = dsq (kern k)) \<and>
     (\<forall>c k. dsq (kern (bpf_cgroup_release K c k)) = dsq (kern k))"

definition cgroup_ref_contract :: "'k scx_env \<Rightarrow> ('k kstate \<Rightarrow> cgroup_ref \<Rightarrow> int) \<Rightarrow> bool" where
  "cgroup_ref_contract K refs \<longleftrightarrow>
     (\<forall>p k. refs (snd (scx_bpf_task_cgroup K p k)) =
        (case fst (scx_bpf_task_cgroup K p k) of
           None \<Rightarrow> refs k | Some c \<Rightarrow> (refs k)(c := refs k c + 1))) \<and>
     (\<forall>c k. refs (bpf_cgroup_release K c k) = (refs k)(c := refs k c - 1))"

definition kernel_vtime_before :: "u64 \<Rightarrow> u64 \<Rightarrow> bool" where
  "kernel_vtime_before a b \<longleftrightarrow> sint (a - b) < 0"

fun dsq_file :: "task_ref \<times> u64 \<Rightarrow> (task_ref \<times> u64) list \<Rightarrow> (task_ref \<times> u64) list" where
  "dsq_file x [] = [x]"
| "dsq_file x (y # ys) =
     (if kernel_vtime_before (snd x) (snd y) then x # y # ys else y # dsq_file x ys)"

definition vtime_insert_contract ::
    "'k scx_env \<Rightarrow> ('k \<Rightarrow> u64 \<Rightarrow> (task_ref \<times> u64) list) \<Rightarrow> bool" where
  "vtime_insert_contract K dsq \<longleftrightarrow>
     (\<forall>p d sl v fl k. sl \<noteq> 0 \<longrightarrow> \<not> is_builtin_dsq d \<longrightarrow>
        tasks (scx_dsq_insert_vtime K p d sl v fl k) = tasks (set_slice p sl (set_vtime p v k)) \<and>
        dsq (kern (scx_dsq_insert_vtime K p d sl v fl k)) =
          (dsq (kern k))(d := dsq_file (p, v) (dsq (kern k) d)))"

text \<open>
  A move takes the first entry. The kernel passes over entries of tasks that may not run on the dispatching CPU, so the
  contract is for tasks whose affinity allows every CPU, which is the default of a container: pinned tasks, as of a static CPU manager,
  are outside it.
\<close>

definition move_contract ::
    "'k scx_env \<Rightarrow> ('k \<Rightarrow> u64 \<Rightarrow> (task_ref \<times> u64) list) \<Rightarrow> bool" where
  "move_contract K dsq \<longleftrightarrow>
     (\<forall>d k. \<not> is_builtin_dsq d \<longrightarrow>
        fst (scx_dsq_move_to_local K d k) = (dsq (kern k) d \<noteq> []) \<and>
        tasks (snd (scx_dsq_move_to_local K d k)) = tasks k \<and>
        dsq (kern (snd (scx_dsq_move_to_local K d k))) =
          (dsq (kern k))(d := tl (dsq (kern k) d)))"

subsection \<open>A reference kernel\<close>

record ref_kern =
  rk_dsqs :: "u64 \<Rightarrow> (task_ref \<times> u64) list"
  rk_local :: "task_ref list"
  rk_cgroup :: "task_ref \<Rightarrow> cgroup_ref option"
  rk_kn_id :: "cgroup_ref \<Rightarrow> u64"
  rk_refs :: "cgroup_ref \<Rightarrow> int"
  rk_idle :: "s32 option"

definition ref_insert_vtime ::
    "task_ref \<Rightarrow> u64 \<Rightarrow> u64 \<Rightarrow> u64 \<Rightarrow> u64 \<Rightarrow> ref_kern kstate \<Rightarrow> ref_kern kstate" where
  "ref_insert_vtime p d sl v fl k =
     (set_slice p sl (set_vtime p v k))
       \<lparr>kern := (kern k)\<lparr>rk_dsqs := (rk_dsqs (kern k))(d := dsq_file (p, v) (rk_dsqs (kern k) d))\<rparr>\<rparr>"

definition ref_insert ::
    "task_ref \<Rightarrow> u64 \<Rightarrow> u64 \<Rightarrow> u64 \<Rightarrow> ref_kern kstate \<Rightarrow> ref_kern kstate" where
  "ref_insert p d sl fl k =
     (set_slice p sl k)\<lparr>kern := (kern k)\<lparr>rk_local := rk_local (kern k) @ [p]\<rparr>\<rparr>"

definition ref_move :: "u64 \<Rightarrow> ref_kern kstate \<Rightarrow> bool \<times> ref_kern kstate" where
  "ref_move d k =
     (rk_dsqs (kern k) d \<noteq> [],
      k\<lparr>kern := (kern k)
         \<lparr>rk_local := rk_local (kern k) @ map fst (take 1 (rk_dsqs (kern k) d)),
          rk_dsqs := (rk_dsqs (kern k))(d := tl (rk_dsqs (kern k) d))\<rparr>\<rparr>)"

definition ref_task_cgroup ::
    "task_ref \<Rightarrow> ref_kern kstate \<Rightarrow> cgroup_ref option \<times> ref_kern kstate" where
  "ref_task_cgroup p k =
     (case rk_cgroup (kern k) p of
        None \<Rightarrow> (None, k)
      | Some c \<Rightarrow>
          (Some c, k\<lparr>kern := (kern k)\<lparr>rk_refs := (rk_refs (kern k))(c := rk_refs (kern k) c + 1)\<rparr>\<rparr>))"

definition ref_release :: "cgroup_ref \<Rightarrow> ref_kern kstate \<Rightarrow> ref_kern kstate" where
  "ref_release c k =
     k\<lparr>kern := (kern k)\<lparr>rk_refs := (rk_refs (kern k))(c := rk_refs (kern k) c - 1)\<rparr>\<rparr>"

definition ref_env :: "ref_kern scx_env" where
  "ref_env =
     \<lparr>SCX_KERNEL_MAJOR = Some 6, SCX_KERNEL_MINOR = Some 14,
      scx_bpf_create_dsq = (\<lambda>d node k. (0, k)),
      scx_bpf_destroy_dsq = (\<lambda>d k. k),
      scx_bpf_dispatch = (\<lambda>p d sl fl k. k),
      scx_bpf_dispatch_vtime = (\<lambda>p d sl v fl k. k),
      scx_bpf_consume = (\<lambda>d k. (False, k)),
      scx_bpf_dsq_insert = ref_insert,
      scx_bpf_dsq_insert_vtime = ref_insert_vtime,
      scx_bpf_dsq_move_to_local = ref_move,
      scx_bpf_kick_cpu = (\<lambda>cpu fl k. k),
      scx_bpf_select_cpu_dfl = (\<lambda>p prev fl idle k.
        (case rk_idle (kern k) of None \<Rightarrow> (prev, idle) | Some cpu \<Rightarrow> (cpu, True), k)),
      scx_bpf_task_cgroup = ref_task_cgroup,
      bpf_cgroup_release = ref_release,
      cgrp_kn_id = (\<lambda>c k. rk_kn_id (kern k) c)\<rparr>"

text \<open>Task 1 of process 7 and task 2 of process 8; task 1 lives in cgroup 3 with ID 77.\<close>

definition ref_kstate :: "ref_kern kstate" where
  "ref_kstate =
     \<lparr>tasks = (\<lambda>p. \<lparr>tgid = (if p = 1 then 7 else 8), scx = \<lparr>dsq_vtime = 0, slice = 0\<rparr>\<rparr>),
      kern = \<lparr>rk_dsqs = (\<lambda>_. []), rk_local = [], rk_cgroup = (\<lambda>p. if p = 1 then Some 3 else None),
              rk_kn_id = (\<lambda>_. 77), rk_refs = (\<lambda>_. 0), rk_idle = None\<rparr>\<rparr>"

subsection \<open>The reference kernel keeps the contracts\<close>

lemmas ref_defs = ref_env_def ref_insert_vtime_def ref_insert_def ref_move_def
  ref_task_cgroup_def ref_release_def

lemma ref_env_unified [simp]:
  "scx_dsq_insert_vtime ref_env = ref_insert_vtime"
  "scx_dsq_insert ref_env = ref_insert"
  "scx_dsq_move_to_local ref_env = ref_move"
  by (simp_all add: scx_dsq_insert_vtime_def scx_dsq_insert_def scx_dsq_move_to_local_def
      ref_env_def)

lemma ref_cgroup_query: "cgroup_query_contract ref_env"
  by (simp add: cgroup_query_contract_def ref_defs split: option.splits)

lemma ref_cgroup_refs: "cgroup_ref_contract ref_env (\<lambda>k. rk_refs (kern k))"
  by (simp add: cgroup_ref_contract_def ref_defs split: option.splits)

lemma ref_vtime_insert: "vtime_insert_contract ref_env rk_dsqs"
  by (simp add: vtime_insert_contract_def ref_insert_vtime_def)

lemma ref_moves: "move_contract ref_env rk_dsqs"
  by (simp add: move_contract_def ref_move_def)

text \<open>The reference kernel with every task pinned in a cgroup of its own.\<close>

definition pinned_env :: "ref_kern scx_env" where
  "pinned_env = ref_env\<lparr>scx_bpf_task_cgroup := (\<lambda>p k. (Some p, k)),
     bpf_cgroup_release := (\<lambda>c k. k), cgrp_kn_id := (\<lambda>c k. of_nat c)\<rparr>"

lemma pinned_env_unified [simp]:
  "scx_dsq_insert_vtime pinned_env = ref_insert_vtime"
  "scx_dsq_move_to_local pinned_env = ref_move"
  by (simp_all add: scx_dsq_insert_vtime_def scx_dsq_move_to_local_def pinned_env_def ref_env_def)

lemma pinned_contracts:
  "cgroup_query_contract pinned_env" "stable_cgroup_contract pinned_env of_nat rk_dsqs"
  "vtime_insert_contract pinned_env rk_dsqs" "move_contract pinned_env rk_dsqs"
proof -
  show "cgroup_query_contract pinned_env" "stable_cgroup_contract pinned_env of_nat rk_dsqs"
    by (simp_all add: cgroup_query_contract_def stable_cgroup_contract_def pinned_env_def)
  show "vtime_insert_contract pinned_env rk_dsqs" "move_contract pinned_env rk_dsqs"
    by (simp_all add: vtime_insert_contract_def move_contract_def ref_insert_vtime_def ref_move_def)
qed

end
