(* ===== verification/Bpf_Helpers.thy ===== *)
theory Bpf_Helpers
  imports Prelude
begin

text \<open>
  The macro layer of \<^verbatim>\<open>include/bpf/bpf_helpers.h\<close>. A function-like macro is a function on
  its argument list; a use that the preprocessor or the compiler would reject is \<open>None\<close>.
  The \<^verbatim>\<open>printk\<close> family is translated down to the BPF helper call it expands to, so that the
  five-argument limit of helper calls can be stated. The open-coded iterator loops call
  kernel kfuncs (\<^verbatim>\<open>bpf_iter_num_new\<close> and its kin), which are a parameter.
\<close>

subsection \<open>Counting and selecting macro arguments\<close>

text \<open>A preprocessor token list: the placeholder \<^verbatim>\<open>_\<close>, a user argument, or a macro's own token.\<close>

datatype ('a, 't) tok = Underscore | Arg 'a | Tok 't

definition bpf_nth :: "'x list \<Rightarrow> 'x option" where
  "bpf_nth xs = (if 13 < length xs then Some (xs ! 13) else None)"

definition bpf_narg :: "'a list \<Rightarrow> ('a, nat) tok option" where
  "bpf_narg args =
     bpf_nth (Underscore # map Arg args @ map Tok [12, 11, 10, 9, 8, 7, 6, 5, 4, 3, 2, 1, 0])"

text \<open>\<^verbatim>\<open>___bpf_apply(fn, n)\<close> pastes a count onto a macro name: it selects one of the numbered macros.\<close>

definition bpf_apply :: "(nat \<Rightarrow> 'm) \<Rightarrow> nat \<Rightarrow> ('a, nat) tok option \<Rightarrow> 'm option" where
  "bpf_apply fn limit n =
     (case n of Some (Tok k) \<Rightarrow> (if k \<le> limit then Some (fn k) else None) | _ \<Rightarrow> None)"

subsection \<open>Filling the parameter array\<close>

fun bpf_filln :: "nat \<Rightarrow> 'v list \<Rightarrow> nat \<Rightarrow> 'v list \<Rightarrow> 'v list option" where
  "bpf_filln 0 arr p xs = (case xs of [] \<Rightarrow> Some arr | _ \<Rightarrow> None)"
| "bpf_filln (Suc 0) arr p xs = (case xs of [x] \<Rightarrow> Some (arr[p := x]) | _ \<Rightarrow> None)"
| "bpf_filln (Suc (Suc n)) arr p xs =
     (case xs of x # args \<Rightarrow> bpf_filln (Suc n) (arr[p := x]) (p + 1) args | [] \<Rightarrow> None)"

definition bpf_fill :: "'v list \<Rightarrow> 'v list \<Rightarrow> 'v list option" where
  "bpf_fill arr args =
     (case bpf_apply bpf_filln 12 (bpf_narg args) of
        None \<Rightarrow> None | Some fill \<Rightarrow> fill arr 0 args)"

subsection \<open>The printk family\<close>

datatype carg =
    CFmt string        \<comment> \<open>the format array\<close>
  | CSize nat          \<comment> \<open>a \<^verbatim>\<open>sizeof\<close>\<close>
  | CVal u64           \<comment> \<open>a printed value passed directly\<close>
  | CParams "u64 list" \<comment> \<open>the \<^verbatim>\<open>___param\<close> array\<close>
  | CPtr u64           \<comment> \<open>a caller-supplied pointer or identifier\<close>

record helper_call =
  callee :: string
  cargs :: "carg list"

text \<open>\<^verbatim>\<open>sizeof\<close> of a character array initialised with a literal counts the terminating zero.\<close>

definition sizeof_fmt :: "string \<Rightarrow> nat" where
  "sizeof_fmt fmt = length fmt + 1"

definition sizeof_params :: "u64 list \<Rightarrow> nat" where
  "sizeof_params ps = 8 * length ps"

text \<open>
  \<^verbatim>\<open>unsigned long long ___param[___bpf_narg(args)]\<close> followed by \<^verbatim>\<open>___bpf_fill(___param, args)\<close>;
  the array starts with arbitrary contents \<open>junk\<close>.
\<close>

definition param_array :: "(nat \<Rightarrow> u64) \<Rightarrow> u64 list \<Rightarrow> u64 list option" where
  "param_array junk args =
     (case bpf_narg args of Some (Tok n) \<Rightarrow> bpf_fill (map junk [0..<n]) args | _ \<Rightarrow> None)"

definition BPF_SEQ_PRINTF ::
    "(nat \<Rightarrow> u64) \<Rightarrow> u64 \<Rightarrow> string \<Rightarrow> u64 list \<Rightarrow> helper_call option" where
  "BPF_SEQ_PRINTF junk seq fmt args =
     (case param_array junk args of None \<Rightarrow> None
      | Some ps \<Rightarrow> Some \<lparr>callee = ''bpf_seq_printf'',
          cargs = [CPtr seq, CFmt fmt, CSize (sizeof_fmt fmt), CParams ps,
                   CSize (sizeof_params ps)]\<rparr>)"

definition BPF_SNPRINTF ::
    "(nat \<Rightarrow> u64) \<Rightarrow> u64 \<Rightarrow> nat \<Rightarrow> string \<Rightarrow> u64 list \<Rightarrow> helper_call option" where
  "BPF_SNPRINTF junk out out_size fmt args =
     (case param_array junk args of None \<Rightarrow> None
      | Some ps \<Rightarrow> Some \<lparr>callee = ''bpf_snprintf'',
          cargs = [CPtr out, CSize out_size, CFmt fmt, CParams ps, CSize (sizeof_params ps)]\<rparr>)"

definition bpf_printk_direct :: "string \<Rightarrow> u64 list \<Rightarrow> helper_call option" where
  "bpf_printk_direct fmt args =
     Some \<lparr>callee = ''bpf_trace_printk'',
           cargs = [CFmt fmt, CSize (sizeof_fmt fmt)] @ map CVal args\<rparr>"

definition bpf_vprintk :: "(nat \<Rightarrow> u64) \<Rightarrow> string \<Rightarrow> u64 list \<Rightarrow> helper_call option" where
  "bpf_vprintk junk fmt args =
     (case param_array junk args of None \<Rightarrow> None
      | Some ps \<Rightarrow> Some \<lparr>callee = ''bpf_trace_vprintk'',
          cargs = [CFmt fmt, CSize (sizeof_fmt fmt), CParams ps, CSize (sizeof_params ps)]\<rparr>)"

definition bpf_stream_printk ::
    "(nat \<Rightarrow> u64) \<Rightarrow> u64 \<Rightarrow> string \<Rightarrow> u64 list \<Rightarrow> helper_call option" where
  "bpf_stream_printk junk stream_id fmt args =
     (case param_array junk args of None \<Rightarrow> None
      | Some ps \<Rightarrow> Some \<lparr>callee = ''bpf_stream_vprintk'',
          cargs = [CPtr stream_id, CFmt fmt, CParams ps, CSize (sizeof_params ps)]\<rparr>)"

datatype printk_macro = Vprintk | Printk

definition bpf_pick_printk :: "u64 list \<Rightarrow> (u64, printk_macro) tok option" where
  "bpf_pick_printk args =
     bpf_nth (Underscore # map Arg args @ map Tok
       [Vprintk, Vprintk, Vprintk,
        Vprintk, Vprintk, Vprintk, Vprintk,
        Vprintk, Vprintk, Printk \<comment> \<open>3\<close>, Printk \<comment> \<open>2\<close>,
        Printk \<comment> \<open>1\<close>, Printk \<comment> \<open>0\<close>])"

definition bpf_printk :: "(nat \<Rightarrow> u64) \<Rightarrow> string \<Rightarrow> u64 list \<Rightarrow> helper_call option" where
  "bpf_printk junk fmt args =
     (case bpf_pick_printk args of
        Some (Tok Printk) \<Rightarrow> bpf_printk_direct fmt args
      | Some (Tok Vprintk) \<Rightarrow> bpf_vprintk junk fmt args
      | _ \<Rightarrow> None)"

subsection \<open>Small expression macros\<close>

definition likely :: "int \<Rightarrow> int" where
  "likely x = (if x \<noteq> 0 then 1 else 0)"

definition unlikely :: "int \<Rightarrow> int" where
  "unlikely x = (if x \<noteq> 0 then 1 else 0)"

text \<open>
  \<^verbatim>\<open>bpf_tail_call_static\<close> loads the three argument registers and calls a helper by number; a slot that
  is not a compile-time constant is a trap (\<open>None\<close>).
\<close>

definition bpf_tail_call_static :: "bool \<Rightarrow> u64 \<Rightarrow> u64 \<Rightarrow> u32 \<Rightarrow> (nat \<times> (nat \<rightharpoonup> u64)) option" where
  "bpf_tail_call_static slot_constant ctx prog_map slot =
     (if \<not> slot_constant then None else Some (12, [1 \<mapsto> ctx, 2 \<mapsto> prog_map, 3 \<mapsto> ucast slot]))"

text \<open>A weak symbol that is not resolved has address 0.\<close>

definition bpf_ksym_exists :: "u64 \<Rightarrow> bool" where
  "bpf_ksym_exists addr = (addr \<noteq> 0)"

definition KERNEL_VERSION :: "int \<Rightarrow> int \<Rightarrow> int \<Rightarrow> int" where
  "KERNEL_VERSION a b c = push_bit 16 a + push_bit 8 b + (if c > 255 then 255 else c)"

definition container_of :: "u64 \<Rightarrow> u64 \<Rightarrow> u64" where
  "container_of ptr member_offset = ptr - member_offset"

datatype libbpf_pin_type = LIBBPF_PIN_NONE | LIBBPF_PIN_BY_NAME

datatype libbpf_tristate = TRI_NO | TRI_YES | TRI_MODULE

fun tristate_value :: "libbpf_tristate \<Rightarrow> int" where
  "tristate_value TRI_NO = 0"
| "tristate_value TRI_YES = 1"
| "tristate_value TRI_MODULE = 2"

subsection \<open>Open-coded iterator loops\<close>

text \<open>
  \<open>iter_new\<close> is \<^verbatim>\<open>bpf_iter_num_new\<close>, which returns an error code and the iterator; the macros discard the code. \<open>N\<close> is
  \<^verbatim>\<open>bpf_iter_num_next\<close>: it returns the next element, or \<open>None\<close> for \<^verbatim>\<open>NULL\<close>, and the
  advanced iterator. Elements and bounds are of type \<^verbatim>\<open>int\<close>, compared as signed. A \<^verbatim>\<open>for\<close> loop whose iterator never ends does
  not return, so each loop is a partial function. The cleanup attribute runs \<open>D\<close>, \<^verbatim>\<open>bpf_iter_num_destroy\<close>, on the iterator
  when the loop is left; loop bodies that leave the loop early are not modelled.
\<close>

definition in_bounds :: "s32 \<Rightarrow> s32 \<Rightarrow> s32 \<Rightarrow> bool" where
  "in_bounds start stop i \<longleftrightarrow> sint i \<ge> sint start \<and> sint i < sint stop"

partial_function (option) bpf_for_loop ::
    "('it \<Rightarrow> s32 option \<times> 'it) \<Rightarrow> s32 \<Rightarrow> s32 \<Rightarrow> (s32 \<Rightarrow> 's \<Rightarrow> 's) \<Rightarrow> 'it \<Rightarrow> 's \<Rightarrow> ('s \<times> 'it) option"
where
  "bpf_for_loop N start stop body it st =
     (case N it of
        (None, it') \<Rightarrow> Some (st, it')
      | (Some t, it') \<Rightarrow>
          if in_bounds start stop t then bpf_for_loop N start stop body it' (body t st)
          else Some (st, it'))"

definition bpf_for ::
    "(s32 \<Rightarrow> s32 \<Rightarrow> s32 \<times> 'it) \<Rightarrow> ('it \<Rightarrow> s32 option \<times> 'it) \<Rightarrow> ('it \<Rightarrow> 'd) \<Rightarrow> s32 \<Rightarrow> s32
     \<Rightarrow> (s32 \<Rightarrow> 's \<Rightarrow> 's) \<Rightarrow> 's \<Rightarrow> ('s \<times> 'd) option" where
  "bpf_for iter_new N D start stop body st =
     (case iter_new start stop of (err, it) \<Rightarrow> map_option (map_prod id D) (bpf_for_loop N start stop body it st))"

partial_function (option) bpf_each_loop ::
    "('it \<Rightarrow> 'e option \<times> 'it) \<Rightarrow> ('e \<Rightarrow> 's \<Rightarrow> 's) \<Rightarrow> 'it \<Rightarrow> 's \<Rightarrow> ('s \<times> 'it) option"
where
  "bpf_each_loop N body it st =
     (case N it of
        (None, it') \<Rightarrow> Some (st, it')
      | (Some e, it') \<Rightarrow> bpf_each_loop N body it' (body e st))"

definition bpf_for_each ::
    "('p \<Rightarrow> s32 \<times> 'it) \<Rightarrow> ('it \<Rightarrow> 'e option \<times> 'it) \<Rightarrow> ('it \<Rightarrow> 'd) \<Rightarrow> 'p \<Rightarrow> ('e \<Rightarrow> 's \<Rightarrow> 's) \<Rightarrow> 's
     \<Rightarrow> ('s \<times> 'd) option" where
  "bpf_for_each iter_new N D args body st =
     (case iter_new args of (err, it) \<Rightarrow> map_option (map_prod id D) (bpf_each_loop N body it st))"

definition bpf_repeat ::
    "(s32 \<Rightarrow> s32 \<Rightarrow> s32 \<times> 'it) \<Rightarrow> ('it \<Rightarrow> s32 option \<times> 'it) \<Rightarrow> ('it \<Rightarrow> 'd) \<Rightarrow> s32 \<Rightarrow> ('s \<Rightarrow> 's) \<Rightarrow> 's
     \<Rightarrow> ('s \<times> 'd) option" where
  "bpf_repeat iter_new N D n body st =
     (case iter_new 0 n of (err, it) \<Rightarrow> map_option (map_prod id D) (bpf_each_loop N (\<lambda>_. body) it st))"

text \<open>
  An iterator whose elements still to come are finitely many: \<open>rest\<close> reads them. Nothing is said about which they are.
\<close>

definition finite_iterator :: "('it \<Rightarrow> 'e option \<times> 'it) \<Rightarrow> ('it \<Rightarrow> 'e list) \<Rightarrow> bool" where
  "finite_iterator N rest \<longleftrightarrow>
     (\<forall>it. case rest it of
        [] \<Rightarrow> fst (N it) = None
      | x # xs \<Rightarrow> fst (N it) = Some x \<and> rest (snd (N it)) = xs)"

text \<open>
  The documented contract of the numeric iterator: created without an error on \<open>[a, b)\<close> it yields \<open>a\<close>,
  \<open>a + 1\<close>, \dots, \<open>b - 1\<close> and then \<^verbatim>\<open>NULL\<close>. When its creation fails, as for \<open>a > b\<close> or for a range longer than the kernel's limit on
  loops, it yields \<^verbatim>\<open>NULL\<close> at once.
\<close>

definition num_iter_contract ::
    "(s32 \<Rightarrow> s32 \<Rightarrow> s32 \<times> 'it) \<Rightarrow> ('it \<Rightarrow> s32 option \<times> 'it) \<Rightarrow> ('it \<Rightarrow> s32 list) \<Rightarrow> bool" where
  "num_iter_contract iter_new N rest \<longleftrightarrow> finite_iterator N rest \<and>
     (\<forall>a b. rest (snd (iter_new a b)) = (if fst (iter_new a b) = 0 then map word_of_int [sint a..sint b - 1] else []))"

subsection \<open>Argument counting\<close>

lemma bpf_nth_table:
  assumes "length args \<le> 12" and "length table = 13"
  shows "bpf_nth (Underscore # map Arg args @ map Tok table) = Some (Tok (table ! (12 - length args)))"
  using assms by (simp add: bpf_nth_def nth_append)

lemma count_table: "[12, 11, 10, 9, 8, 7, 6, 5, 4, 3, 2, 1, 0 :: nat] = rev [0..<13]"
  by code_simp

lemma bpf_narg_le: "length args \<le> 12 \<Longrightarrow> bpf_narg args = Some (Tok (length args))"
  unfolding bpf_narg_def count_table
  by (subst bpf_nth_table) (simp_all add: rev_nth del: upt_Suc upt_rec_numeral)

lemma bpf_narg_gt: "12 < length args \<Longrightarrow> bpf_narg args = Some (Arg (args ! 12))"
  by (simp add: bpf_narg_def bpf_nth_def nth_append)

subsection \<open>The parameter array\<close>

lemma bpf_filln_exact:
  "length xs = n \<Longrightarrow> p + n \<le> length arr \<Longrightarrow>
   bpf_filln n arr p xs = Some (take p arr @ xs @ drop (p + n) arr)"
proof (induction n arr p xs rule: bpf_filln.induct)
  case (1 arr p xs)
  then show ?case by simp
next
  case (2 arr p xs)
  then obtain x where "xs = [x]" by (auto simp: length_Suc_conv)
  with "2.prems" show ?case by (simp add: upd_conv_take_nth_drop)
next
  case (3 n arr p xs)
  then obtain x args where xs: "xs = x # args" by (cases xs) auto
  have "bpf_filln (Suc n) (arr[p := x]) (p + 1) args =
      Some (take (p + 1) (arr[p := x]) @ args @ drop (p + 1 + Suc n) (arr[p := x]))"
    using "3.IH" [OF xs] "3.prems" xs by simp
  moreover have "take (p + 1) (arr[p := x]) = take p arr @ [x]"
    using "3.prems" by (simp add: take_Suc_conv_app_nth)
  ultimately show ?case using xs by simp
qed

lemma bpf_fill_exact:
  assumes "length args \<le> 12" and "length arr = length args"
  shows "bpf_fill arr args = Some args"
  using assms bpf_filln_exact [of args "length args" 0 arr]
  by (simp add: bpf_fill_def bpf_apply_def bpf_narg_le)

lemma param_array_le [simp]: "length args \<le> 12 \<Longrightarrow> param_array junk args = Some args"
  by (simp add: param_array_def bpf_narg_le bpf_fill_exact)

lemma param_array_gt [simp]: "12 < length args \<Longrightarrow> param_array junk args = None"
  by (simp add: param_array_def bpf_narg_gt)

subsection \<open>The printk family\<close>

lemma bpf_pick_printk_le:
  assumes "length args \<le> 12"
  shows "bpf_pick_printk args = Some (Tok (if length args \<le> 3 then Printk else Vprintk))"
proof -
  have table: "[Vprintk, Vprintk, Vprintk, Vprintk, Vprintk, Vprintk, Vprintk, Vprintk, Vprintk,
      Printk, Printk, Printk, Printk] = replicate 9 Vprintk @ replicate 4 Printk"
    by (simp add: numeral_nat)
  have "bpf_pick_printk args =
      bpf_nth (Underscore # map Arg args @ map Tok (replicate 9 Vprintk @ replicate 4 Printk))"
    unfolding bpf_pick_printk_def by (simp only: table)
  also have "\<dots> = Some (Tok ((replicate 9 Vprintk @ replicate 4 Printk) ! (12 - length args)))"
    using assms by (intro bpf_nth_table) simp_all
  also have "\<dots> = Some (Tok (if length args \<le> 3 then Printk else Vprintk))"
    using assms by (auto simp: nth_append)
  finally show ?thesis .
qed

lemma bpf_pick_printk_gt: "12 < length args \<Longrightarrow> bpf_pick_printk args = Some (Arg (args ! 12))"
  by (simp add: bpf_pick_printk_def bpf_nth_def nth_append)

text \<open>The values a call of the family prints, wherever the call carries them.\<close>

fun carg_values :: "carg \<Rightarrow> u64 list" where
  "carg_values (CVal v) = [v]"
| "carg_values (CParams vs) = vs"
| "carg_values _ = []"

definition call_values :: "helper_call \<Rightarrow> u64 list" where
  "call_values c = concat (map carg_values (cargs c))"

lemma concat_map_CVal [simp]: "concat (map (carg_values \<circ> CVal) vs) = vs"
  by (induction vs) simp_all

text \<open>
  A \<^verbatim>\<open>bpf_printk\<close> with at most twelve arguments expands to one helper
  call, \<^verbatim>\<open>bpf_trace_printk\<close> for up to three values and \<^verbatim>\<open>bpf_trace_vprintk\<close> beyond; the call
  passes every value in order and never more than the five arguments a BPF helper can take.
  With more than twelve arguments the expansion is rejected.
\<close>

theorem printk_helper_call:
  "case bpf_printk junk fmt args of
     None \<Rightarrow> 12 < length args
   | Some c \<Rightarrow> length args \<le> 12 \<and> call_values c = args \<and> length (cargs c) \<le> 5 \<and>
       callee c = (if length args \<le> 3 then ''bpf_trace_printk'' else ''bpf_trace_vprintk'')"
proof (cases "length args \<le> 12")
  case True
  then show ?thesis
    by (simp add: bpf_printk_def bpf_pick_printk_le bpf_printk_direct_def bpf_vprintk_def
        call_values_def)
next
  case False
  then show ?thesis by (simp add: bpf_printk_def bpf_pick_printk_gt)
qed

subsection \<open>Kernel version codes\<close>

lemma KERNEL_VERSION_eq: "KERNEL_VERSION a b c = 65536 * a + 256 * b + min c 255"
  by (simp add: KERNEL_VERSION_def push_bit_eq_mult min_def)

text \<open>
  Version codes compare like the version triples, with the patch level
  saturated at 255, as long as the minor number fits its eight bits.
\<close>

theorem kernel_version_order:
  assumes "0 \<le> b" "b \<le> 255" "0 \<le> c" and "0 \<le> b'" "b' \<le> 255" "0 \<le> c'"
  shows "KERNEL_VERSION a b c \<le> KERNEL_VERSION a' b' c' \<longleftrightarrow>
    a < a' \<or> a = a' \<and> (b < b' \<or> b = b' \<and> min c 255 \<le> min c' 255)"
  using assms unfolding KERNEL_VERSION_eq by linarith

theorem kernel_version_order_witness:
  "KERNEL_VERSION 6 12 300 \<le> KERNEL_VERSION 6 13 0"
  using kernel_version_order [of 12 300 13 0 6 6] by simp

subsection \<open>Iterator loops\<close>

lemma finite_iteratorD:
  assumes "finite_iterator N rest"
  shows "rest it = [] \<Longrightarrow> fst (N it) = None"
    and "rest it = x # xs \<Longrightarrow> fst (N it) = Some x \<and> rest (snd (N it)) = xs"
  using assms unfolding finite_iterator_def by (auto split: list.splits dest: spec [of _ it])

lemma bpf_for_loop_fold:
  assumes c: "finite_iterator N rest"
  shows "map_option fst (bpf_for_loop N start stop body it st) = Some (fold body (takeWhile (in_bounds start stop) (rest it)) st)"
proof (induction "rest it" arbitrary: it st)
  case Nil
  then have "fst (N it) = None" by (metis finite_iteratorD(1) [OF c])
  with Nil show ?case
    by (subst bpf_for_loop.simps) (auto split: prod.splits option.splits)
next
  case (Cons x xs)
  then have n: "fst (N it) = Some x" "rest (snd (N it)) = xs"
    by (metis finite_iteratorD(2) [OF c])+
  obtain it' where N: "N it = (Some x, it')" and xs: "rest it' = xs"
    using n by (cases "N it") auto
  have "map_option fst (bpf_for_loop N start stop body it' (body x st)) =
      Some (fold body (takeWhile (in_bounds start stop) (rest it')) (body x st))"
    using Cons.hyps(1) [of it'] xs by simp
  then show ?case
    using N xs Cons.hyps(2) [symmetric] by (subst bpf_for_loop.simps) simp
qed

lemma bpf_each_loop_fold:
  assumes c: "finite_iterator N rest"
  shows "map_option fst (bpf_each_loop N body it st) = Some (fold body (rest it) st)"
proof (induction "rest it" arbitrary: it st)
  case Nil
  then have "fst (N it) = None" by (metis finite_iteratorD(1) [OF c])
  with Nil show ?case
    by (subst bpf_each_loop.simps) (auto split: prod.splits option.splits)
next
  case (Cons x xs)
  then have n: "fst (N it) = Some x" "rest (snd (N it)) = xs"
    by (metis finite_iteratorD(2) [OF c])+
  obtain it' where N: "N it = (Some x, it')" and xs: "rest it' = xs"
    using n by (cases "N it") auto
  have "map_option fst (bpf_each_loop N body it' (body x st)) = Some (fold body (rest it') (body x st))"
    using Cons.hyps(1) [of it'] xs by simp
  then show ?case
    using N xs Cons.hyps(2) [symmetric] by (subst bpf_each_loop.simps) simp
qed

lemma map_option_fst_map_prod [simp]:
  "map_option fst (map_option (map_prod id D) r) = map_option fst r"
  by (cases r) (simp_all add: case_prod_unfold)

lemma bpf_for_fold:
  assumes "finite_iterator N rest"
  shows "map_option fst (bpf_for iter_new N D start stop body st) =
    Some (fold body (takeWhile (in_bounds start stop) (rest (snd (iter_new start stop)))) st)"
  by (simp add: bpf_for_def case_prod_unfold bpf_for_loop_fold [OF assms])

lemma sint_in_range:
  fixes a b :: s32
  assumes "sint a \<le> x" "x < sint b"
  shows "sint (word_of_int x :: s32) = x"
proof -
  have "- (2 ^ 31) \<le> sint a" "sint b < 2 ^ 31" using sint_range_size [of a] sint_range_size [of b] by (simp_all add: word_size)
  with assms have "- (2 ^ 31) \<le> x" "x < 2 ^ 31" by simp_all
  then show ?thesis by (simp add: sint_sbintrunc' signed_take_bit_int_eq_self)
qed

lemma range_in_bounds:
  "takeWhile (in_bounds a b) (map word_of_int [sint a..sint b - 1]) = map word_of_int [sint a..sint b - 1]"
  by (auto simp: takeWhile_eq_all_conv in_bounds_def sint_in_range)

lemma fold_const: "fold (\<lambda>_. step) xs st = (step ^^ length xs) st"
  by (induction xs arbitrary: st) (simp_all add: funpow_swap1)

text \<open>
  C36 (bpf_for_runs). Over an iterator with finitely many elements, whatever they are, \<^verbatim>\<open>bpf_for(i, start, end)\<close> returns, having run the body
  in turn on those before the first that is not in \<open>[start, end)\<close>: the body never sees an index outside of the bounds. Over a
  numeric iterator that keeps its contract and is created without an error, these are all of \<open>start\<close>, \<open>start + 1\<close>, \dots, \<open>end - 1\<close>, and
  \<^verbatim>\<open>bpf_repeat(n)\<close> returns having run its body \<open>n\<close> times; when the creation fails, the bodies do not run at all.
\<close>

theorem bpf_for_runs:
  "(finite_iterator N rest \<longrightarrow>
      map_option fst (bpf_for iter_new N D start stop body st) =
        Some (fold body (takeWhile (in_bounds start stop) (rest (snd (iter_new start stop)))) st)) \<and>
   (num_iter_contract iter_new N rest \<longrightarrow>
      map_option fst (bpf_for iter_new N D start stop body st) =
        Some (if fst (iter_new start stop) = 0 then fold body (map word_of_int [sint start..sint stop - 1]) st else st) \<and>
      map_option fst (bpf_repeat iter_new N D n step st) =
        Some (if fst (iter_new 0 n) = 0 then (step ^^ nat (sint n)) st else st))"
proof -
  have "map_option fst (bpf_for iter_new N D start stop body st) =
        Some (if fst (iter_new start stop) = 0 then fold body (map word_of_int [sint start..sint stop - 1]) st else st) \<and>
      map_option fst (bpf_repeat iter_new N D n step st) =
        Some (if fst (iter_new 0 n) = 0 then (step ^^ nat (sint n)) st else st)" if c: "num_iter_contract iter_new N rest"
  proof -
    have f: "finite_iterator N rest" using c by (simp add: num_iter_contract_def)
    have r: "rest (snd (iter_new a b)) = (if fst (iter_new a b) = 0 then map word_of_int [sint a..sint b - 1] else [])" for a b
      using c by (simp add: num_iter_contract_def)
    have "length (rest (snd (iter_new 0 n))) = (if fst (iter_new 0 n) = 0 then nat (sint n) else 0)" by (simp add: r)
    then show ?thesis
      by (simp add: bpf_for_fold [OF f] r range_in_bounds bpf_repeat_def case_prod_unfold bpf_each_loop_fold [OF f] fold_const)
  qed
  then show ?thesis using bpf_for_fold [of N rest iter_new D start stop body st] by blast
qed

text \<open>
  An iterator that holds the element to come and the bound keeps the contract; as in the kernel, its creation fails on an empty order of the
  bounds and on more than \<open>2 ^ 23\<close> elements.
\<close>

definition range_new :: "s32 \<Rightarrow> s32 \<Rightarrow> s32 \<times> (int \<times> int)" where
  "range_new a b =
     (if sint a > sint b then (- 22, (0, 0)) else if sint b - sint a > 2 ^ 23 then (- 7, (0, 0)) else (0, (sint a, sint b)))"

definition range_next :: "int \<times> int \<Rightarrow> s32 option \<times> (int \<times> int)" where
  "range_next it = (if fst it < snd it then (Some (word_of_int (fst it)), (fst it + 1, snd it)) else (None, it))"

lemma range_iter_finite: "finite_iterator range_next (\<lambda>it. map word_of_int [fst it..snd it - 1])"
  unfolding finite_iterator_def range_next_def by (auto split: list.splits simp: upto_rec1)

lemma range_iter_contract: "num_iter_contract range_new range_next (\<lambda>it. map word_of_int [fst it..snd it - 1])"
  unfolding num_iter_contract_def by (auto simp: range_iter_finite range_new_def)

theorem bpf_for_runs_witness:
  "map_option fst (bpf_for range_new range_next id 2 5 (\<lambda>i s. s @ [i]) []) = Some [2, 3, 4] \<and>
   map_option fst (bpf_for range_new range_next id 5 2 (\<lambda>i s. s @ [i]) []) = Some [] \<and>
   map_option fst (bpf_for (\<lambda>_ _. (0, (1, 9))) range_next id 1 4 (\<lambda>i s. s @ [i]) []) = Some [1, 2, 3] \<and>
   map_option fst (bpf_repeat range_new range_next id 3 (\<lambda>s. s + 2) (1 :: nat)) = Some 7"
proof (intro conjI)
  note run = bpf_for_runs [THEN conjunct2, rule_format, OF range_iter_contract]
  show "map_option fst (bpf_for range_new range_next id 2 5 (\<lambda>i s. s @ [i]) []) = Some [2, 3, 4]"
    "map_option fst (bpf_for range_new range_next id 5 2 (\<lambda>i s. s @ [i]) []) = Some []"
    using run [of id 2 5 "\<lambda>i s. s @ [i]" "[]"] run [of id 5 2 "\<lambda>i s. s @ [i]" "[]"] by (simp_all add: range_new_def upto_rec1)
  show "map_option fst (bpf_for (\<lambda>_ _. (0, (1, 9))) range_next id 1 4 (\<lambda>i s. s @ [i]) []) = Some [1, 2, 3]"
    using bpf_for_runs [THEN conjunct1, rule_format, OF range_iter_finite, of "\<lambda>_ _. (0, (1, 9))" id 1 4 "\<lambda>i s. s @ [i]" "[]"]
    by (simp add: upto_rec1 in_bounds_def)
  show "map_option fst (bpf_repeat range_new range_next id 3 (\<lambda>s. s + 2) (1 :: nat)) = Some 7"
    using run [of id 0 0 "\<lambda>_. id" "1 :: nat" 3 "\<lambda>s. s + 2"] by (simp add: range_new_def numeral_nat)
qed

end
