(* ===== verification/Bpf_Sched.thy ===== *)
theory Bpf_Sched
  imports Scx_Reference Bpf_Helpers
begin

text \<open>
  The in-kernel scheduler, \<^verbatim>\<open>bpf/k8s_sched.bpf.c\<close>: its maps and globals as one state record,
  its helpers and every sched\_ext callback as a function of the kernel parameter \<open>K\<close>. Map
  contents are partial functions from keys to values; a value is read and written through
  the pointer a lookup returns, so the per-CPU statistics are updated in place. The CPU on
  which a callback runs is an argument where the per-CPU array makes it matter.
\<close>

subsection \<open>Maps and globals\<close>

record task_params =
  weight :: u64
  budget_ns :: u64

record sched_stats =
  enqueues :: u64
  local_dispatches :: u64
  budget_capped :: u64
  defaults :: u64

datatype bpf_map_type = BPF_MAP_TYPE_HASH | BPF_MAP_TYPE_PERCPU_ARRAY

record map_def =
  map_type :: bpf_map_type
  max_entries :: nat
  key_size :: nat
  value_size :: nat

definition cgroup_params_map :: map_def where
  "cgroup_params_map =
     \<lparr>map_type = BPF_MAP_TYPE_HASH, max_entries = 16384, key_size = 8, value_size = 16\<rparr>"

definition task_params_map :: map_def where
  "task_params_map =
     \<lparr>map_type = BPF_MAP_TYPE_HASH, max_entries = 65536, key_size = 4, value_size = 16\<rparr>"

definition stats_map :: map_def where
  "stats_map =
     \<lparr>map_type = BPF_MAP_TYPE_PERCPU_ARRAY, max_entries = 1, key_size = 4, value_size = 32\<rparr>"

record 'k sched =
  kst :: "'k kstate"
  cgroup_params :: "u64 \<rightharpoonup> task_params"
  task_params :: "u32 \<rightharpoonup> task_params"
  stats :: "s32 \<Rightarrow> u32 \<rightharpoonup> sched_stats"
  vtime_now :: u64

subsection \<open>Constants\<close>

definition MAX_PRIO_WEIGHT :: u64 where
  "MAX_PRIO_WEIGHT = 10000"

definition DEFAULT_WEIGHT :: u64 where
  "DEFAULT_WEIGHT = 1000"

definition DEFAULT_SLICE_NS :: u64 where
  "DEFAULT_SLICE_NS = 5000000"

definition K8S_DSQ_ID :: u64 where
  "K8S_DSQ_ID = 0x1000"

lemmas sched_consts = MAX_PRIO_WEIGHT_def DEFAULT_WEIGHT_def DEFAULT_SLICE_NS_def

subsection \<open>Helpers\<close>

definition vtime_before :: "u64 \<Rightarrow> u64 \<Rightarrow> bool" where
  "vtime_before a b \<longleftrightarrow> sint (a - b) < 0"

definition get_stats :: "s32 \<Rightarrow> 'k sched \<Rightarrow> sched_stats option" where
  "get_stats cpu s = stats s cpu 0"

text \<open>A write through the pointer that \<^verbatim>\<open>get_stats\<close> returned on this CPU.\<close>

definition put_stats :: "s32 \<Rightarrow> sched_stats \<Rightarrow> 'k sched \<Rightarrow> 'k sched" where
  "put_stats cpu st s = s\<lparr>stats := (stats s)(cpu := (stats s cpu)(0 \<mapsto> st))\<rparr>"

definition task_cgroup_id :: "'k scx_env \<Rightarrow> task_ref \<Rightarrow> 'k sched \<Rightarrow> u64 \<times> 'k sched" where
  "task_cgroup_id K p s =
     (case scx_bpf_task_cgroup K p (kst s) of
        (None, k) \<Rightarrow> (0, s\<lparr>kst := k\<rparr>)
      | (Some cgrp, k) \<Rightarrow>
          let cgid = cgrp_kn_id K cgrp k
          in (cgid, s\<lparr>kst := bpf_cgroup_release K cgrp k\<rparr>))"

definition lookup_task_params ::
    "'k scx_env \<Rightarrow> task_ref \<Rightarrow> 'k sched \<Rightarrow> (bool \<times> task_params) \<times> 'k sched" where
  "lookup_task_params K p s =
     (case task_params s (tgid (tasks (kst s) p)) of
        Some t \<Rightarrow> ((True, t), s)
      | None \<Rightarrow>
          let (cgid, s) = task_cgroup_id K p s;
              dflt = \<lparr>weight = DEFAULT_WEIGHT, budget_ns = 0\<rparr>
          in if cgid \<noteq> 0
             then (case cgroup_params s cgid of
                     Some t \<Rightarrow> ((True, t), s)
                   | None \<Rightarrow> ((False, dflt), s))
             else ((False, dflt), s))"

definition task_slice :: "task_params \<Rightarrow> u64" where
  "task_slice tp =
     (if budget_ns tp \<noteq> 0 \<and> budget_ns tp < DEFAULT_SLICE_NS then budget_ns tp
      else DEFAULT_SLICE_NS)"

subsection \<open>The sched\_ext callbacks\<close>

definition k8s_select_cpu ::
    "'k scx_env \<Rightarrow> s32 \<Rightarrow> task_ref \<Rightarrow> s32 \<Rightarrow> u64 \<Rightarrow> 'k sched \<Rightarrow> s32 \<times> 'k sched" where
  "k8s_select_cpu K this_cpu p prev_cpu wake_flags s =
     (let ((cpu, is_idle), k) = scx_bpf_select_cpu_dfl K p prev_cpu wake_flags False (kst s);
          s = s\<lparr>kst := k\<rparr>
      in if is_idle then
           let ((_, tp), s) = lookup_task_params K p s;
               sl = task_slice tp;
               s = s\<lparr>kst := scx_dsq_insert K p SCX_DSQ_LOCAL sl 0 (kst s)\<rparr>
           in (cpu,
               case get_stats this_cpu s of
                 None \<Rightarrow> s
               | Some st \<Rightarrow> put_stats this_cpu
                   (st\<lparr>local_dispatches := local_dispatches st + 1,
                       budget_capped := (if sl < DEFAULT_SLICE_NS then budget_capped st + 1
                                         else budget_capped st)\<rparr>) s)
         else (cpu, s))"

definition clamp_vtime :: "u64 \<Rightarrow> u64 \<Rightarrow> u64" where
  "clamp_vtime now vtime =
     (if vtime_before vtime (now - DEFAULT_SLICE_NS) then now - DEFAULT_SLICE_NS else vtime)"

definition k8s_enqueue ::
    "'k scx_env \<Rightarrow> s32 \<Rightarrow> task_ref \<Rightarrow> u64 \<Rightarrow> 'k sched \<Rightarrow> 'k sched" where
  "k8s_enqueue K this_cpu p enq_flags s =
     (let ((found, tp), s) = lookup_task_params K p s;
          sl = task_slice tp;
          vtime = clamp_vtime (vtime_now s) (vtime_of (kst s) p);
          s = s\<lparr>kst := scx_dsq_insert_vtime K p K8S_DSQ_ID sl vtime enq_flags (kst s)\<rparr>
      in case get_stats this_cpu s of
           None \<Rightarrow> s
         | Some st \<Rightarrow> put_stats this_cpu
             (st\<lparr>enqueues := enqueues st + 1,
                 budget_capped := (if sl < DEFAULT_SLICE_NS then budget_capped st + 1
                                   else budget_capped st),
                 defaults := (if \<not> found then defaults st + 1 else defaults st)\<rparr>) s)"

definition k8s_dispatch ::
    "'k scx_env \<Rightarrow> s32 \<Rightarrow> task_ref option \<Rightarrow> 'k sched \<Rightarrow> 'k sched" where
  "k8s_dispatch K cpu prev s =
     (let (_, k) = scx_dsq_move_to_local K K8S_DSQ_ID (kst s) in s\<lparr>kst := k\<rparr>)"

definition k8s_running :: "task_ref \<Rightarrow> 'k sched \<Rightarrow> 'k sched" where
  "k8s_running p s =
     (if vtime_before (vtime_now s) (vtime_of (kst s) p)
      then s\<lparr>vtime_now := vtime_of (kst s) p\<rparr> else s)"

definition used_slice :: "u64 \<Rightarrow> u64 \<Rightarrow> u64" where
  "used_slice sl remaining = (let used = sl - remaining in if used > sl then sl else used)"

definition vtime_charge :: "u64 \<Rightarrow> u64 \<Rightarrow> u64" where
  "vtime_charge used w = (used * MAX_PRIO_WEIGHT) div (if w \<noteq> 0 then w else 1)"

definition k8s_stopping ::
    "'k scx_env \<Rightarrow> task_ref \<Rightarrow> bool \<Rightarrow> 'k sched \<Rightarrow> 'k sched" where
  "k8s_stopping K p runnable s =
     (let ((_, tp), s) = lookup_task_params K p s;
          sl = task_slice tp;
          used = used_slice sl (slice_of (kst s) p)
      in s\<lparr>kst := set_vtime p (vtime_of (kst s) p + vtime_charge used (weight tp)) (kst s)\<rparr>)"

definition k8s_enable :: "task_ref \<Rightarrow> 'k sched \<Rightarrow> 'k sched" where
  "k8s_enable p s = s\<lparr>kst := set_vtime p (vtime_now s) (kst s)\<rparr>"

definition k8s_init :: "'k scx_env \<Rightarrow> 'k sched \<Rightarrow> s32 \<times> 'k sched" where
  "k8s_init K s =
     (let (ret, k) = scx_bpf_create_dsq K K8S_DSQ_ID (-1) (kst s); s = s\<lparr>kst := k\<rparr>
      in if sint ret < 0 then (ret, s) else (0, s))"

definition k8s_exit :: "(nat \<Rightarrow> u64) \<Rightarrow> u64 \<Rightarrow> helper_call option" where
  "k8s_exit junk kind = bpf_printk junk ''k8s_sched exit: kind=%d'' [kind]"

record 'k sched_ext_ops =
  op_select_cpu :: "s32 \<Rightarrow> task_ref \<Rightarrow> s32 \<Rightarrow> u64 \<Rightarrow> 'k sched \<Rightarrow> s32 \<times> 'k sched"
  op_enqueue :: "s32 \<Rightarrow> task_ref \<Rightarrow> u64 \<Rightarrow> 'k sched \<Rightarrow> 'k sched"
  op_dispatch :: "s32 \<Rightarrow> task_ref option \<Rightarrow> 'k sched \<Rightarrow> 'k sched"
  op_running :: "task_ref \<Rightarrow> 'k sched \<Rightarrow> 'k sched"
  op_stopping :: "task_ref \<Rightarrow> bool \<Rightarrow> 'k sched \<Rightarrow> 'k sched"
  op_enable :: "task_ref \<Rightarrow> 'k sched \<Rightarrow> 'k sched"
  op_init :: "'k sched \<Rightarrow> s32 \<times> 'k sched"
  op_exit :: "(nat \<Rightarrow> u64) \<Rightarrow> u64 \<Rightarrow> helper_call option"
  op_flags :: u64
  op_name :: string
  op_timeout_ms :: u32

definition k8s_sched :: "'k scx_env \<Rightarrow> 'k sched_ext_ops" where
  "k8s_sched K =
     \<lparr>op_select_cpu = k8s_select_cpu K, op_enqueue = k8s_enqueue K,
      op_dispatch = k8s_dispatch K, op_running = k8s_running, op_stopping = k8s_stopping K,
      op_enable = k8s_enable, op_init = k8s_init K, op_exit = k8s_exit, op_flags = 0,
      op_name = ''k8s_sched'', op_timeout_ms = 30000\<rparr>"

subsection \<open>Runs\<close>

text \<open>
  The kernel invokes the callbacks through the ops table in an order of its own. Between
  two callbacks the kernel may change its state and any task in any way, and the agent may
  rewrite the parameter maps.
\<close>

datatype (dead 'k) event =
    EvSelectCpu s32 task_ref s32 u64
  | EvEnqueue s32 task_ref u64
  | EvDispatch s32 "task_ref option"
  | EvRunning task_ref
  | EvStopping task_ref bool
  | EvEnable task_ref
  | EvKernel "'k kstate"
  | EvAgent "u64 \<rightharpoonup> task_params" "u32 \<rightharpoonup> task_params"

fun exec_event :: "'k sched_ext_ops \<Rightarrow> 'k event \<Rightarrow> 'k sched \<Rightarrow> 'k sched" where
  "exec_event ops (EvSelectCpu this_cpu p prev fl) s = snd (op_select_cpu ops this_cpu p prev fl s)"
| "exec_event ops (EvEnqueue this_cpu p fl) s = op_enqueue ops this_cpu p fl s"
| "exec_event ops (EvDispatch cpu prev) s = op_dispatch ops cpu prev s"
| "exec_event ops (EvRunning p) s = op_running ops p s"
| "exec_event ops (EvStopping p runnable) s = op_stopping ops p runnable s"
| "exec_event ops (EvEnable p) s = op_enable ops p s"
| "exec_event ops (EvKernel k) s = s\<lparr>kst := k\<rparr>"
| "exec_event ops (EvAgent cg tk) s = s\<lparr>cgroup_params := cg, task_params := tk\<rparr>"

definition run :: "'k scx_env \<Rightarrow> 'k event list \<Rightarrow> 'k sched \<Rightarrow> 'k sched" where
  "run K es s = fold (exec_event (k8s_sched K)) es s"

subsection \<open>The wrapping virtual clock\<close>

lemma vtime_before_of_int:
  assumes "- (2 ^ 63) \<le> i - j" and "i - j < 2 ^ 63"
  shows "vtime_before (of_int i) (of_int j) \<longleftrightarrow> i < j"
proof -
  have "(of_int i :: u64) - of_int j = of_int (i - j)" by simp
  then have "sint ((of_int i :: u64) - of_int j) = i - j"
    using sint64_of_int [OF assms] by simp
  then show ?thesis by (simp add: vtime_before_def)
qed

lemma vtime_before_offset:
  assumes "- (2 ^ 63) \<le> i - j" and "i - j < 2 ^ 63"
  shows "vtime_before (w + of_int i) (w + of_int j) \<longleftrightarrow> i < j"
  using vtime_before_of_int [OF assms] by (simp add: vtime_before_def)

lemma vtime_before_irrefl [simp]: "\<not> vtime_before a a"
  by (simp add: vtime_before_def)

text \<open>
  In any half of the 64-bit clock, wherever it starts and whether or not
  it wraps around, \<^verbatim>\<open>vtime_before\<close> is the order of the offsets from its start: on such a
  window it is a strict linear order, so the DSQ ordering by it is well defined.
\<close>

theorem vtime_before_window:
  assumes "uint x < 2 ^ 63" and "uint y < 2 ^ 63"
  shows "vtime_before (w + x) (w + y) \<longleftrightarrow> x < y"
proof -
  have "0 \<le> uint x" "0 \<le> uint y" by simp_all
  then have "vtime_before (w + of_int (uint x)) (w + of_int (uint y)) \<longleftrightarrow> uint x < uint y"
    using assms by (intro vtime_before_offset) linarith+
  then show ?thesis by (simp add: uint64_less)
qed

theorem vtime_before_window_witness:
  "vtime_before (0xFFFFFFFFFFFFFFFE + 1) (0xFFFFFFFFFFFFFFFE + 5)"
  using vtime_before_window [of 1 5 "0xFFFFFFFFFFFFFFFE"] by simp

text \<open>Outside a window the comparison is not an order: opposite points precede each other.\<close>

lemma vtime_before_symmetric_iff:
  "vtime_before a b \<and> vtime_before b a \<longleftrightarrow> a - b = 2 ^ 63"
proof -
  have ba: "b - a = - (a - b)" by simp
  have "sint (a - b) < 0 \<and> sint (- (a - b)) < 0 \<longleftrightarrow> a - b = 2 ^ 63"
  proof
    assume neg: "sint (a - b) < 0 \<and> sint (- (a - b)) < 0"
    let ?d = "sint (a - b)"
    have d: "a - b = of_int ?d" by simp
    then have m: "- (a - b) = of_int (- ?d)" by (metis of_int_minus)
    have "?d = - (2 ^ 63)"
    proof (rule ccontr)
      assume "?d \<noteq> - (2 ^ 63)"
      then have "- ?d < 2 ^ 63" using sint64_range(1) [of "a - b"] by linarith
      then have "sint (- (a - b)) = - ?d"
        unfolding m using neg by (intro sint64_of_int) linarith+
      with neg show False by linarith
    qed
    with d show "a - b = 2 ^ 63" by simp
  next
    assume "a - b = 2 ^ 63"
    then show "sint (a - b) < 0 \<and> sint (- (a - b)) < 0" by simp
  qed
  then show ?thesis unfolding vtime_before_def ba .
qed

lemma clamp_vtime_offset:
  assumes "- (2 ^ 63) \<le> d" and "d + 5000000 < 2 ^ 63"
  shows "clamp_vtime now (now + of_int d) = now + of_int (max d (- 5000000))"
proof -
  have lo: "now - DEFAULT_SLICE_NS = now + of_int (- 5000000)"
    by (simp add: DEFAULT_SLICE_NS_def)
  have "vtime_before (now + of_int d) (now + of_int (- 5000000)) \<longleftrightarrow> d < - 5000000"
    using assms by (intro vtime_before_offset) linarith+
  then show ?thesis unfolding clamp_vtime_def lo by (simp add: max_def)
qed

text \<open>
  C22 (enqueue_clamp). The vtime with which a task is queued is at most one default slice behind the
  global clock, and is the task's own vtime when it already was: relative to the clock it
  is the larger of the task's lag and minus 5 ms. The lag is read as a signed 64-bit
  distance; only a task more than 2 to the 63 minus 5 ms ahead of the clock is out of range.
\<close>

theorem enqueue_clamp:
  assumes "sint (v - now) + 5000000 < 2 ^ 63"
  shows "sint (clamp_vtime now v - now) = max (sint (v - now)) (- 5000000)"
proof -
  let ?d = "sint (v - now)"
  have "clamp_vtime now v = clamp_vtime now (now + of_int ?d)" by simp
  also have "\<dots> = now + of_int (max ?d (- 5000000))"
    using assms sint64_range(1) [of "v - now"] by (intro clamp_vtime_offset)
  finally have "clamp_vtime now v - now = of_int (max ?d (- 5000000))" by simp
  moreover have "sint (of_int (max ?d (- 5000000)) :: u64) = max ?d (- 5000000)"
    using sint64_range [of "v - now"] by (intro sint64_of_int) auto
  ultimately show ?thesis by simp
qed

theorem enqueue_clamp_witness:
  "sint (clamp_vtime 3 (3 - 7000000) - 3) = - 5000000"
  using enqueue_clamp [of "3 - 7000000" 3] by simp

subsection \<open>Slices and charges\<close>

lemma uint_task_slice:
  "uint (task_slice tp) =
     (if budget_ns tp = 0 then 5000000 else min (uint (budget_ns tp)) 5000000)"
  by (auto simp: task_slice_def DEFAULT_SLICE_NS_def uint64_less min_def)

lemma task_slice_bounds: "0 < uint (task_slice tp)" "uint (task_slice tp) \<le> 5000000"
proof -
  have "budget_ns tp = 0 \<or> 0 < uint (budget_ns tp)"
    by (metis uint_0_iff uint_ge_0 order_le_less)
  then show "0 < uint (task_slice tp)" "uint (task_slice tp) \<le> 5000000"
    by (auto simp: uint_task_slice)
qed

text \<open>
  A slice is the default 5 ms, capped by a non-zero budget: never zero, never
  longer than the default, and a budget of 5 ms or more changes nothing.
\<close>

theorem task_slice_min:
  "uint (task_slice tp) =
     (if budget_ns tp = 0 then 5000000 else min (uint (budget_ns tp)) 5000000) \<and>
   0 < task_slice tp \<and> task_slice tp \<le> DEFAULT_SLICE_NS"
  using uint_task_slice task_slice_bounds [of tp]
  by (simp add: uint64_less uint64_le DEFAULT_SLICE_NS_def)

text \<open>The unbounded arithmetic that the word computations implement.\<close>

definition spec_used :: "int \<Rightarrow> int \<Rightarrow> int" where
  "spec_used sl remaining = (if remaining \<le> sl then sl - remaining else sl)"

definition spec_charge :: "int \<Rightarrow> int \<Rightarrow> int" where
  "spec_charge used w = used * 10000 div max 1 w"

lemma uint_used_slice: "uint (used_slice sl r) = spec_used (uint sl) (uint r)"
proof (cases "r \<le> sl")
  case True
  then have "uint (sl - r) = uint sl - uint r" by (rule uint64_sub)
  moreover have "0 \<le> uint r" by simp
  ultimately show ?thesis using True
    by (simp add: used_slice_def spec_used_def Let_def uint64_less uint64_le)
next
  case False
  then have "uint (sl - r) = uint sl - uint r + 2 ^ 64" by (intro uint64_sub_wrap) simp
  with False show ?thesis using uint64_lt [of r]
    by (simp add: used_slice_def spec_used_def Let_def uint64_less uint64_le)
qed

lemma uint_vtime_charge:
  assumes "uint used \<le> 5000000"
  shows "uint (vtime_charge used w) = spec_charge (uint used) (uint w)"
proof -
  have "uint (used * MAX_PRIO_WEIGHT) = uint used * 10000"
    using assms uint64_mult [of used MAX_PRIO_WEIGHT] by (simp add: MAX_PRIO_WEIGHT_def)
  moreover have "uint (if w \<noteq> 0 then w else 1) = max 1 (uint w)"
    by (cases "w = 0") (simp_all add: max_def uint_0_iff flip: word_neq_0_conv,
        metis int_one_le_iff_zero_less uint_0_iff uint_ge_0 order_le_less)
  ultimately show ?thesis
    by (simp only: vtime_charge_def spec_charge_def uint_div_distrib)
qed

lemma spec_used_bounds: "0 \<le> r \<Longrightarrow> 0 \<le> sl \<Longrightarrow> 0 \<le> spec_used sl r \<and> spec_used sl r \<le> sl"
  by (simp add: spec_used_def)

lemma spec_charge_nonneg: "0 \<le> used \<Longrightarrow> 0 \<le> spec_charge used w"
  by (simp add: spec_charge_def pos_imp_zdiv_nonneg_iff)

lemma spec_charge_le: "0 \<le> used \<Longrightarrow> spec_charge used w \<le> used * 10000"
proof -
  assume "0 \<le> used"
  then have "used * 10000 div max 1 w \<le> used * 10000 div 1"
    by (intro zdiv_mono2) auto
  then show ?thesis by (simp add: spec_charge_def)
qed

lemma spec_charge_antimono: "0 \<le> used \<Longrightarrow> w \<le> w' \<Longrightarrow> spec_charge used w' \<le> spec_charge used w"
  unfolding spec_charge_def by (intro zdiv_mono2) auto

lemma spec_charge_ge_used: "0 \<le> used \<Longrightarrow> w \<le> 10000 \<Longrightarrow> used \<le> spec_charge used w"
  using spec_charge_antimono [of used w 10000] by (simp add: spec_charge_def)

lemma spec_charge_floor:
  assumes "0 < w"
  shows "w * spec_charge used w \<le> 10000 * used" and "10000 * used < w * (spec_charge used w + 1)"
proof -
  have "max 1 w = w" using assms by simp
  moreover have "w * (used * 10000 div w) = used * 10000 - used * 10000 mod w"
    by (simp add: minus_mod_eq_mult_div)
  moreover have "0 \<le> used * 10000 mod w" "used * 10000 mod w < w"
    using assms by simp_all
  ultimately show "w * spec_charge used w \<le> 10000 * used"
    and "10000 * used < w * (spec_charge used w + 1)"
    by (simp_all add: spec_charge_def distrib_left)
qed

text \<open>
  C14 (stopping_charge). When a task leaves the CPU its vtime grows by the CPU time it used, scaled
  by 10000 over its weight (weight zero counting as one), with no intermediate overflow, and
  no other task's vtime changes. The time used is the slice minus what is left of it; when
  more is left than the slice now allows, because the parameters changed while the task ran,
  a whole slice is charged. A charge never exceeds 50 s of vtime.
\<close>

theorem stopping_charge:
  assumes "lookup_task_params K p s = ((found, tp), s1)"
  shows "\<exists>c. vtime_of (kst (k8s_stopping K p runnable s)) p = vtime_of (kst s1) p + of_int c \<and>
      c = spec_charge (spec_used (uint (task_slice tp)) (uint (slice_of (kst s1) p)))
            (uint (weight tp)) \<and>
      0 \<le> c \<and> c \<le> 50000000000 \<and>
      (\<forall>q. q = p \<or> vtime_of (kst (k8s_stopping K p runnable s)) q = vtime_of (kst s1) q)"
proof -
  let ?used = "used_slice (task_slice tp) (slice_of (kst s1) p)"
  let ?c = "vtime_charge ?used (weight tp)"
  have u: "uint ?used = spec_used (uint (task_slice tp)) (uint (slice_of (kst s1) p))"
    by (rule uint_used_slice)
  then have b: "0 \<le> uint ?used" "uint ?used \<le> 5000000"
    using spec_used_bounds [of "uint (slice_of (kst s1) p)" "uint (task_slice tp)"]
      task_slice_bounds [of tp] by simp_all
  then have c: "uint ?c = spec_charge (uint ?used) (uint (weight tp))"
    by (intro uint_vtime_charge)
  then have "0 \<le> uint ?c" "uint ?c \<le> 50000000000"
    using b spec_charge_le [of "uint ?used" "uint (weight tp)"] spec_charge_nonneg by simp_all
  moreover have "?c = of_int (uint ?c)" by simp
  ultimately show ?thesis
    using assms c u by (intro exI [of _ "uint ?c"]) (simp add: k8s_stopping_def)
qed

text \<open>A state of the scheduler on the reference kernel, for concrete runs.\<close>

definition ref_sched :: "ref_kern sched" where
  "ref_sched =
     \<lparr>kst = ref_kstate, cgroup_params = [77 \<mapsto> \<lparr>weight = 2000, budget_ns = 2000000\<rparr>],
      task_params = Map.empty,
      stats = (\<lambda>_. [0 \<mapsto> \<lparr>enqueues = 0, local_dispatches = 0, budget_capped = 0, defaults = 0\<rparr>]),
      vtime_now = 0\<rparr>"

lemma ref_lookup_1:
  "lookup_task_params ref_env 1 ref_sched = ((True, \<lparr>weight = 2000, budget_ns = 2000000\<rparr>), ref_sched)"
  by (simp add: lookup_task_params_def task_cgroup_id_def ref_sched_def ref_kstate_def ref_defs
      fun_eq_iff)

theorem stopping_charge_witness:
  "\<exists>c. vtime_of (kst (k8s_stopping ref_env 1 True ref_sched)) 1 = 0 + of_int c \<and> c = 10000000"
  using stopping_charge [OF ref_lookup_1, of True]
  by (simp add: task_slice_def DEFAULT_SLICE_NS_def spec_used_def spec_charge_def ref_sched_def
      ref_kstate_def)

subsection \<open>What the callbacks leave alone\<close>

lemma task_cgroup_id_kst: "\<exists>k. snd (task_cgroup_id K p s) = s\<lparr>kst := k\<rparr>"
  by (auto simp: task_cgroup_id_def Let_def split: option.splits prod.splits)

lemma lookup_kst: "\<exists>k. snd (lookup_task_params K p s) = s\<lparr>kst := k\<rparr>"
proof (cases "task_params s (tgid (tasks (kst s) p))")
  case None
  have "snd (lookup_task_params K p s) = snd (task_cgroup_id K p s)"
    using None by (auto simp: lookup_task_params_def Let_def case_prod_unfold split: option.splits)
  then show ?thesis using task_cgroup_id_kst by metis
next
  case (Some t)
  then have "snd (lookup_task_params K p s) = s\<lparr>kst := kst s\<rparr>"
    by (simp add: lookup_task_params_def)
  then show ?thesis by blast
qed

lemma lookup_frame [frame, simp]:
  "cgroup_params (snd (lookup_task_params K p s)) = cgroup_params s"
  "task_params (snd (lookup_task_params K p s)) = task_params s"
  "stats (snd (lookup_task_params K p s)) = stats s"
  "vtime_now (snd (lookup_task_params K p s)) = vtime_now s"
  using lookup_kst [of K p s] by auto

lemma task_cgroup_id_tasks:
  assumes "cgroup_query_contract K"
  shows "tasks (kst (snd (task_cgroup_id K p s))) = tasks (kst s)"
proof -
  obtain c k where c: "scx_bpf_task_cgroup K p (kst s) = (c, k)" by fastforce
  then have "tasks k = tasks (kst s)"
    using assms unfolding cgroup_query_contract_def by (metis snd_conv)
  then show ?thesis
    using c assms by (simp add: task_cgroup_id_def cgroup_query_contract_def split: option.splits)
qed

lemma lookup_tasks [simp]:
  assumes "cgroup_query_contract K"
  shows "tasks (kst (snd (lookup_task_params K p s))) = tasks (kst s)"
  using task_cgroup_id_tasks [OF assms, of p s]
  by (auto simp: lookup_task_params_def Let_def case_prod_unfold split: option.splits)

text \<open>
  The parameters a process runs under, as a function of the two maps: its own entry, else the
  entry of its cgroup, else the defaults. Lemma \<open>lookup_effective\<close> shows that \<^verbatim>\<open>lookup_task_params\<close> returns just these.
\<close>

definition effective_params ::
    "(u32 \<rightharpoonup> task_params) \<Rightarrow> (u64 \<rightharpoonup> task_params) \<Rightarrow> u32 \<Rightarrow> u64 \<Rightarrow> bool \<times> task_params" where
  "effective_params tmap cmap pid cgid =
     (case (tmap pid, if cgid = 0 then None else cmap cgid) of
        (Some t, _) \<Rightarrow> (True, t)
      | (None, Some t) \<Rightarrow> (True, t)
      | (None, None) \<Rightarrow> (False, \<lparr>weight = DEFAULT_WEIGHT, budget_ns = 0\<rparr>))"

lemma task_cgroup_id_stable:
  assumes "stable_cgroup_contract K cg dsq"
  shows "fst (task_cgroup_id K p s) = cg p"
    and "dsq (kern (kst (snd (task_cgroup_id K p s)))) = dsq (kern (kst s))"
proof -
  obtain c k where c: "scx_bpf_task_cgroup K p (kst s) = (c, k)" by fastforce
  have id: "case c of None \<Rightarrow> cg p = 0 | Some c \<Rightarrow> cgrp_kn_id K c k = cg p"
    using assms c unfolding stable_cgroup_contract_def
    by (metis (no_types, lifting) case_prod_conv)
  have "dsq (kern k) = dsq (kern (kst s))"
    using assms c unfolding stable_cgroup_contract_def by (metis snd_conv)
  moreover have "dsq (kern (bpf_cgroup_release K c' k)) = dsq (kern k)" for c'
    using assms unfolding stable_cgroup_contract_def by blast
  ultimately show "fst (task_cgroup_id K p s) = cg p"
    and "dsq (kern (kst (snd (task_cgroup_id K p s)))) = dsq (kern (kst s))"
    using c id by (simp_all add: task_cgroup_id_def Let_def split: option.splits)
qed

lemma lookup_dsq:
  assumes "stable_cgroup_contract K cg dsq"
  shows "dsq (kern (kst (snd (lookup_task_params K p s)))) = dsq (kern (kst s))"
  using task_cgroup_id_stable(2) [OF assms, of p s]
  by (auto simp: lookup_task_params_def Let_def case_prod_unfold split: option.splits)

lemma lookup_effective:
  assumes "stable_cgroup_contract K cg dsq"
  shows "fst (lookup_task_params K p s) =
    effective_params (task_params s) (cgroup_params s) (tgid (tasks (kst s) p)) (cg p)"
proof -
  have "cgroup_params (snd (task_cgroup_id K p s)) = cgroup_params s"
    using task_cgroup_id_kst [of K p s] by auto
  then show ?thesis
    using task_cgroup_id_stable(1) [OF assms, of p s]
    by (auto simp: lookup_task_params_def effective_params_def Let_def case_prod_unfold
        split: option.splits)
qed

lemma put_stats_frame [frame, simp]:
  "kst (put_stats cpu st s) = kst s"
  "cgroup_params (put_stats cpu st s) = cgroup_params s"
  "task_params (put_stats cpu st s) = task_params s"
  "vtime_now (put_stats cpu st s) = vtime_now s"
  "get_stats c (put_stats cpu st s) = (if c = cpu then Some st else get_stats c s)"
  by (simp_all add: put_stats_def get_stats_def)

lemma get_stats_kst [simp]: "get_stats c (s\<lparr>kst := k\<rparr>) = get_stats c s"
  by (simp add: get_stats_def)

lemma get_stats_lookup [simp]:
  "get_stats c (snd (lookup_task_params K p s)) = get_stats c s"
  by (simp add: get_stats_def)

lemma select_cpu_frame [frame, simp]:
  "cgroup_params (snd (k8s_select_cpu K c p prev fl s)) = cgroup_params s"
  "task_params (snd (k8s_select_cpu K c p prev fl s)) = task_params s"
  "vtime_now (snd (k8s_select_cpu K c p prev fl s)) = vtime_now s"
  by (simp_all add: k8s_select_cpu_def Let_def case_prod_unfold split: option.splits)

lemma enqueue_frame [frame, simp]:
  "cgroup_params (k8s_enqueue K c p fl s) = cgroup_params s"
  "task_params (k8s_enqueue K c p fl s) = task_params s"
  "vtime_now (k8s_enqueue K c p fl s) = vtime_now s"
  by (simp_all add: k8s_enqueue_def Let_def case_prod_unfold split: option.splits)

lemma dispatch_frame [frame, simp]:
  "cgroup_params (k8s_dispatch K c prev s) = cgroup_params s"
  "task_params (k8s_dispatch K c prev s) = task_params s"
  "stats (k8s_dispatch K c prev s) = stats s"
  "vtime_now (k8s_dispatch K c prev s) = vtime_now s"
  by (simp_all add: k8s_dispatch_def case_prod_unfold)

lemma running_frame [frame, simp]:
  "kst (k8s_running p s) = kst s"
  "cgroup_params (k8s_running p s) = cgroup_params s"
  "task_params (k8s_running p s) = task_params s"
  "stats (k8s_running p s) = stats s"
  by (simp_all add: k8s_running_def)

lemma stopping_frame [frame, simp]:
  "cgroup_params (k8s_stopping K p r s) = cgroup_params s"
  "task_params (k8s_stopping K p r s) = task_params s"
  "stats (k8s_stopping K p r s) = stats s"
  "vtime_now (k8s_stopping K p r s) = vtime_now s"
  by (simp_all add: k8s_stopping_def Let_def case_prod_unfold)

lemma enable_frame [frame, simp]:
  "cgroup_params (k8s_enable p s) = cgroup_params s"
  "task_params (k8s_enable p s) = task_params s"
  "stats (k8s_enable p s) = stats s"
  "vtime_now (k8s_enable p s) = vtime_now s"
  by (simp_all add: k8s_enable_def)

lemma k8s_sched_sel [simp]:
  "op_select_cpu (k8s_sched K) = k8s_select_cpu K" "op_enqueue (k8s_sched K) = k8s_enqueue K"
  "op_dispatch (k8s_sched K) = k8s_dispatch K" "op_running (k8s_sched K) = k8s_running"
  "op_stopping (k8s_sched K) = k8s_stopping K" "op_enable (k8s_sched K) = k8s_enable"
  by (simp_all add: k8s_sched_def)

text \<open>
  Looking up a task's parameters changes nothing: no map, counter, clock or
  task field, and every cgroup reference it acquires is released again.
\<close>

theorem lookup_read_only:
  assumes "cgroup_query_contract K" and refs: "cgroup_ref_contract K refs"
  shows "tasks (kst (snd (lookup_task_params K p s))) = tasks (kst s) \<and>
    refs (kst (snd (lookup_task_params K p s))) = refs (kst s) \<and>
    cgroup_params (snd (lookup_task_params K p s)) = cgroup_params s \<and>
    task_params (snd (lookup_task_params K p s)) = task_params s \<and>
    stats (snd (lookup_task_params K p s)) = stats s \<and>
    vtime_now (snd (lookup_task_params K p s)) = vtime_now s"
proof -
  obtain c k where c: "scx_bpf_task_cgroup K p (kst s) = (c, k)" by fastforce
  then have "refs k = (case c of None \<Rightarrow> refs (kst s)
      | Some c \<Rightarrow> (refs (kst s))(c := refs (kst s) c + 1))"
    using refs unfolding cgroup_ref_contract_def by (metis fst_conv snd_conv)
  then have "refs (kst (snd (task_cgroup_id K p s))) = refs (kst s)"
    using c refs by (auto simp: task_cgroup_id_def cgroup_ref_contract_def split: option.splits)
  then have "refs (kst (snd (lookup_task_params K p s))) = refs (kst s)"
    by (auto simp: lookup_task_params_def Let_def case_prod_unfold split: option.splits)
  then show ?thesis using assms(1) by simp
qed

theorem lookup_read_only_witness:
  "rk_refs (kern (kst (snd (lookup_task_params ref_env 1 ref_sched)))) = rk_refs (kern (kst ref_sched))"
  using lookup_read_only [OF ref_cgroup_query ref_cgroup_refs, of 1 ref_sched] by simp

subsection \<open>Properties of runs\<close>

fun is_enqueue_on :: "s32 \<Rightarrow> 'k event \<Rightarrow> bool" where
  "is_enqueue_on c (EvEnqueue this_cpu _ _) = (this_cpu = c)"
| "is_enqueue_on c _ = False"

lemma enqueue_counts:
  "map_option enqueues (get_stats c (k8s_enqueue K cpu p fl s)) =
   map_option (\<lambda>st. enqueues st + (if cpu = c then 1 else 0)) (get_stats c s)"
  by (simp add: k8s_enqueue_def Let_def case_prod_unfold split: option.splits)

lemma select_cpu_enqueues:
  "map_option enqueues (get_stats c (snd (k8s_select_cpu K cpu p prev fl s))) =
   map_option enqueues (get_stats c s)"
  by (simp add: k8s_select_cpu_def Let_def case_prod_unfold split: option.splits)

lemma exec_event_enqueues:
  "map_option enqueues (get_stats c (exec_event (k8s_sched K) e s)) =
   map_option (\<lambda>st. enqueues st + (if is_enqueue_on c e then 1 else 0)) (get_stats c s)"
proof (cases e)
  case EvSelectCpu
  then show ?thesis using select_cpu_enqueues by simp
next
  case EvEnqueue
  then show ?thesis by (simp add: enqueue_counts)
qed (simp_all add: get_stats_def)

lemma run_enqueues:
  "map_option enqueues (get_stats c (run K es s)) =
   map_option (\<lambda>st. enqueues st + of_nat (length (filter (is_enqueue_on c) es))) (get_stats c s)"
proof (induction es arbitrary: s)
  case Nil
  then show ?case by (simp add: run_def)
next
  case (Cons e es)
  let ?s = "exec_event (k8s_sched K) e s"
  have "map_option enqueues (get_stats c (run K (e # es) s)) =
      map_option (\<lambda>n. n + of_nat (length (filter (is_enqueue_on c) es)))
        (map_option enqueues (get_stats c ?s))"
    using Cons.IH [of ?s] by (simp add: run_def option.map_comp o_def)
  also have "\<dots> = map_option
      (\<lambda>st. enqueues st + of_nat (length (filter (is_enqueue_on c) (e # es)))) (get_stats c s)"
    unfolding exec_event_enqueues by (simp add: option.map_comp o_def add.assoc)
  finally show ?case .
qed

text \<open>
  On every CPU the enqueue counter counts the enqueue callbacks that ran
  there, modulo 2 to the 64, whatever else the kernel and the agent do in between.
\<close>

theorem run_enqueue_count:
  "map_option enqueues (get_stats c (run K es s)) =
   map_option (\<lambda>st. enqueues st + of_nat (length (filter (is_enqueue_on c) es))) (get_stats c s)"
  by (rule run_enqueues)

lemma sint64_minus:
  fixes x :: u64
  assumes "x \<noteq> 2 ^ 63"
  shows "sint (- x) = - sint x"
proof -
  have "sint x \<noteq> - (2 ^ 63)"
  proof
    assume "sint x = - (2 ^ 63)"
    then have "x = of_int (- (2 ^ 63))" by (metis of_int_sint64)
    with assms show False by simp
  qed
  then have r: "- (2 ^ 63) \<le> - sint x" "- sint x < 2 ^ 63"
    using sint64_range [of x] by linarith+
  have "- x = of_int (- sint x)" by simp
  then show ?thesis using sint64_of_int [OF r] by simp
qed

text \<open>
  The global clock only moves when a task starts to run, and then never
  backwards: it becomes the later of the clock and the task's vtime, the two being compared
  as points of the wrapping clock that are not exactly opposite each other.
\<close>

theorem running_clock:
  assumes "vtime_of (kst s) p - vtime_now s \<noteq> 2 ^ 63"
  shows "sint (vtime_now (exec_event (k8s_sched K) (EvRunning p) s) - vtime_now s) =
      max 0 (sint (vtime_of (kst s) p - vtime_now s)) \<and>
    ((\<nexists>q. e = EvRunning q) \<longrightarrow> vtime_now (exec_event (k8s_sched K) e s) = vtime_now s)"
proof
  let ?d = "vtime_of (kst s) p - vtime_now s"
  have "sint (vtime_now s - vtime_of (kst s) p) = - sint ?d"
    using sint64_minus [OF assms] by simp
  then have "vtime_before (vtime_now s) (vtime_of (kst s) p) \<longleftrightarrow> 0 < sint ?d"
    by (simp add: vtime_before_def)
  then show "sint (vtime_now (exec_event (k8s_sched K) (EvRunning p) s) - vtime_now s) = max 0 (sint ?d)"
    by (simp add: k8s_running_def max_def)
  show "(\<nexists>q. e = EvRunning q) \<longrightarrow> vtime_now (exec_event (k8s_sched K) e s) = vtime_now s"
    by (cases e) simp_all
qed

theorem running_clock_witness:
  "sint (vtime_now (exec_event (k8s_sched ref_env) (EvRunning 1) (ref_sched\<lparr>vtime_now := - 9\<rparr>)) - (- 9)) = 9"
  using running_clock [of "ref_sched\<lparr>vtime_now := - 9\<rparr>" 1 ref_env "EvEnable 1"]
  by (simp add: ref_sched_def ref_kstate_def)

text \<open>
  The scheduler loads (returns 0) exactly when the kernel created its dispatch
  queue, otherwise the kernel's error code is returned unchanged; the queue's ID is that of
  a user queue, with the built-in bit clear.
\<close>

theorem init_result:
  "fst (k8s_init K s) = (let ret = fst (scx_bpf_create_dsq K K8S_DSQ_ID (-1) (kst s))
     in if sint ret < 0 then ret else 0) \<and>
   (fst (k8s_init K s) = 0 \<longleftrightarrow> 0 \<le> sint (fst (scx_bpf_create_dsq K K8S_DSQ_ID (-1) (kst s)))) \<and>
   \<not> is_builtin_dsq K8S_DSQ_ID"
  by (auto simp: k8s_init_def Let_def case_prod_unfold K8S_DSQ_ID_def is_builtin_dsq_def
      SCX_DSQ_FLAG_BUILTIN_def)

end
