(* ===== verification/Fairness.thy ===== *)
theory Fairness
  imports Bpf_Sched
begin

text \<open>
  What the weights mean. The abstract specification is a pool of always-runnable tasks on
  one CPU with unbounded integer vtimes: the task with the least vtime is served, and is
  charged for the time it used in inverse proportion to its weight. The locale
  \<open>weighted_charge\<close> is the contract of the charging rule; from it alone follow the spread of
  the vtimes and the proportional shares. The concrete rounds are built from the callbacks
  of \<^verbatim>\<open>bpf/k8s_sched.bpf.c\<close> on wrapping 64-bit vtimes and are shown to simulate the pool, for
  runs of any length.
\<close>

subsection \<open>The abstract pool\<close>

record pool =
  pv :: "task_ref \<Rightarrow> int"  \<comment> \<open>vtime\<close>
  pu :: "task_ref \<Rightarrow> int"  \<comment> \<open>CPU time received\<close>
  pn :: "task_ref \<Rightarrow> nat"  \<comment> \<open>times served\<close>
  pclock :: int

definition pool_init :: pool where
  "pool_init = \<lparr>pv = (\<lambda>_. 0), pu = (\<lambda>_. 0), pn = (\<lambda>_. 0), pclock = 0\<rparr>"

definition pool_serve ::
    "(int \<Rightarrow> int \<Rightarrow> int) \<Rightarrow> (task_ref \<Rightarrow> int) \<Rightarrow> task_ref \<Rightarrow> int \<Rightarrow> pool \<Rightarrow> pool" where
  "pool_serve charge w p u P =
     P\<lparr>pv := (pv P)(p := pv P p + charge u (w p)), pu := (pu P)(p := pu P p + u),
       pn := (pn P)(p := Suc (pn P p)), pclock := max (pclock P) (pv P p)\<rparr>"

inductive pool_reach ::
    "(int \<Rightarrow> int \<Rightarrow> int) \<Rightarrow> (task_ref \<Rightarrow> int) \<Rightarrow> (task_ref \<Rightarrow> int) \<Rightarrow> task_ref set \<Rightarrow> pool \<Rightarrow> bool"
  for charge w sl S where
  pool_start: "pool_reach charge w sl S pool_init"
| pool_step: "pool_reach charge w sl S P \<Longrightarrow> p \<in> S \<Longrightarrow> \<forall>q \<in> S. pv P p \<le> pv P q \<Longrightarrow>
     0 \<le> u \<Longrightarrow> u \<le> sl p \<Longrightarrow> pool_reach charge w sl S (pool_serve charge w p u P)"

subsection \<open>Rounds of the scheduler\<close>

text \<open>
  One round on a CPU: the kernel dispatches, starts the task that was first in the queue,
  takes \<open>used\<close> nanoseconds off its slice, stops it while it is still runnable, and enqueues it
  again. \<open>served K dsq cpu s0 U n s\<close>: from \<open>s0\<close> a sequence of rounds leads to \<open>s\<close>, in which
  task \<open>q\<close> ran \<open>n q\<close> times for \<open>U q\<close> nanoseconds in all.
\<close>

definition serve_round ::
    "'k scx_env \<Rightarrow> s32 \<Rightarrow> task_ref \<Rightarrow> u64 \<Rightarrow> u64 \<Rightarrow> 'k sched \<Rightarrow> 'k sched" where
  "serve_round K cpu p used fl s =
     (let s = op_dispatch (k8s_sched K) cpu None s;
          s = op_running (k8s_sched K) p s;
          s = s\<lparr>kst := set_slice p (slice_of (kst s) p - used) (kst s)\<rparr>;
          s = op_stopping (k8s_sched K) p True s
      in op_enqueue (k8s_sched K) cpu p fl s)"

inductive served ::
    "'k scx_env \<Rightarrow> ('k \<Rightarrow> u64 \<Rightarrow> (task_ref \<times> u64) list) \<Rightarrow> s32 \<Rightarrow> 'k sched
     \<Rightarrow> (task_ref \<Rightarrow> int) \<Rightarrow> (task_ref \<Rightarrow> nat) \<Rightarrow> 'k sched \<Rightarrow> bool"
  for K dsq cpu s0 where
  served_start: "served K dsq cpu s0 (\<lambda>_. 0) (\<lambda>_. 0) s0"
| served_step: "served K dsq cpu s0 U n s \<Longrightarrow>
     dsq (kern (kst s)) K8S_DSQ_ID = (p, v) # rest \<Longrightarrow> used \<le> slice_of (kst s) p \<Longrightarrow>
     served K dsq cpu s0 (U(p := U p + uint used)) (n(p := Suc (n p)))
       (serve_round K cpu p used fl s)"

text \<open>The tasks of \<open>qs\<close> wait in the queue with fresh slices, all at the current clock.\<close>

definition all_ready ::
    "('k \<Rightarrow> u64 \<Rightarrow> (task_ref \<times> u64) list) \<Rightarrow> (task_ref \<Rightarrow> task_params) \<Rightarrow> task_ref list \<Rightarrow> 'k sched \<Rightarrow> bool"
where
  "all_ready dsq tp qs s \<longleftrightarrow> distinct qs \<and>
     dsq (kern (kst s)) K8S_DSQ_ID = map (\<lambda>q. (q, vtime_now s)) qs \<and>
     (\<forall>q \<in> set qs. vtime_of (kst s) q = vtime_now s \<and> slice_of (kst s) q = task_slice (tp q))"

subsection \<open>The contract of a charging rule and what follows from it\<close>

locale weighted_charge =
  fixes charge :: "int \<Rightarrow> int \<Rightarrow> int" and max_use :: int and max_weight :: int
  assumes charge_lo: "0 \<le> u \<Longrightarrow> u \<le> max_use \<Longrightarrow> 0 < w \<Longrightarrow> w \<le> max_weight \<Longrightarrow>
      w * charge u w \<le> 10000 * u"
    and charge_hi: "0 \<le> u \<Longrightarrow> u \<le> max_use \<Longrightarrow> 0 < w \<Longrightarrow> w \<le> max_weight \<Longrightarrow>
      10000 * u < w * (charge u w + 1)"
    and charge_mono: "0 \<le> u \<Longrightarrow> u \<le> u' \<Longrightarrow> u' \<le> max_use \<Longrightarrow> 0 < w \<Longrightarrow> w \<le> max_weight \<Longrightarrow>
      charge u w \<le> charge u' w"
begin

lemma charge_nonneg:
  assumes "0 \<le> u" "u \<le> max_use" "0 < w" "w \<le> max_weight"
  shows "0 \<le> charge u w"
proof -
  have "0 < w * (charge u w + 1)" using charge_hi [OF assms] assms(1) by linarith
  then show ?thesis using assms(3) by (simp add: zero_less_mult_iff)
qed

lemma clock_bounds:
  assumes "pool_reach charge w sl S P"
    and S: "\<forall>q \<in> S. sl q \<le> max_use \<and> 0 < w q \<and> w q \<le> max_weight \<and> charge (sl q) (w q) \<le> C"
    and "0 \<le> C"
  shows "\<forall>q \<in> S. pclock P \<le> pv P q \<and> pv P q \<le> pclock P + C"
  using assms(1)
proof induction
  case pool_start
  then show ?case using assms by (simp add: pool_init_def)
next
  case (pool_step P p u)
  have b: "0 \<le> u" "u \<le> sl p" "sl p \<le> max_use" "0 < w p" "w p \<le> max_weight"
    using S pool_step.hyps by blast+
  have c: "0 \<le> charge u (w p)" using b by (intro charge_nonneg) auto
  have "charge u (w p) \<le> charge (sl p) (w p)" using b by (intro charge_mono)
  with S pool_step.hyps have c': "charge u (w p) \<le> C" by force
  have p: "pclock P \<le> pv P p" using pool_step by blast
  show ?case
  proof
    fix q assume "q \<in> S"
    then have "pv P p \<le> pv P q" "pv P q \<le> pclock P + C" using pool_step by blast+
    then show "pclock (pool_serve charge w p u P) \<le> pv (pool_serve charge w p u P) q \<and>
        pv (pool_serve charge w p u P) q \<le> pclock (pool_serve charge w p u P) + C"
      using c c' p by (auto simp: pool_serve_def)
  qed
qed

lemma accounts:
  assumes "pool_reach charge w sl S P"
    and S: "\<forall>q \<in> S. sl q \<le> max_use \<and> 0 < w q \<and> w q \<le> max_weight" and "q \<in> S"
  shows "w q * pv P q \<le> 10000 * pu P q \<and> 10000 * pu P q \<le> w q * (pv P q + int (pn P q))"
  using assms(1)
proof induction
  case pool_start
  then show ?case by (simp add: pool_init_def)
next
  case (pool_step P p u)
  have "0 \<le> u" "u \<le> max_use" "0 < w p" "w p \<le> max_weight" using S pool_step.hyps by force+
  note b = charge_lo [OF this] charge_hi [OF this]
  show ?case using pool_step.IH b by (auto simp: pool_serve_def distrib_left)
qed

lemma share_bound:
  assumes r: "pool_reach charge w sl S P" and pq: "p \<in> S" "q \<in> S"
    and S: "\<forall>q \<in> S. sl q \<le> max_use \<and> 0 < w q \<and> w q \<le> max_weight \<and> charge (sl q) (w q) \<le> C"
    and C: "0 \<le> C"
  shows "10000 * pu P p * w q \<le> 10000 * pu P q * w p + w p * w q * (C + int (pn P p))"
proof -
  have w: "0 < w p" "0 < w q" using S pq by blast+
  have acc: "w q * pv P q \<le> 10000 * pu P q" "10000 * pu P p \<le> w p * (pv P p + int (pn P p))"
    using accounts [OF r _ pq(1)] accounts [OF r _ pq(2)] S by blast+
  have "pv P p \<le> pv P q + C"
    using clock_bounds [OF r S C] pq by (smt (verit))
  then have "10000 * pu P p \<le> w p * (pv P q + C + int (pn P p))"
    using acc(2) w by (smt (verit) mult_left_mono)
  then have "10000 * pu P p * w q \<le> w p * (pv P q + C + int (pn P p)) * w q"
    using w by (simp add: mult_right_mono)
  also have "\<dots> = w p * (w q * pv P q) + w p * w q * (C + int (pn P p))"
    by (simp add: algebra_simps)
  also have "\<dots> \<le> w p * (10000 * pu P q) + w p * w q * (C + int (pn P p))"
    using acc(1) w(1) by simp
  finally show ?thesis by (simp add: algebra_simps)
qed

end

text \<open>The scheduler's own charge, read as integers, is such a rule up to a full default slice.\<close>

definition charge64 :: "int \<Rightarrow> int \<Rightarrow> int" where
  "charge64 u w = uint (vtime_charge (word_of_int u) (word_of_int w))"

lemma charge64_eq:
  assumes "0 \<le> u" "u \<le> 5000000" "0 < w" "w \<le> 2 ^ 64 - 1"
  shows "charge64 u w = spec_charge u w"
proof -
  have "uint (word_of_int u :: u64) = u" "uint (word_of_int w :: u64) = w"
    using assms by (simp_all add: uint_word_of_int_eq take_bit_int_eq_self)
  then show ?thesis using assms uint_vtime_charge [of "word_of_int u" "word_of_int w"]
    by (simp add: charge64_def)
qed

interpretation k8s_charge: weighted_charge charge64 5000000 "2 ^ 64 - 1"
proof
  fix u u' w :: int
  assume u: "0 \<le> u" and w: "0 < w" "w \<le> 2 ^ 64 - 1"
  show "w * charge64 u w \<le> 10000 * u" if "u \<le> 5000000"
    using charge64_eq [OF u that w] spec_charge_floor [OF w(1)] by simp
  show "10000 * u < w * (charge64 u w + 1)" if "u \<le> 5000000"
    using charge64_eq [OF u that w] spec_charge_floor [OF w(1)] by simp
  show "charge64 u w \<le> charge64 u' w" if "u \<le> u'" "u' \<le> 5000000"
    using charge64_eq [OF u _ w] charge64_eq [OF _ that(2) w] u that w
    by (simp add: spec_charge_def zdiv_mono1)
qed

subsection \<open>Filing in vtime order\<close>

lemma kernel_before_offset:
  "\<bar>i - j\<bar> < 2 ^ 63 \<Longrightarrow> kernel_vtime_before (b + of_int i) (b + of_int j) \<longleftrightarrow> i < j"
  using vtime_before_offset [of i j b] by (simp only: kernel_vtime_before_def vtime_before_def)

lemma dsq_file_sorted:
  assumes "p \<notin> set xs" "distinct xs" "sorted (map V xs)" "\<forall>q \<in> set xs. \<bar>x - V q\<bar> < 2 ^ 63"
  shows "\<exists>ys. dsq_file (p, b + of_int x) (map (\<lambda>q. (q, b + of_int (V q))) xs) =
      map (\<lambda>q. (q, b + of_int ((V(p := x)) q))) ys \<and>
    set ys = insert p (set xs) \<and> distinct ys \<and> sorted (map (V(p := x)) ys)"
  using assms
proof (induction xs)
  case Nil
  then show ?case by (intro exI [of _ "[p]"]) simp
next
  case (Cons q xs)
  have kb: "kernel_vtime_before (b + of_int x) (b + of_int (V q)) \<longleftrightarrow> x < V q"
    by (rule kernel_before_offset) (use Cons.prems(4) in simp)
  have pq: "p \<noteq> q" "p \<notin> set xs" using Cons.prems(1) by auto
  show ?case
  proof (cases "x < V q")
    case True
    have "map (V(p := x)) (q # xs) = map V (q # xs)"
      by (rule map_cong) (use Cons.prems(1) in auto)
    moreover have "\<forall>r \<in> set (q # xs). x \<le> V r"
      using True Cons.prems(3) by auto
    ultimately have so: "sorted (map (V(p := x)) (p # q # xs))"
      using Cons.prems(3) by (simp only: list.map sorted_simps) auto
    have df: "dsq_file (p, b + of_int x) (map (\<lambda>q. (q, b + of_int (V q))) (q # xs)) =
        map (\<lambda>q. (q, b + of_int ((V(p := x)) q))) (p # q # xs)"
      using True kb pq by auto
    have "set (p # q # xs) = insert p (set (q # xs))" "distinct (p # q # xs)"
      using Cons.prems(1,2) by simp_all
    with df so show ?thesis by blast
  next
    case False
    have "distinct xs" "sorted (map V xs)" "\<forall>q \<in> set xs. \<bar>x - V q\<bar> < 2 ^ 63"
      using Cons.prems by simp_all
    from Cons.IH [OF pq(2) this] obtain ys where
      ys: "dsq_file (p, b + of_int x) (map (\<lambda>q. (q, b + of_int (V q))) xs) =
        map (\<lambda>q. (q, b + of_int ((V(p := x)) q))) ys"
      "set ys = insert p (set xs)" "distinct ys" "sorted (map (V(p := x)) ys)"
      by blast
    have "\<forall>r \<in> set ys. (V(p := x)) q \<le> (V(p := x)) r"
      using False Cons.prems(3) ys(2) pq by auto
    then have so: "sorted (map (V(p := x)) (q # ys))"
      using ys(4) by (simp only: list.map sorted_simps) auto
    have df: "dsq_file (p, b + of_int x) (map (\<lambda>q. (q, b + of_int (V q))) (q # xs)) =
        map (\<lambda>q. (q, b + of_int ((V(p := x)) q))) (q # ys)"
      using False kb ys(1) pq by simp
    have "set (q # ys) = insert p (set (q # xs))" "distinct (q # ys)"
      using ys(2,3) Cons.prems(1,2) by auto
    with df so show ?thesis by blast
  qed
qed

subsection \<open>One round simulates one service\<close>

definition scx_contract ::
    "'k scx_env \<Rightarrow> ('k \<Rightarrow> u64 \<Rightarrow> (task_ref \<times> u64) list) \<Rightarrow> (task_ref \<Rightarrow> u64) \<Rightarrow> bool" where
  "scx_contract K dsq cg \<longleftrightarrow> cgroup_query_contract K \<and> stable_cgroup_contract K cg dsq \<and>
     vtime_insert_contract K dsq \<and> move_contract K dsq"

definition params_in :: "(task_ref \<Rightarrow> u64) \<Rightarrow> 'k sched \<Rightarrow> task_ref \<Rightarrow> task_params" where
  "params_in cg s q =
     snd (effective_params (task_params s) (cgroup_params s) (tgid (tasks (kst s) q)) (cg q))"

lemma lookup_params_in:
  "scx_contract K dsq cg \<Longrightarrow> snd (fst (lookup_task_params K q s)) = params_in cg s q"
  by (simp add: scx_contract_def lookup_effective [of K cg dsq] params_in_def)

lemma user_dsq: "\<not> is_builtin_dsq K8S_DSQ_ID"
  by (simp add: K8S_DSQ_ID_def is_builtin_dsq_def SCX_DSQ_FLAG_BUILTIN_def)

lemma task_slice_nonzero: "task_slice tp \<noteq> 0"
  using task_slice_bounds(1) [of tp] by auto

lemma dispatch_effect:
  assumes "scx_contract K dsq cg"
  shows "tasks (kst (k8s_dispatch K cpu prev s)) = tasks (kst s)"
    and "dsq (kern (kst (k8s_dispatch K cpu prev s))) =
      (dsq (kern (kst s)))(K8S_DSQ_ID := tl (dsq (kern (kst s)) K8S_DSQ_ID))"
  using assms user_dsq
  by (simp_all add: scx_contract_def move_contract_def k8s_dispatch_def case_prod_unfold)

lemma stopping_effect:
  assumes "scx_contract K dsq cg"
  shows "tasks (kst (k8s_stopping K p r s)) = tasks (set_vtime p (vtime_of (kst s) p +
        vtime_charge (used_slice (task_slice (params_in cg s p)) (slice_of (kst s) p))
          (weight (params_in cg s p))) (kst s))"
    and "dsq (kern (kst (k8s_stopping K p r s))) = dsq (kern (kst s))"
proof -
  have c: "cgroup_query_contract K" "stable_cgroup_contract K cg dsq"
    using assms by (simp_all add: scx_contract_def)
  then show "tasks (kst (k8s_stopping K p r s)) = tasks (set_vtime p (vtime_of (kst s) p +
        vtime_charge (used_slice (task_slice (params_in cg s p)) (slice_of (kst s) p))
          (weight (params_in cg s p))) (kst s))"
    by (simp add: k8s_stopping_def Let_def case_prod_unfold set_vtime_def
        lookup_params_in [OF assms] del: fun_upd_apply)
  show "dsq (kern (kst (k8s_stopping K p r s))) = dsq (kern (kst s))"
    using lookup_dsq [OF c(2)] by (simp add: k8s_stopping_def Let_def case_prod_unfold)
qed

lemma enqueue_effect:
  assumes "scx_contract K dsq cg"
  defines "v s p \<equiv> clamp_vtime (vtime_now s) (vtime_of (kst s) p)"
  shows "tasks (kst (k8s_enqueue K cpu p fl s)) =
      tasks (set_slice p (task_slice (params_in cg s p)) (set_vtime p (v s p) (kst s)))"
    and "dsq (kern (kst (k8s_enqueue K cpu p fl s))) = (dsq (kern (kst s)))
      (K8S_DSQ_ID := dsq_file (p, v s p) (dsq (kern (kst s)) K8S_DSQ_ID))"
proof -
  have c: "cgroup_query_contract K" "stable_cgroup_contract K cg dsq" "vtime_insert_contract K dsq"
    using assms by (simp_all add: scx_contract_def)
  have k: "kst (k8s_enqueue K cpu p fl s) = scx_dsq_insert_vtime K p K8S_DSQ_ID
      (task_slice (params_in cg s p)) (v s p) fl (kst (snd (lookup_task_params K p s)))"
    using c(1) by (simp add: k8s_enqueue_def Let_def case_prod_unfold v_def
        lookup_params_in [OF assms(1)] split: option.splits)
  show "tasks (kst (k8s_enqueue K cpu p fl s)) =
      tasks (set_slice p (task_slice (params_in cg s p)) (set_vtime p (v s p) (kst s)))"
    using c user_dsq task_slice_nonzero unfolding k vtime_insert_contract_def
    by (simp add: set_slice_def set_vtime_def del: fun_upd_apply)
  show "dsq (kern (kst (k8s_enqueue K cpu p fl s))) = (dsq (kern (kst s)))
      (K8S_DSQ_ID := dsq_file (p, v s p) (dsq (kern (kst s)) K8S_DSQ_ID))"
    using c user_dsq task_slice_nonzero lookup_dsq [OF c(2)] unfolding k vtime_insert_contract_def
    by simp
qed

lemma params_in_cong:
  "task_params s = task_params s' \<Longrightarrow> cgroup_params s = cgroup_params s' \<Longrightarrow>
   tgid (tasks (kst s) q) = tgid (tasks (kst s') q) \<Longrightarrow> params_in cg s q = params_in cg s' q"
  by (simp add: params_in_def)

lemma used_slice_exact: "used \<le> sl \<Longrightarrow> used_slice sl (sl - used) = used"
  by (auto simp: used_slice_def Let_def)

definition clock_after :: "'k sched \<Rightarrow> task_ref \<Rightarrow> u64" where
  "clock_after s p = vtime_now (k8s_running p s)"

definition requeue_vtime :: "(task_ref \<Rightarrow> u64) \<Rightarrow> 'k sched \<Rightarrow> task_ref \<Rightarrow> u64 \<Rightarrow> u64" where
  "requeue_vtime cg s p used = clamp_vtime (clock_after s p)
     (vtime_of (kst s) p + vtime_charge used (weight (params_in cg s p)))"

lemma serve_round_maps [simp]:
  "task_params (serve_round K cpu p used fl s) = task_params s"
  "cgroup_params (serve_round K cpu p used fl s) = cgroup_params s"
  by (simp_all add: serve_round_def Let_def)

lemma round_effect:
  assumes K: "scx_contract K dsq cg" and used: "used \<le> slice_of (kst s) p"
    and sl: "slice_of (kst s) p = task_slice (params_in cg s p)"
  shows "tasks (kst (serve_round K cpu p used fl s)) = tasks (set_slice p (slice_of (kst s) p)
      (set_vtime p (requeue_vtime cg s p used) (kst s)))"
    and "dsq (kern (kst (serve_round K cpu p used fl s))) K8S_DSQ_ID =
      dsq_file (p, requeue_vtime cg s p used) (tl (dsq (kern (kst s)) K8S_DSQ_ID))"
    and "vtime_now (serve_round K cpu p used fl s) = clock_after s p"
proof -
  define s1 where "s1 = k8s_running p (k8s_dispatch K cpu None s)"
  define s2 where "s2 = s1\<lparr>kst := set_slice p (slice_of (kst s1) p - used) (kst s1)\<rparr>"
  define s3 where "s3 = k8s_stopping K p True s2"
  have s4: "serve_round K cpu p used fl s = k8s_enqueue K cpu p fl s3"
    by (simp add: serve_round_def Let_def s1_def s2_def s3_def)
  have t1: "tasks (kst s1) = tasks (kst s)"
    by (simp add: s1_def dispatch_effect(1) [OF K])
  have n1: "vtime_now s1 = clock_after s p"
    by (simp add: s1_def clock_after_def k8s_running_def dispatch_effect(1) [OF K])
  have p2: "params_in cg s2 p = params_in cg s p" and p3: "params_in cg s3 p = params_in cg s p"
    by (auto intro!: params_in_cong simp: s3_def s2_def stopping_effect(1) [OF K] t1 s1_def
        dispatch_effect(1) [OF K])
  have t2: "tasks (kst s2) = tasks (set_slice p (task_slice (params_in cg s p) - used) (kst s))"
    by (simp add: s2_def t1 sl set_slice_def)
  have t3: "tasks (kst s3) = tasks (set_vtime p
      (vtime_of (kst s) p + vtime_charge used (weight (params_in cg s p))) (kst s2))"
    using used sl
    by (simp add: s3_def stopping_effect(1) [OF K] p2 t2 used_slice_exact)
  have v3: "vtime_of (kst s3) p = vtime_of (kst s) p + vtime_charge used (weight (params_in cg s p))"
    by (simp add: t3)
  have n3: "vtime_now s3 = clock_after s p" by (simp add: s3_def s2_def n1)
  show "tasks (kst (serve_round K cpu p used fl s)) = tasks (set_slice p (slice_of (kst s) p)
      (set_vtime p (requeue_vtime cg s p used) (kst s)))"
    by (simp add: s4 enqueue_effect(1) [OF K] p3 v3 n3 requeue_vtime_def)
      (simp add: set_slice_def set_vtime_def t3 t2 sl fun_eq_iff)
  have "dsq (kern (kst s3)) K8S_DSQ_ID = tl (dsq (kern (kst s)) K8S_DSQ_ID)"
    by (simp add: s3_def stopping_effect(2) [OF K] s2_def s1_def dispatch_effect(2) [OF K])
  then show "dsq (kern (kst (serve_round K cpu p used fl s))) K8S_DSQ_ID =
      dsq_file (p, requeue_vtime cg s p used) (tl (dsq (kern (kst s)) K8S_DSQ_ID))"
    by (simp add: s4 enqueue_effect(2) [OF K] v3 n3 requeue_vtime_def)
  show "vtime_now (serve_round K cpu p used fl s) = clock_after s p" by (simp add: s4 n3)
qed

text \<open>
  \<open>pool_sim\<close> relates a scheduler state to a pool: every vtime and the clock are the pool's
  integers read modulo 2 to the 64 from the base \<open>b\<close>, and the queue holds all the tasks in the
  order of the pool's vtimes.
\<close>

definition eff_weight :: "task_params \<Rightarrow> int" where
  "eff_weight tp = (if weight tp = 0 then 1 else uint (weight tp))"

definition pool_sim ::
    "('k \<Rightarrow> u64 \<Rightarrow> (task_ref \<times> u64) list) \<Rightarrow> (task_ref \<Rightarrow> u64) \<Rightarrow> (task_ref \<Rightarrow> task_params)
     \<Rightarrow> task_ref set \<Rightarrow> u64 \<Rightarrow> pool \<Rightarrow> 'k sched \<Rightarrow> bool" where
  "pool_sim dsq cg tp S b P s \<longleftrightarrow>
     (\<forall>q \<in> S. vtime_of (kst s) q = b + of_int (pv P q) \<and> slice_of (kst s) q = task_slice (tp q)) \<and>
     vtime_now s = b + of_int (pclock P) \<and> (\<forall>q. params_in cg s q = tp q) \<and>
     (\<exists>xs. dsq (kern (kst s)) K8S_DSQ_ID = map (\<lambda>q. (q, b + of_int (pv P q))) xs \<and>
        distinct xs \<and> set xs = S \<and> sorted (map (pv P) xs))"

lemma eff_weight_bounds: "0 < eff_weight tp" "eff_weight tp \<le> 2 ^ 64 - 1"
proof -
  have "weight tp \<noteq> 0 \<Longrightarrow> 0 < uint (weight tp)"
    using uint64_less [of 0 "weight tp"] by (simp add: word_gt_0)
  then show "0 < eff_weight tp" by (simp add: eff_weight_def)
  show "eff_weight tp \<le> 2 ^ 64 - 1"
    using uint64_lt [of "weight tp"] by (simp add: eff_weight_def)
qed

lemma vtime_charge_eff: "uint (vtime_charge used (weight tp)) = charge64 (uint used) (eff_weight tp)"
  by (simp add: charge64_def eff_weight_def vtime_charge_def)

lemma uint_le_slice:
  assumes "used \<le> task_slice tp"
  shows "uint used \<le> uint (task_slice tp)" "uint (task_slice tp) \<le> 5000000"
  using assms task_slice_bounds(2) [of tp] by (simp_all add: uint64_le)

lemma charge64_range:
  assumes "0 \<le> u" "u \<le> 5000000" "0 < w" "w \<le> 2 ^ 64 - 1"
  shows "0 \<le> charge64 u w" "charge64 u w \<le> 50000000000"
proof -
  show "0 \<le> charge64 u w" using k8s_charge.charge_nonneg [OF assms] .
  then have "1 * charge64 u w \<le> w * charge64 u w" using assms(3) by (intro mult_right_mono) auto
  then show "charge64 u w \<le> 50000000000"
    using k8s_charge.charge_lo [OF assms] assms(2) by linarith
qed

lemma clock_after_sim:
  assumes "vtime_of (kst s) p = b + of_int v" "vtime_now s = b + of_int c" "c \<le> v" "v \<le> c + 50000000000"
  shows "clock_after s p = b + of_int v"
proof -
  have "vtime_before (b + of_int c) (b + of_int v) \<longleftrightarrow> c < v"
    using assms(3,4) by (intro vtime_before_offset) simp_all
  then show ?thesis using assms by (auto simp: clock_after_def k8s_running_def)
qed

lemma requeue_sim:
  assumes "vtime_of (kst s) p = b + of_int v" "clock_after s p = b + of_int v" "params_in cg s p = tp"
    and "used \<le> task_slice tp"
  shows "requeue_vtime cg s p used = b + of_int (v + charge64 (uint used) (eff_weight tp))"
proof -
  let ?c = "charge64 (uint used) (eff_weight tp)"
  have c: "0 \<le> ?c" "?c \<le> 50000000000"
    using uint_le_slice [OF assms(4)] eff_weight_bounds [of tp] by (intro charge64_range; simp)+
  have "vtime_charge used (weight tp) = of_int ?c"
    by (simp flip: vtime_charge_eff)
  then have "requeue_vtime cg s p used = clamp_vtime (b + of_int v) ((b + of_int v) + of_int ?c)"
    using assms by (simp add: requeue_vtime_def)
  also have "\<dots> = (b + of_int v) + of_int (max ?c (- 5000000))"
    by (rule clamp_vtime_offset) (use c in simp_all)
  finally show ?thesis using c by (simp add: max_def add.assoc)
qed

lemma sim_step:
  assumes K: "scx_contract K dsq cg" and sim: "pool_sim dsq cg tp S b P s"
    and bounds: "\<forall>q \<in> S. pclock P \<le> pv P q \<and> pv P q \<le> pclock P + 50000000000"
    and hd: "dsq (kern (kst s)) K8S_DSQ_ID = (p, v) # rest" and used: "used \<le> slice_of (kst s) p"
  shows "p \<in> S \<and> (\<forall>q \<in> S. pv P p \<le> pv P q) \<and> used \<le> task_slice (tp p) \<and>
    pool_sim dsq cg tp S b (pool_serve charge64 (\<lambda>q. eff_weight (tp q)) p (uint used) P)
      (serve_round K cpu p used fl s)"
proof -
  obtain xs where xs: "dsq (kern (kst s)) K8S_DSQ_ID = map (\<lambda>q. (q, b + of_int (pv P q))) (p # xs)"
      "distinct (p # xs)" "set (p # xs) = S" "sorted (map (pv P) (p # xs))"
    using sim hd unfolding pool_sim_def by auto
  have p: "p \<in> S" and least: "\<forall>q \<in> S. pv P p \<le> pv P q" using xs(3,4) by auto
  have tp: "params_in cg s p = tp p" and sl: "slice_of (kst s) p = task_slice (tp p)"
    and vt: "vtime_of (kst s) p = b + of_int (pv P p)" and now: "vtime_now s = b + of_int (pclock P)"
    using sim p by (auto simp: pool_sim_def)
  have u: "used \<le> task_slice (tp p)" using used sl by simp
  define x where "x = pv P p + charge64 (uint used) (eff_weight (tp p))"
  have c: "0 \<le> charge64 (uint used) (eff_weight (tp p))"
      "charge64 (uint used) (eff_weight (tp p)) \<le> 50000000000"
    using uint_le_slice [OF u] eff_weight_bounds by (intro charge64_range; simp)+
  have clk: "clock_after s p = b + of_int (pv P p)"
    using bounds p by (intro clock_after_sim [OF vt now]) auto
  have rq: "requeue_vtime cg s p used = b + of_int x"
    unfolding x_def by (rule requeue_sim [OF vt clk tp u])
  note eff = round_effect [OF K used, unfolded tp, OF sl, of cpu fl, unfolded rq]
  have "\<bar>x - pv P q\<bar> < 2 ^ 63" if "q \<in> set xs" for q
  proof -
    have "q \<in> S" using that xs(3) by auto
    then have "pclock P \<le> pv P q" "pv P q \<le> pclock P + 50000000000" using bounds by blast+
    moreover have "pclock P \<le> pv P p" "pv P p \<le> pclock P + 50000000000" using bounds p by blast+
    ultimately show ?thesis using c unfolding x_def by simp
  qed
  then have "\<exists>ys. dsq_file (p, b + of_int x) (map (\<lambda>q. (q, b + of_int (pv P q))) xs) =
      map (\<lambda>q. (q, b + of_int (((pv P)(p := x)) q))) ys \<and>
      set ys = insert p (set xs) \<and> distinct ys \<and> sorted (map ((pv P)(p := x)) ys)"
    by (intro dsq_file_sorted) (use xs in simp_all)
  then have q: "\<exists>ys. dsq (kern (kst (serve_round K cpu p used fl s))) K8S_DSQ_ID =
      map (\<lambda>q. (q, b + of_int (((pv P)(p := x)) q))) ys \<and>
      distinct ys \<and> set ys = S \<and> sorted (map ((pv P)(p := x)) ys)"
    using eff(2) xs(1,3) by simp blast
  have "max (pclock P) (pv P p) = pv P p" using bounds p by (simp add: max_def)
  then have serve: "pool_serve charge64 (\<lambda>q. eff_weight (tp q)) p (uint used) P =
      P\<lparr>pv := (pv P)(p := x), pu := (pu P)(p := pu P p + uint used),
        pn := (pn P)(p := Suc (pn P p)), pclock := pv P p\<rparr>"
    by (simp add: pool_serve_def x_def)
  have "\<forall>q. params_in cg (serve_round K cpu p used fl s) q = params_in cg s q"
    by (intro allI params_in_cong) (simp_all add: eff(1))
  then have "pool_sim dsq cg tp S b (P\<lparr>pv := (pv P)(p := x), pu := (pu P)(p := pu P p + uint used),
        pn := (pn P)(p := Suc (pn P p)), pclock := pv P p\<rparr>) (serve_round K cpu p used fl s)"
    using sim q eff(1,3) clk sl unfolding pool_sim_def by (simp del: fun_upd_apply) simp
  then show ?thesis using p least u serve by simp
qed

abbreviation k8s_pool :: "(task_ref \<Rightarrow> task_params) \<Rightarrow> task_ref set \<Rightarrow> pool \<Rightarrow> bool" where
  "k8s_pool tp S \<equiv>
     pool_reach charge64 (\<lambda>q. eff_weight (tp q)) (\<lambda>q. uint (task_slice (tp q))) S"

lemma k8s_pool_rates:
  "\<forall>q \<in> S. uint (task_slice (tp q)) \<le> 5000000 \<and> 0 < eff_weight (tp q) \<and>
     eff_weight (tp q) \<le> 2 ^ 64 - 1 \<and>
     charge64 (uint (task_slice (tp q))) (eff_weight (tp q)) \<le> 50000000000"
  by (intro ballI conjI task_slice_bounds(2) eff_weight_bounds charge64_range(2)) simp

lemma ready_sim:
  "all_ready dsq (params_in cg s) qs s \<Longrightarrow>
   pool_sim dsq cg (params_in cg s) (set qs) (vtime_now s) pool_init s"
  unfolding all_ready_def pool_sim_def pool_init_def
  by (auto simp: sorted_replicate map_replicate_const intro!: exI [of _ qs])

lemma served_sim:
  assumes "served K dsq cpu s0 U n s" and K: "scx_contract K dsq cg"
    and start: "pool_sim dsq cg tp S b pool_init s0"
  shows "\<exists>P. k8s_pool tp S P \<and> pool_sim dsq cg tp S b P s \<and> pu P = U \<and> pn P = n"
  using assms(1)
proof induction
  case served_start
  have "pu pool_init = (\<lambda>_. 0)" "pn pool_init = (\<lambda>_. 0)" by (simp_all add: pool_init_def)
  then show ?case using start pool_start by blast
next
  case (served_step U n s p v rest used fl)
  then obtain P where P: "k8s_pool tp S P" "pool_sim dsq cg tp S b P s" "pu P = U" "pn P = n"
    by blast
  have bounds: "\<forall>q \<in> S. pclock P \<le> pv P q \<and> pv P q \<le> pclock P + 50000000000"
    using k8s_charge.clock_bounds [OF P(1) k8s_pool_rates] by simp
  let ?P = "pool_serve charge64 (\<lambda>q. eff_weight (tp q)) p (uint used) P"
  note st = sim_step [OF K P(2) bounds served_step.hyps(2,3), of cpu fl]
  have "k8s_pool tp S ?P"
    using st P(1) by (intro pool_step) (auto intro: uint_le_slice(1))
  moreover have "pu ?P = U(p := U p + uint used)" "pn ?P = n(p := Suc (n p))"
    using P(3,4) by (simp_all add: pool_serve_def)
  ultimately show ?case using st by blast
qed

subsection \<open>The properties of runs\<close>

text \<open>
  C3 (served_refines_pool). Rounds built from the scheduler's dispatch, running, stopping and
  enqueue callbacks, on wrapping 64-bit vtimes and for runs of any length, implement the weighted
  pool on unbounded integers: the times received and the numbers of services are those of a
  run of the pool, which always serves a task with the least vtime, and every vtime and the
  global clock are the pool's values modulo 2 to the 64.
\<close>

theorem served_refines_pool:
  assumes "scx_contract K dsq cg" and "all_ready dsq (params_in cg s0) qs s0"
    and "served K dsq cpu s0 U n s"
  shows "\<exists>P. k8s_pool (params_in cg s0) (set qs) P \<and> pu P = U \<and> pn P = n \<and>
    vtime_now s = vtime_now s0 + of_int (pclock P) \<and>
    (\<forall>q. q \<in> set qs \<longrightarrow> vtime_of (kst s) q = vtime_now s0 + of_int (pv P q))"
  using served_sim [OF assms(3,1) ready_sim [OF assms(2)]] unfolding pool_sim_def by blast

text \<open>For weights of any size, with the factor the scheduler uses for them.\<close>

lemma share_any_weight:
  assumes "scx_contract K dsq cg" and "all_ready dsq (params_in cg s0) qs s0"
    and "served K dsq cpu s0 U n s" and "p \<in> set qs" "q \<in> set qs" and "0 \<le> C"
    and "\<forall>r \<in> set qs. uint (vtime_charge (task_slice (params_in cg s0 r))
           (weight (params_in cg s0 r))) \<le> C"
  defines "w r \<equiv> eff_weight (params_in cg s0 r)"
  shows "10000 * U p * w q \<le> 10000 * U q * w p + w p * w q * (C + int (n p))"
proof -
  obtain P where P: "k8s_pool (params_in cg s0) (set qs) P" "pu P = U" "pn P = n"
    using served_sim [OF assms(3,1) ready_sim [OF assms(2)]] by blast
  have "\<forall>r \<in> set qs. uint (task_slice (params_in cg s0 r)) \<le> 5000000 \<and> 0 < w r \<and>
      w r \<le> 2 ^ 64 - 1 \<and> charge64 (uint (task_slice (params_in cg s0 r))) (w r) \<le> C"
    using k8s_pool_rates [of "set qs" "params_in cg s0"] assms(7)
    unfolding w_def vtime_charge_eff by blast
  from k8s_charge.share_bound [OF P(1)[folded w_def] assms(4,5) this assms(6)] show ?thesis
    unfolding P(2,3) .
qed

text \<open>The slack per service becomes a relative one when services take a while on average.\<close>

lemma absorb_rounding:
  fixes u u' w w' C m n :: int
  assumes "10000 * u * w' \<le> 10000 * u' * w + w * w' * (C + n)" "n * m \<le> u" "0 \<le> n" "0 \<le> m" "0 \<le> w" "w \<le> 10000" "0 \<le> w'"
  shows "10000 * (m - 1) * u * w' \<le> m * (10000 * u' * w + w * w' * C)"
proof -
  have "0 \<le> u" using mult_nonneg_nonneg [OF assms(3,4)] assms(2) by linarith
  have "m * (10000 * u * w') \<le> m * (10000 * u' * w + w * w' * (C + n))" by (rule mult_left_mono [OF assms(1,4)])
  also have "\<dots> = m * (10000 * u' * w + w * w' * C) + w * w' * (n * m)" by (simp add: algebra_simps)
  also have "w * w' * (n * m) \<le> w * w' * u" using assms(2,5,7) by (intro mult_left_mono) simp_all
  also have "w * w' * u \<le> 10000 * w' * u" using assms(6,7) \<open>0 \<le> u\<close> by (intro mult_right_mono) simp_all
  finally show ?thesis by (simp add: algebra_simps)
qed

text \<open>
  C1 (proportional_share). Over any such run of tasks whose weights are from 1 to 10000, as those written by the agent are, the CPU
  times of two waiting tasks stay proportional to their weights. Exactly: in units of 10000, \<open>U p / w p\<close> exceeds \<open>U q / w q\<close>
  by at most the largest charge \<open>C\<close> of one full slice, which does not grow with the run, plus one nanosecond of vtime for each of the \<open>n p\<close>
  services of \<open>p\<close>, the rounding of the division, which does. When the services of \<open>p\<close> last \<open>m\<close> nanoseconds on average, the
  rounding is at most a factor of \<open>m / (m - 1)\<close>, and what remains is the constant \<open>C\<close>: then \<open>q\<close> is not starved, since the
  time \<open>p\<close> receives is bounded by the time \<open>q\<close> receives.
\<close>

theorem proportional_share:
  assumes "scx_contract K dsq cg" and "all_ready dsq (params_in cg s0) qs s0"
    and "served K dsq cpu s0 U n s" and "p \<in> set qs" "q \<in> set qs" and "0 \<le> C"
    and "\<forall>r \<in> set qs. uint (vtime_charge (task_slice (params_in cg s0 r))
           (weight (params_in cg s0 r))) \<le> C"
    and "\<forall>r \<in> set qs. 1 \<le> uint (weight (params_in cg s0 r)) \<and> uint (weight (params_in cg s0 r)) \<le> 10000"
  defines "w r \<equiv> uint (weight (params_in cg s0 r))"
  shows "10000 * U p * w q \<le> 10000 * U q * w p + w p * w q * (C + int (n p)) \<and>
    (0 \<le> m \<and> int (n p) * m \<le> U p \<longrightarrow> 10000 * (m - 1) * U p * w q \<le> m * (10000 * U q * w p + w p * w q * C))"
proof -
  have "eff_weight (params_in cg s0 r) = w r" if "r \<in> set qs" for r
    using assms(8) that by (auto simp: w_def eff_weight_def)
  then have b: "10000 * U p * w q \<le> 10000 * U q * w p + w p * w q * (C + int (n p))"
    using share_any_weight [OF assms(1-7)] assms(4,5) by simp
  have "0 \<le> w p" "w p \<le> 10000" "0 \<le> w q" using assms(4,5,8) by (auto simp: w_def)
  with b absorb_rounding [OF b, of m] show ?thesis by simp
qed

text \<open>
  A concrete run: two processes in cgroups of their own, with weights 10000 and 5000 and budgets of
  3 ms and none, queued 5 ns before the clock wraps around.
\<close>

definition fair_start :: "ref_kern sched" where
  "fair_start = ref_sched
     \<lparr>kst := \<lparr>tasks = (\<lambda>p. \<lparr>tgid = of_nat p, scx = \<lparr>dsq_vtime = - 5,
                slice = (if p = 4 then 3000000 else 5000000)\<rparr>\<rparr>),
              kern = (kern ref_kstate)\<lparr>rk_dsqs := (\<lambda>d. if d = K8S_DSQ_ID then [(4, - 5), (5, - 5)] else [])\<rparr>\<rparr>,
      cgroup_params := [4 \<mapsto> \<lparr>weight = 10000, budget_ns = 3000000\<rparr>,
                        5 \<mapsto> \<lparr>weight = 5000, budget_ns = 0\<rparr>],
      vtime_now := - 5\<rparr>"

lemma pinned_scx: "scx_contract pinned_env rk_dsqs of_nat"
  using pinned_contracts by (simp add: scx_contract_def)

lemma fair_params:
  "params_in of_nat fair_start 4 = \<lparr>weight = 10000, budget_ns = 3000000\<rparr>"
  "params_in of_nat fair_start 5 = \<lparr>weight = 5000, budget_ns = 0\<rparr>"
  by (simp_all add: params_in_def effective_params_def fair_start_def ref_sched_def)

lemma fair_slices:
  "task_slice \<lparr>weight = w, budget_ns = 3000000\<rparr> = 3000000"
  "task_slice \<lparr>weight = w, budget_ns = 0\<rparr> = 5000000"
  by (simp_all add: task_slice_def DEFAULT_SLICE_NS_def)

lemma fair_ready: "all_ready rk_dsqs (params_in of_nat fair_start) [4, 5] fair_start"
  unfolding all_ready_def
  by (simp add: fair_params fair_slices) (simp add: fair_start_def)

lemma fair_served:
  "\<exists>s. served pinned_env rk_dsqs 0 fair_start ((\<lambda>_. 0)(4 := 2000000)) ((\<lambda>_. 0)(4 := 1)) s"
proof -
  have "rk_dsqs (kern (kst fair_start)) K8S_DSQ_ID = (4, - 5) # [(5, - 5)]"
      "2000000 \<le> slice_of (kst fair_start) 4"
    by (simp_all add: fair_start_def)
  note st = this
  have "served pinned_env rk_dsqs 0 fair_start (\<lambda>_. 0) (\<lambda>_. 0) fair_start"
    by (rule served_start)
  from served_step [of pinned_env rk_dsqs 0 fair_start, OF this st, of 0]
  have "served pinned_env rk_dsqs 0 fair_start ((\<lambda>_. 0)(4 := 2000000)) ((\<lambda>_. 0)(4 := 1))
      (serve_round pinned_env 0 4 2000000 0 fair_start)"
    by simp
  then show ?thesis by blast
qed

theorem served_refines_pool_witness:
  "\<exists>P. k8s_pool (params_in of_nat fair_start) {4, 5} P \<and> pu P 4 = 2000000 \<and> pn P 4 = 1"
proof -
  obtain s where "served pinned_env rk_dsqs 0 fair_start ((\<lambda>_. 0)(4 := 2000000)) ((\<lambda>_. 0)(4 := 1)) s"
    using fair_served by blast
  from served_refines_pool [OF pinned_scx fair_ready this] show ?thesis by auto
qed

theorem proportional_share_witness:
  "\<exists>U n s. served pinned_env rk_dsqs 0 fair_start U n s \<and> U 4 = 2000000 \<and>
     10000 * U 4 * 5000 \<le> 10000 * U 5 * 10000 + 10000 * 5000 * (10000000 + int (n 4)) \<and>
     10000 * 1999999 * U 4 * 5000 \<le> 2000000 * (10000 * U 5 * 10000 + 10000 * 5000 * 10000000)"
proof -
  obtain s where s: "served pinned_env rk_dsqs 0 fair_start ((\<lambda>_. 0)(4 := 2000000)) ((\<lambda>_. 0)(4 := 1)) s"
    using fair_served by blast
  have "\<forall>r \<in> set [4, 5]. uint (vtime_charge (task_slice (params_in of_nat fair_start r)) (weight (params_in of_nat fair_start r))) \<le> 10000000"
    "\<forall>r \<in> set [4, 5]. 1 \<le> uint (weight (params_in of_nat fair_start r)) \<and> uint (weight (params_in of_nat fair_start r)) \<le> 10000"
    by (simp_all add: fair_params fair_slices vtime_charge_def MAX_PRIO_WEIGHT_def)
  from proportional_share [OF pinned_scx fair_ready s _ _ _ this, of 4 5 2000000] have
    "10000 * ((\<lambda>_. 0)(4 := 2000000)) 4 * 5000 \<le> 10000 * ((\<lambda>_. 0)(4 := 2000000)) (5 :: nat) * 10000 +
       10000 * 5000 * (10000000 + int (((\<lambda>_. 0)(4 := 1)) (4 :: nat)))"
    "10000 * 1999999 * ((\<lambda>_. 0 :: int)(4 := 2000000)) (4 :: nat) * 5000 \<le> 2000000 * (10000 * ((\<lambda>_. 0)(4 := 2000000)) (5 :: nat) * 10000 + 10000 * 5000 * 10000000)"
    by (simp_all add: fair_params)
  with s show ?thesis by (intro exI conjI) (assumption | simp)+
qed

end
