(* ===== verification/Waiting.thy ===== *)
theory Waiting
  imports Fairness
begin

text \<open>
  Waiting on any number of CPUs. Tasks sleep and wake up, are queued by virtual time or put on an idle
  CPU directly, run and stop, in any interleaving, while the agent rewrites the parameters. The
  callbacks of \<^verbatim>\<open>bpf/k8s_sched.bpf.c\<close> are called as the life cycle of a task in sched\_ext prescribes.
  Shown are how far a virtual time can be ahead of the clock, and that no waiting task is starved.
\<close>

subsection \<open>Life cycle\<close>

text \<open>Where a task is: not runnable or just stopped, in the queue of the scheduler, in the local queue of a CPU, on a CPU.\<close>

datatype place = Off | Queued | Local | OnCpu

text \<open>
  \<open>smp K dsq T d pl0 s0 D n pl s\<close>: from \<open>s0\<close> with the tasks of \<open>T\<close> at \<open>pl0\<close> a sequence of steps leads to
  \<open>s\<close> and \<open>pl\<close>, in which task \<open>q\<close> was taken from the queue \<open>D q\<close> times, tasks left a CPU \<open>n\<close> times in all, and each
  time were charged at least \<open>d\<close>. The kernel may put a task into a local queue without a callback, as it
  does with one that goes on running.
\<close>

inductive smp ::
    "'k scx_env \<Rightarrow> ('k \<Rightarrow> u64 \<Rightarrow> (task_ref \<times> u64) list) \<Rightarrow> task_ref set \<Rightarrow> int \<Rightarrow> (task_ref \<Rightarrow> place) \<Rightarrow> 'k sched
     \<Rightarrow> (task_ref \<Rightarrow> nat) \<Rightarrow> nat \<Rightarrow> (task_ref \<Rightarrow> place) \<Rightarrow> 'k sched \<Rightarrow> bool"
  for K dsq T d pl0 s0 where
  smp_start: "smp K dsq T d pl0 s0 (\<lambda>_. 0) 0 pl0 s0"
| smp_enqueue: "smp K dsq T d pl0 s0 D n pl s \<Longrightarrow> p \<in> T \<Longrightarrow> pl p = Off \<Longrightarrow>
     smp K dsq T d pl0 s0 D n (pl(p := Queued)) (op_enqueue (k8s_sched K) cpu p fl s)"
| smp_select: "smp K dsq T d pl0 s0 D n pl s \<Longrightarrow> p \<in> T \<Longrightarrow> pl p = Off \<Longrightarrow>
     smp K dsq T d pl0 s0 D n
       (pl(p := if snd (fst (scx_bpf_select_cpu_dfl K p prev fl False (kst s))) then Local else Off))
       (snd (op_select_cpu (k8s_sched K) cpu p prev fl s))"
| smp_local: "smp K dsq T d pl0 s0 D n pl s \<Longrightarrow> p \<in> T \<Longrightarrow> pl p = Off \<Longrightarrow>
     smp K dsq T d pl0 s0 D n (pl(p := Local)) s"
| smp_dispatch: "smp K dsq T d pl0 s0 D n pl s \<Longrightarrow> dsq (kern (kst s)) K8S_DSQ_ID = (p, v) # rest \<Longrightarrow>
     smp K dsq T d pl0 s0 (D(p := Suc (D p))) n (pl(p := Local)) (op_dispatch (k8s_sched K) cpu prev s)"
| smp_idle: "smp K dsq T d pl0 s0 D n pl s \<Longrightarrow> dsq (kern (kst s)) K8S_DSQ_ID = [] \<Longrightarrow>
     smp K dsq T d pl0 s0 D n pl (op_dispatch (k8s_sched K) cpu prev s)"
| smp_running: "smp K dsq T d pl0 s0 D n pl s \<Longrightarrow> p \<in> T \<Longrightarrow> pl p = Local \<Longrightarrow>
     smp K dsq T d pl0 s0 D n (pl(p := OnCpu)) (op_running (k8s_sched K) p s)"
| smp_use: "smp K dsq T d pl0 s0 D n pl s \<Longrightarrow> p \<in> T \<Longrightarrow> pl p = OnCpu \<Longrightarrow>
     smp K dsq T d pl0 s0 D n pl (s\<lparr>kst := set_slice p sl (kst s)\<rparr>)"
| smp_stopping: "smp K dsq T d pl0 s0 D n pl s \<Longrightarrow> p \<in> T \<Longrightarrow> pl p = OnCpu \<Longrightarrow>
     d \<le> uint (vtime_of (kst (op_stopping (k8s_sched K) p r s)) p - vtime_of (kst s) p) \<Longrightarrow>
     smp K dsq T d pl0 s0 D (Suc n) (pl(p := Off)) (op_stopping (k8s_sched K) p r s)"
| smp_agent: "smp K dsq T d pl0 s0 D n pl s \<Longrightarrow>
     smp K dsq T d pl0 s0 D n pl (s\<lparr>cgroup_params := cm, task_params := tm\<rparr>)"

text \<open>
  What is relied on of the kernel beyond \<open>scx_contract\<close>: choosing a CPU and inserting into a local queue
  change neither virtual times nor the queues of the scheduler.
\<close>

definition local_contract :: "'k scx_env \<Rightarrow> ('k \<Rightarrow> u64 \<Rightarrow> (task_ref \<times> u64) list) \<Rightarrow> bool" where
  "local_contract K dsq \<longleftrightarrow>
     (\<forall>p prev fl b k. tasks (snd (scx_bpf_select_cpu_dfl K p prev fl b k)) = tasks k \<and>
        dsq (kern (snd (scx_bpf_select_cpu_dfl K p prev fl b k))) = dsq (kern k)) \<and>
     (\<forall>p sl fl k. tasks (scx_dsq_insert K p SCX_DSQ_LOCAL sl fl k) = tasks (set_slice p sl k) \<and>
        dsq (kern (scx_dsq_insert K p SCX_DSQ_LOCAL sl fl k)) = dsq (kern k))"

subsection \<open>Virtual times as integers\<close>

definition wait_sim ::
    "('k \<Rightarrow> u64 \<Rightarrow> (task_ref \<times> u64) list) \<Rightarrow> task_ref set \<Rightarrow> u64 \<Rightarrow> (task_ref \<Rightarrow> int) \<Rightarrow> int
     \<Rightarrow> (task_ref \<Rightarrow> place) \<Rightarrow> 'k sched \<Rightarrow> bool" where
  "wait_sim dsq T b V c pl s \<longleftrightarrow>
     (\<forall>q \<in> T. vtime_of (kst s) q = b + of_int (V q)) \<and> vtime_now s = b + of_int c \<and>
     (\<exists>xs. dsq (kern (kst s)) K8S_DSQ_ID = map (\<lambda>q. (q, b + of_int (V q))) xs \<and> distinct xs \<and>
        set xs = {q \<in> T. pl q = Queued} \<and> sorted (map V xs))"

text \<open>All values lie between \<open>- lo\<close> and \<open>hi\<close>, which are less than half of the clock apart.\<close>

definition wait_range :: "task_ref set \<Rightarrow> int \<Rightarrow> int \<Rightarrow> (task_ref \<Rightarrow> int) \<Rightarrow> int \<Rightarrow> bool" where
  "wait_range T lo hi V c \<longleftrightarrow> (\<forall>q \<in> T. - lo \<le> V q \<and> V q \<le> hi) \<and> 5000000 - lo \<le> c \<and> c \<le> hi \<and> hi + lo < 2 ^ 63"

lemma wait_sim_cong:
  assumes "wait_sim dsq T b V c pl s" "\<forall>q. vtime_of (kst s') q = vtime_of (kst s) q" "vtime_now s' = vtime_now s"
    and "dsq (kern (kst s')) = dsq (kern (kst s))" "\<forall>q. pl' q = Queued \<longleftrightarrow> pl q = Queued"
  shows "wait_sim dsq T b V c pl' s'"
  using assms by (simp add: wait_sim_def)

lemma sim_enqueue:
  assumes K: "scx_contract K dsq cg" and sim: "wait_sim dsq T b V c pl s" and p: "p \<in> T" "pl p = Off"
    and range: "wait_range T lo hi V c"
  shows "wait_sim dsq T b (V(p := max (V p) (c - 5000000))) c (pl(p := Queued)) (k8s_enqueue K cpu p fl s)"
proof -
  let ?x = "max (V p) (c - 5000000)"
  obtain xs where xs: "dsq (kern (kst s)) K8S_DSQ_ID = map (\<lambda>q. (q, b + of_int (V q))) xs" "distinct xs"
      "set xs = {q \<in> T. pl q = Queued}" "sorted (map V xs)"
    and vt: "\<forall>q \<in> T. vtime_of (kst s) q = b + of_int (V q)" and now: "vtime_now s = b + of_int c"
    using sim by (auto simp: wait_sim_def)
  have r: "- lo \<le> V p" "V p \<le> hi" "5000000 - lo \<le> c" "c \<le> hi" "hi + lo < 2 ^ 63"
    using range p(1) by (auto simp: wait_range_def)
  have "vtime_of (kst s) p = (b + of_int c) + of_int (V p - c)" using vt p(1) by simp
  then have "clamp_vtime (vtime_now s) (vtime_of (kst s) p) = clamp_vtime (b + of_int c) ((b + of_int c) + of_int (V p - c))"
    by (simp only: now)
  also have "\<dots> = (b + of_int c) + of_int (max (V p - c) (- 5000000))"
    by (rule clamp_vtime_offset) (use r in linarith)+
  also have "\<dots> = b + of_int (c + max (V p - c) (- 5000000))" by (simp only: of_int_add add.assoc)
  also have "c + max (V p - c) (- 5000000) = ?x" by (simp add: max_def)
  finally have v: "clamp_vtime (vtime_now s) (vtime_of (kst s) p) = b + of_int ?x" .
  note eff = enqueue_effect [OF K, of cpu p fl s, unfolded v]
  have "\<bar>?x - V q\<bar> < 2 ^ 63" if "q \<in> set xs" for q
  proof -
    have "q \<in> T" using that xs(3) by auto
    then have "- lo \<le> V q" "V q \<le> hi" using range by (auto simp: wait_range_def)
    moreover have "- lo \<le> ?x" "?x \<le> hi" using r by (auto simp: max_def)
    ultimately show ?thesis using r(5) by linarith
  qed
  then have "\<exists>ys. dsq_file (p, b + of_int ?x) (map (\<lambda>q. (q, b + of_int (V q))) xs) =
      map (\<lambda>q. (q, b + of_int ((V(p := ?x)) q))) ys \<and> set ys = insert p (set xs) \<and> distinct ys \<and>
      sorted (map (V(p := ?x)) ys)"
    by (intro dsq_file_sorted) (use xs p in auto)
  moreover have "insert p (set xs) = {q \<in> T. (pl(p := Queued)) q = Queued}" using xs(3) p by auto
  ultimately show ?thesis
    using eff vt now xs(1) unfolding wait_sim_def by (auto simp del: fun_upd_apply) (auto simp: set_vtime_def set_slice_def)
qed

lemma sim_dispatch:
  assumes K: "scx_contract K dsq cg" and sim: "wait_sim dsq T b V c pl s"
    and hd: "dsq (kern (kst s)) K8S_DSQ_ID = (p, v) # rest"
  shows "p \<in> T \<and> pl p = Queued \<and> (\<forall>q \<in> T. pl q = Queued \<longrightarrow> V p \<le> V q) \<and>
    wait_sim dsq T b V c (pl(p := Local)) (k8s_dispatch K cpu prev s)"
proof -
  obtain xs where xs: "dsq (kern (kst s)) K8S_DSQ_ID = map (\<lambda>q. (q, b + of_int (V q))) (p # xs)"
      "distinct (p # xs)" "set (p # xs) = {q \<in> T. pl q = Queued}" "sorted (map V (p # xs))"
    using sim hd unfolding wait_sim_def by auto
  have p: "p \<in> T" "pl p = Queued" using xs(3) by auto
  have "q \<in> set (p # xs)" if "q \<in> T" "pl q = Queued" for q using that xs(3) by blast
  then have least: "\<forall>q \<in> T. pl q = Queued \<longrightarrow> V p \<le> V q" using xs(4) by fastforce
  have "{q \<in> T. (pl(p := Local)) q = Queued} = set (p # xs) - {p}" using xs(3) by auto
  then have "set xs = {q \<in> T. (pl(p := Local)) q = Queued}" using xs(2) by auto
  then show ?thesis
    using sim xs p least dispatch_effect [OF K, of cpu prev s] unfolding wait_sim_def by auto
qed

lemma sim_running:
  assumes "wait_sim dsq T b V c pl s" "p \<in> T" "pl p = Local" "wait_range T lo hi V c"
  shows "wait_sim dsq T b V (max c (V p)) (pl(p := OnCpu)) (k8s_running p s)"
proof -
  have "vtime_of (kst s) p = b + of_int (V p)" "vtime_now s = b + of_int c"
    using assms(1,2) by (auto simp: wait_sim_def)
  moreover have "vtime_before (b + of_int c) (b + of_int (V p)) \<longleftrightarrow> c < V p"
    by (rule vtime_before_offset) (use assms(2,4) in \<open>auto simp: wait_range_def\<close>)
  ultimately have "vtime_now (k8s_running p s) = b + of_int (max c (V p))"
    by (auto simp: k8s_running_def max_def)
  moreover have "{q \<in> T. (pl(p := OnCpu)) q = Queued} = {q \<in> T. pl q = Queued}" using assms(3) by auto
  ultimately show ?thesis using assms(1) by (simp add: wait_sim_def)
qed

text \<open>The charge of one stop, as an integer.\<close>

definition stop_charge :: "(task_ref \<Rightarrow> u64) \<Rightarrow> 'k sched \<Rightarrow> task_ref \<Rightarrow> int" where
  "stop_charge cg s p = uint (vtime_charge (used_slice (task_slice (params_in cg s p)) (slice_of (kst s) p))
     (weight (params_in cg s p)))"

lemma stop_charge_range: "0 \<le> stop_charge cg s p" "stop_charge cg s p \<le> 50000000000"
proof -
  let ?tp = "params_in cg s p"
  let ?u = "used_slice (task_slice ?tp) (slice_of (kst s) p)"
  have "0 \<le> uint ?u" "uint ?u \<le> 5000000"
    using spec_used_bounds [of "uint (slice_of (kst s) p)" "uint (task_slice ?tp)"] task_slice_bounds [of ?tp]
    by (simp_all add: uint_used_slice)
  then show "0 \<le> stop_charge cg s p" "stop_charge cg s p \<le> 50000000000"
    using spec_charge_le [of "uint ?u" "uint (weight ?tp)"] by (simp add: stop_charge_def, simp add: stop_charge_def uint_vtime_charge)
qed

lemma sim_stopping:
  assumes K: "scx_contract K dsq cg" and sim: "wait_sim dsq T b V c pl s" and p: "p \<in> T" "pl p = OnCpu"
  shows "uint (vtime_of (kst (k8s_stopping K p r s)) p - vtime_of (kst s) p) = stop_charge cg s p"
    and "wait_sim dsq T b (V(p := V p + stop_charge cg s p)) c (pl(p := Off)) (k8s_stopping K p r s)"
proof -
  let ?w = "vtime_charge (used_slice (task_slice (params_in cg s p)) (slice_of (kst s) p)) (weight (params_in cg s p))"
  note eff = stopping_effect [OF K, of p r s]
  have w: "?w = of_int (stop_charge cg s p)" by (simp add: stop_charge_def)
  have vt: "vtime_of (kst (k8s_stopping K p r s)) q = (if q = p then vtime_of (kst s) p + ?w else vtime_of (kst s) q)" for q
    by (simp add: eff(1) set_vtime_def)
  then show "uint (vtime_of (kst (k8s_stopping K p r s)) p - vtime_of (kst s) p) = stop_charge cg s p"
    by (simp add: stop_charge_def)
  obtain xs where xs: "dsq (kern (kst s)) K8S_DSQ_ID = map (\<lambda>q. (q, b + of_int (V q))) xs" "distinct xs"
      "set xs = {q \<in> T. pl q = Queued}" "sorted (map V xs)"
    using sim by (auto simp: wait_sim_def)
  have np: "p \<notin> set xs" using xs(3) p by auto
  let ?V = "V(p := V p + stop_charge cg s p)"
  have m: "map ?V xs = map V xs" "map (\<lambda>q. (q, b + of_int (?V q))) xs = map (\<lambda>q. (q, b + of_int (V q))) xs"
    using np by (auto intro!: map_cong)
  have st: "{q \<in> T. (pl(p := Off)) q = Queued} = {q \<in> T. pl q = Queued}" using p by auto
  have "dsq (kern (kst (k8s_stopping K p r s))) K8S_DSQ_ID = map (\<lambda>q. (q, b + of_int (?V q))) xs \<and> distinct xs \<and>
      set xs = {q \<in> T. (pl(p := Off)) q = Queued} \<and> sorted (map ?V xs)"
    unfolding m st eff(2) using xs by blast
  moreover have "\<forall>q \<in> T. vtime_of (kst (k8s_stopping K p r s)) q = b + of_int (?V q)"
    using sim p(1) vt w by (simp add: wait_sim_def)
  moreover have "vtime_now (k8s_stopping K p r s) = b + of_int c" using sim by (simp add: wait_sim_def)
  ultimately show "wait_sim dsq T b ?V c (pl(p := Off)) (k8s_stopping K p r s)"
    unfolding wait_sim_def by blast
qed

lemma select_cpu_kernel:
  assumes "scx_contract K dsq cg" "local_contract K dsq"
  shows "vtime_of (kst (snd (k8s_select_cpu K cpu p prev fl s))) q = vtime_of (kst s) q"
    and "dsq (kern (kst (snd (k8s_select_cpu K cpu p prev fl s)))) = dsq (kern (kst s))"
proof -
  have c: "cgroup_query_contract K" "stable_cgroup_contract K cg dsq" using assms(1) by (simp_all add: scx_contract_def)
  show "vtime_of (kst (snd (k8s_select_cpu K cpu p prev fl s))) q = vtime_of (kst s) q"
    using assms(2) c by (simp add: k8s_select_cpu_def local_contract_def Let_def case_prod_unfold set_slice_def split: option.splits)
  show "dsq (kern (kst (snd (k8s_select_cpu K cpu p prev fl s)))) = dsq (kern (kst s))"
    using assms(2) lookup_dsq [OF c(2)]
    by (simp add: k8s_select_cpu_def local_contract_def Let_def case_prod_unfold split: option.splits)
qed

subsection \<open>What holds in every run\<close>

text \<open>A task that has been taken from the queue and has not stopped yet counts as busy.\<close>

definition busy :: "(task_ref \<Rightarrow> place) \<Rightarrow> task_ref \<Rightarrow> int" where
  "busy pl q = (if pl q = Local \<or> pl q = OnCpu then 1 else 0)"

text \<open>No virtual time is more than the largest charge ahead of the clock, and that of a running task is not ahead.\<close>

definition lead_ok :: "task_ref set \<Rightarrow> (task_ref \<Rightarrow> int) \<Rightarrow> int \<Rightarrow> (task_ref \<Rightarrow> place) \<Rightarrow> bool" where
  "lead_ok T V c pl \<longleftrightarrow> (\<forall>q \<in> T. V q \<le> c + 50000000000 \<and> (pl q = OnCpu \<longrightarrow> V q \<le> c))"

definition range_ok :: "task_ref set \<Rightarrow> int \<Rightarrow> nat \<Rightarrow> (task_ref \<Rightarrow> int) \<Rightarrow> int \<Rightarrow> bool" where
  "range_ok T B n V c \<longleftrightarrow> (\<forall>q \<in> T. - B - 5000000 \<le> V q \<and> V q \<le> B + int n * 50000000000) \<and>
     - B \<le> c \<and> c \<le> B + int n * 50000000000"

text \<open>Every completed service of a task has moved its virtual time by at least \<open>d\<close>.\<close>

definition progress_ok :: "task_ref set \<Rightarrow> int \<Rightarrow> (task_ref \<Rightarrow> int) \<Rightarrow> (task_ref \<Rightarrow> nat) \<Rightarrow> (task_ref \<Rightarrow> place) \<Rightarrow> (task_ref \<Rightarrow> int) \<Rightarrow> bool" where
  "progress_ok T d V0 D pl V \<longleftrightarrow> (\<forall>q \<in> T. V0 q + d * (int (D q) - busy pl q) \<le> V q)"

text \<open>While \<open>p\<close> waits, another task is taken from the queue only as long as its virtual time is not beyond that of \<open>p\<close>.\<close>

definition bypass_ok :: "task_ref set \<Rightarrow> int \<Rightarrow> (task_ref \<Rightarrow> int) \<Rightarrow> (task_ref \<Rightarrow> nat) \<Rightarrow> (task_ref \<Rightarrow> place) \<Rightarrow> (task_ref \<Rightarrow> int) \<Rightarrow> task_ref \<Rightarrow> bool" where
  "bypass_ok T d V0 D pl V p \<longleftrightarrow> D p = 0 \<longrightarrow> pl p = Queued \<and> V p = V0 p \<and>
     (\<forall>q \<in> T. 0 < D q \<longrightarrow> V0 q + d * (int (D q) - 1) \<le> V0 p)"

lemma range_wait:
  assumes "range_ok T B n V c" "B + int n * 50000000000 + 5000000 \<le> 2 ^ 62" "0 \<le> B"
  shows "wait_range T (B + 5000000) (B + int n * 50000000000) V c"
  using assms by (auto simp: range_ok_def wait_range_def)

lemma range_step:
  assumes "range_ok T B n V c" "p \<in> T"
  shows "range_ok T B n (V(p := max (V p) (c - 5000000))) c"
    and "range_ok T B n V (max c (V p))"
    and "0 \<le> x \<Longrightarrow> x \<le> 50000000000 \<Longrightarrow> range_ok T B (Suc n) (V(p := V p + x)) c"
  using assms by (auto simp: range_ok_def max_def distrib_right)

lemma lead_step:
  assumes "lead_ok T V c pl" "p \<in> T"
  shows "lead_ok T (V(p := max (V p) (c - 5000000))) c (pl(p := Queued))"
    and "lead_ok T V (max c (V p)) (pl(p := OnCpu))"
    and "pl p = OnCpu \<Longrightarrow> x \<le> 50000000000 \<Longrightarrow> lead_ok T (V(p := V p + x)) c (pl(p := Off))"
    and "pl' = Off \<or> pl' = Local \<Longrightarrow> lead_ok T V c (pl(p := pl'))"
  using assms by (auto simp: lead_ok_def max_def)

lemma progress_step:
  assumes "progress_ok T d V0 D pl V" "p \<in> T" "0 \<le> d"
  shows "pl p = Off \<Longrightarrow> progress_ok T d V0 D (pl(p := Queued)) (V(p := max (V p) x))"
    and "pl p = Local \<Longrightarrow> progress_ok T d V0 D (pl(p := OnCpu)) V"
    and "pl p = OnCpu \<Longrightarrow> d \<le> x \<Longrightarrow> progress_ok T d V0 D (pl(p := Off)) (V(p := V p + x))"
    and "pl p = Off \<Longrightarrow> pl' = Off \<or> pl' = Local \<Longrightarrow> progress_ok T d V0 D (pl(p := pl')) V"
    and "pl p = Queued \<Longrightarrow> progress_ok T d V0 (D(p := Suc (D p))) (pl(p := Local)) V"
  using assms by (auto simp: progress_ok_def busy_def algebra_simps intro: order_trans [OF _ max.cobounded1])

lemma bypass_step:
  assumes "bypass_ok T d V0 D pl V q"
  shows "pl p \<noteq> Queued \<Longrightarrow> bypass_ok T d V0 D (pl(p := pl')) (V(p := x)) q"
    and "pl p \<noteq> Queued \<Longrightarrow> bypass_ok T d V0 D (pl(p := pl')) V q"
  using assms by (auto simp: bypass_ok_def)

lemma bypass_dispatch:
  assumes "bypass_ok T d V0 D pl V q" "progress_ok T d V0 D pl V" "p \<in> T" "q \<in> T" "pl p = Queued"
    and "\<forall>r \<in> T. pl r = Queued \<longrightarrow> V p \<le> V r"
  shows "bypass_ok T d V0 (D(p := Suc (D p))) (pl(p := Local)) V q"
proof (cases "p = q")
  case False
  have "V0 p + d * int (D p) \<le> V p" using assms(2,3,5) by (auto simp: progress_ok_def busy_def)
  moreover have "V p \<le> V0 q" if "D q = 0" using assms(1,4,6) that by (auto simp: bypass_ok_def)
  ultimately show ?thesis using assms(1) False by (auto simp: bypass_ok_def)
qed (simp add: bypass_ok_def)

definition wait_inv ::
    "task_ref set \<Rightarrow> int \<Rightarrow> int \<Rightarrow> (task_ref \<Rightarrow> int) \<Rightarrow> (task_ref \<Rightarrow> place) \<Rightarrow> (task_ref \<Rightarrow> nat) \<Rightarrow> nat
     \<Rightarrow> (task_ref \<Rightarrow> place) \<Rightarrow> (task_ref \<Rightarrow> int) \<Rightarrow> int \<Rightarrow> bool" where
  "wait_inv T d B V0 pl0 D n pl V c \<longleftrightarrow> range_ok T B n V c \<and> progress_ok T d V0 D pl V \<and>
     (\<forall>p \<in> T. pl0 p = Queued \<longrightarrow> bypass_ok T d V0 D pl V p) \<and> (lead_ok T V0 0 pl0 \<longrightarrow> lead_ok T V c pl)"

lemma inv_start:
  assumes "\<forall>q \<in> T. \<bar>V0 q\<bar> \<le> B" "0 \<le> B" "0 \<le> d"
  shows "wait_inv T d B V0 pl0 (\<lambda>_. 0) 0 pl0 V0 0"
  using assms by (auto simp: wait_inv_def range_ok_def progress_ok_def bypass_ok_def busy_def)

lemma inv_step:
  assumes "wait_inv T d B V0 pl0 D n pl V c" "p \<in> T" "0 \<le> d"
  shows "pl p = Off \<Longrightarrow> wait_inv T d B V0 pl0 D n (pl(p := Queued)) (V(p := max (V p) (c - 5000000))) c"
    and "pl p = Off \<Longrightarrow> pl' = Off \<or> pl' = Local \<Longrightarrow> wait_inv T d B V0 pl0 D n (pl(p := pl')) V c"
    and "pl p = Local \<Longrightarrow> wait_inv T d B V0 pl0 D n (pl(p := OnCpu)) V (max c (V p))"
    and "pl p = OnCpu \<Longrightarrow> 0 \<le> x \<Longrightarrow> x \<le> 50000000000 \<Longrightarrow> d \<le> x \<Longrightarrow>
      wait_inv T d B V0 pl0 D (Suc n) (pl(p := Off)) (V(p := V p + x)) c"
    and "pl p = Queued \<Longrightarrow> \<forall>r \<in> T. pl r = Queued \<longrightarrow> V p \<le> V r \<Longrightarrow>
      wait_inv T d B V0 pl0 (D(p := Suc (D p))) n (pl(p := Local)) V c"
  using assms(1) range_step [of T B n V c p] lead_step [of T V c pl p] progress_step [of T d V0 D pl V p] bypass_step
    bypass_dispatch [of T d V0 D pl V _ p] assms(2,3)
  unfolding wait_inv_def by (simp_all (no_asm_simp))

text \<open>The state corresponds to integers with these properties.\<close>

definition wait_good ::
    "('k \<Rightarrow> u64 \<Rightarrow> (task_ref \<times> u64) list) \<Rightarrow> task_ref set \<Rightarrow> u64 \<Rightarrow> int \<Rightarrow> int \<Rightarrow> (task_ref \<Rightarrow> int) \<Rightarrow> (task_ref \<Rightarrow> place)
     \<Rightarrow> (task_ref \<Rightarrow> nat) \<Rightarrow> nat \<Rightarrow> (task_ref \<Rightarrow> place) \<Rightarrow> 'k sched \<Rightarrow> bool" where
  "wait_good dsq T b d B V0 pl0 D n pl s \<longleftrightarrow>
     (\<exists>V c. wait_sim dsq T b V c pl s \<and> wait_inv T d B V0 pl0 D n pl V c)"

lemma good_range:
  assumes "wait_inv T d B V0 pl0 D n pl V c" "0 \<le> B" "B + int n * 50000000000 + 5000000 \<le> 2 ^ 62"
  shows "wait_range T (B + 5000000) (B + int n * 50000000000) V c"
  using assms by (intro range_wait) (auto simp: wait_inv_def)

lemma good_cong:
  assumes "wait_good dsq T b d B V0 pl0 D n pl s" "\<forall>q. vtime_of (kst s') q = vtime_of (kst s) q"
    and "vtime_now s' = vtime_now s" "dsq (kern (kst s')) = dsq (kern (kst s))"
  shows "wait_good dsq T b d B V0 pl0 D n pl s'"
  using assms wait_sim_cong unfolding wait_good_def by blast

lemma good_place:
  assumes "wait_good dsq T b d B V0 pl0 D n pl s" "p \<in> T" "0 \<le> d" "pl p = Off" "pl' = Off \<or> pl' = Local"
  shows "wait_good dsq T b d B V0 pl0 D n (pl(p := pl')) s"
proof -
  obtain V c where V: "wait_sim dsq T b V c pl s" "wait_inv T d B V0 pl0 D n pl V c"
    using assms(1) by (auto simp: wait_good_def)
  have "wait_sim dsq T b V c (pl(p := pl')) s" by (rule wait_sim_cong [OF V(1)]) (use assms(4,5) in auto)
  with inv_step(2) [OF V(2) assms(2-5)] show ?thesis unfolding wait_good_def by blast
qed

lemma good_enqueue:
  assumes "wait_good dsq T b d B V0 pl0 D n pl s" "p \<in> T" "0 \<le> d" "pl p = Off" "scx_contract K dsq cg"
    and "0 \<le> B" "B + int n * 50000000000 + 5000000 \<le> 2 ^ 62"
  shows "wait_good dsq T b d B V0 pl0 D n (pl(p := Queued)) (k8s_enqueue K cpu p fl s)"
proof -
  obtain V c where V: "wait_sim dsq T b V c pl s" "wait_inv T d B V0 pl0 D n pl V c"
    using assms(1) by (auto simp: wait_good_def)
  from sim_enqueue [OF assms(5) V(1) assms(2,4) good_range [OF V(2) assms(6,7)], of cpu fl]
    inv_step(1) [OF V(2) assms(2-4)] show ?thesis unfolding wait_good_def by blast
qed

lemma good_running:
  assumes "wait_good dsq T b d B V0 pl0 D n pl s" "p \<in> T" "0 \<le> d" "pl p = Local"
    and "0 \<le> B" "B + int n * 50000000000 + 5000000 \<le> 2 ^ 62"
  shows "wait_good dsq T b d B V0 pl0 D n (pl(p := OnCpu)) (k8s_running p s)"
proof -
  obtain V c where V: "wait_sim dsq T b V c pl s" "wait_inv T d B V0 pl0 D n pl V c"
    using assms(1) by (auto simp: wait_good_def)
  from sim_running [OF V(1) assms(2,4) good_range [OF V(2) assms(5,6)]] inv_step(3) [OF V(2) assms(2-4)]
  show ?thesis unfolding wait_good_def by blast
qed

lemma good_dispatch:
  assumes "wait_good dsq T b d B V0 pl0 D n pl s" "0 \<le> d" "scx_contract K dsq cg"
    and "dsq (kern (kst s)) K8S_DSQ_ID = (p, v) # rest"
  shows "wait_good dsq T b d B V0 pl0 (D(p := Suc (D p))) n (pl(p := Local)) (k8s_dispatch K cpu prev s)"
proof -
  obtain V c where V: "wait_sim dsq T b V c pl s" "wait_inv T d B V0 pl0 D n pl V c"
    using assms(1) by (auto simp: wait_good_def)
  from sim_dispatch [OF assms(3) V(1) assms(4), of cpu prev] inv_step(5) [OF V(2) _ assms(2)]
  show ?thesis unfolding wait_good_def by blast
qed

lemma good_stopping:
  assumes "wait_good dsq T b d B V0 pl0 D n pl s" "p \<in> T" "0 \<le> d" "pl p = OnCpu" "scx_contract K dsq cg"
    and "d \<le> uint (vtime_of (kst (k8s_stopping K p r s)) p - vtime_of (kst s) p)"
  shows "wait_good dsq T b d B V0 pl0 D (Suc n) (pl(p := Off)) (k8s_stopping K p r s)"
proof -
  obtain V c where V: "wait_sim dsq T b V c pl s" "wait_inv T d B V0 pl0 D n pl V c"
    using assms(1) by (auto simp: wait_good_def)
  note st = sim_stopping [OF assms(5) V(1) assms(2,4), of r]
  from inv_step(4) [OF V(2) assms(2-4) stop_charge_range [of cg s p]] st assms(6)
  show ?thesis unfolding wait_good_def st(1) by blast
qed

lemma smp_good:
  assumes "smp K dsq T d pl0 s0 D n pl s" and K: "scx_contract K dsq cg" "local_contract K dsq" and d: "0 \<le> d"
    and B: "0 \<le> B" "\<forall>q \<in> T. \<bar>V0 q\<bar> \<le> B" and start: "wait_sim dsq T b V0 0 pl0 s0"
  shows "B + int n * 50000000000 + 5000000 \<le> 2 ^ 62 \<Longrightarrow> wait_good dsq T b d B V0 pl0 D n pl s"
  using assms(1)
proof induction
  case smp_start
  then show ?case using start inv_start [OF B(2,1) d] unfolding wait_good_def by blast
next
  case smp_enqueue
  then show ?case unfolding k8s_sched_sel by (intro good_enqueue [OF _ _ d _ K(1) B(1)]) simp_all
next
  case (smp_select D n pl s p prev fl cpu)
  let ?pl = "if snd (fst (scx_bpf_select_cpu_dfl K p prev fl False (kst s))) then Local else Off"
  have "wait_good dsq T b d B V0 pl0 D n (pl(p := ?pl)) s" using smp_select by (intro good_place [OF _ _ d]) simp_all
  then show ?case by (rule good_cong) (simp_all add: select_cpu_kernel [OF K])
next
  case smp_local
  then show ?case using good_place [OF _ _ d] by blast
next
  case smp_dispatch
  then show ?case unfolding k8s_sched_sel by (intro good_dispatch [OF _ d K(1)])
next
  case (smp_idle D n pl s cpu prev)
  have "(dsq (kern (kst s)))(K8S_DSQ_ID := []) = dsq (kern (kst s))" using smp_idle.hyps(2) by (simp add: fun_upd_idem)
  with smp_idle show ?case
    using good_cong [of dsq T b d B V0 pl0 D n pl s "k8s_dispatch K cpu prev s"] dispatch_effect [OF K(1), of cpu prev s] by simp
next
  case smp_running
  then show ?case unfolding k8s_sched_sel by (intro good_running [OF _ _ d _ B(1)]) simp_all
next
  case (smp_use D n pl s p sl)
  then show ?case using good_cong [of dsq T b d B V0 pl0 D n pl s "s\<lparr>kst := set_slice p sl (kst s)\<rparr>"] by simp
next
  case smp_stopping
  then show ?case unfolding k8s_sched_sel by (intro good_stopping [OF _ _ d _ K(1)]) simp_all
next
  case (smp_agent D n pl s tm cm)
  then show ?case using good_cong [of dsq T b d B V0 pl0 D n pl s "s\<lparr>cgroup_params := cm, task_params := tm\<rparr>"] by simp
qed

subsection \<open>No starvation\<close>

text \<open>The lag of a task: its virtual time relative to the clock, as a signed distance.\<close>

definition lag :: "'k sched \<Rightarrow> task_ref \<Rightarrow> int" where
  "lag s q = sint (vtime_of (kst s) q - vtime_now s)"

text \<open>
  A state in which the queue holds the waiting tasks of \<open>T\<close> in the order of their virtual times and all of
  them lie within \<open>B\<close> of the clock.
\<close>

definition wait_start ::
    "('k \<Rightarrow> u64 \<Rightarrow> (task_ref \<times> u64) list) \<Rightarrow> task_ref set \<Rightarrow> int \<Rightarrow> (task_ref \<Rightarrow> place) \<Rightarrow> 'k sched \<Rightarrow> bool" where
  "wait_start dsq T B pl s \<longleftrightarrow> 0 \<le> B \<and> (\<forall>q \<in> T. \<bar>lag s q\<bar> \<le> B) \<and>
     (\<exists>xs. dsq (kern (kst s)) K8S_DSQ_ID = map (\<lambda>q. (q, vtime_of (kst s) q)) xs \<and> distinct xs \<and>
        set xs = {q \<in> T. pl q = Queued} \<and> sorted (map (lag s) xs))"

lemma lag_vtime: "vtime_of (kst s) q = vtime_now s + of_int (lag s q)"
  by (simp add: lag_def)

lemma start_sim: "wait_start dsq T B pl s \<Longrightarrow> wait_sim dsq T (vtime_now s) (lag s) 0 pl s"
  unfolding wait_start_def wait_sim_def by (auto simp: lag_vtime [symmetric])

text \<open>
  C2 (no_starvation). On any number of CPUs, with tasks that sleep, wake up, run directly on idle CPUs
  and have their parameters changed, a task that waits in the queue is not overtaken for ever: as
  long as it has not been taken from the queue itself, every other task is taken from it at most
  once more than its lead in virtual time divided by the least charge \<open>d\<close> of a service. Summed up, after that
  many dispatches the task has been dispatched. The bound on the length of the run keeps all virtual
  times in one half of the 64-bit clock.
\<close>

theorem no_starvation:
  assumes "scx_contract K dsq cg" "local_contract K dsq" "wait_start dsq T B pl0 s0"
    and "smp K dsq T d pl0 s0 D n pl s" "0 < d" "B + int n * 50000000000 + 5000000 \<le> 2 ^ 62"
    and "p \<in> T" "pl0 p = Queued"
  shows "0 < D p \<or> (\<forall>q \<in> T. int (D q) \<le> max 0 (lag s0 p - lag s0 q) div d + 1) \<and>
    int (\<Sum>q \<in> T. D q) \<le> (\<Sum>q \<in> T. max 0 (lag s0 p - lag s0 q) div d + 1)"
proof (cases "D p")
  case 0
  have "\<forall>q \<in> T. \<bar>lag s0 q\<bar> \<le> B" "0 \<le> B" using assms(3) by (auto simp: wait_start_def)
  then have "wait_good dsq T (vtime_now s0) d B (lag s0) pl0 D n pl s"
    using smp_good [OF assms(4,1,2) _ _ _ start_sim [OF assms(3)] assms(6)] assms(5) by simp
  then have "\<exists>V. bypass_ok T d (lag s0) D pl V p" using assms(7,8) by (auto simp: wait_good_def wait_inv_def)
  then have b: "\<forall>q \<in> T. 0 < D q \<longrightarrow> lag s0 q + d * (int (D q) - 1) \<le> lag s0 p" using 0 by (auto simp: bypass_ok_def)
  have each: "int (D q) \<le> max 0 (lag s0 p - lag s0 q) div d + 1" if "q \<in> T" for q
  proof (cases "D q = 0")
    case True
    then show ?thesis using assms(5) by (simp add: pos_imp_zdiv_nonneg_iff add_nonneg_nonneg)
  next
    case False
    then have "(int (D q) - 1) * d \<le> max 0 (lag s0 p - lag s0 q)" using b that by (auto simp: algebra_simps)
    from zdiv_mono1 [OF this assms(5)] show ?thesis using assms(5) by simp
  qed
  then have "int (\<Sum>q \<in> T. D q) \<le> (\<Sum>q \<in> T. max 0 (lag s0 p - lag s0 q) div d + 1)"
    unfolding of_nat_sum by (intro sum_mono) auto
  with each show ?thesis by blast
qed simp

text \<open>
  C23 (vtime_lead). In every such run, on any number of CPUs, no task's virtual time is ever more than the
  largest charge, 50 s, ahead of the clock, if none was at the start: a task that comes to the
  queue is never further behind in the order than that.
\<close>

theorem vtime_lead:
  assumes "scx_contract K dsq cg" "local_contract K dsq" "wait_start dsq T B pl0 s0"
    and "smp K dsq T d pl0 s0 D n pl s" "0 \<le> d" "B + int n * 50000000000 + 5000000 \<le> 2 ^ 62"
    and "\<forall>q \<in> T. lag s0 q \<le> 50000000000 \<and> (pl0 q = OnCpu \<longrightarrow> lag s0 q \<le> 0)" "q \<in> T"
  shows "lag s q \<le> 50000000000 \<and> (pl q = OnCpu \<longrightarrow> lag s q \<le> 0)"
proof -
  have B: "\<forall>q \<in> T. \<bar>lag s0 q\<bar> \<le> B" "0 \<le> B" using assms(3) by (auto simp: wait_start_def)
  have "wait_good dsq T (vtime_now s0) d B (lag s0) pl0 D n pl s"
    by (rule smp_good [OF assms(4,1,2,5) B(2,1) start_sim [OF assms(3)] assms(6)])
  then obtain V c where V: "wait_sim dsq T (vtime_now s0) V c pl s" "wait_inv T d B (lag s0) pl0 D n pl V c"
    by (auto simp: wait_good_def)
  have l: "V q \<le> c + 50000000000 \<and> (pl q = OnCpu \<longrightarrow> V q \<le> c)"
    using V(2) assms(7,8) by (simp add: wait_inv_def lead_ok_def)
  have r: "- B - 5000000 \<le> V q" "V q \<le> B + int n * 50000000000" "- B \<le> c" "c \<le> B + int n * 50000000000"
    using V(2) assms(8) by (auto simp: wait_inv_def range_ok_def)
  have "vtime_of (kst s) q - vtime_now s = of_int (V q - c)" using V(1) assms(8) by (simp add: wait_sim_def)
  moreover have "sint (of_int (V q - c) :: u64) = V q - c" using r assms(6) by (intro sint64_of_int) simp_all
  ultimately have "lag s q = V q - c" by (simp add: lag_def)
  with l show ?thesis by linarith
qed

subsection \<open>A concrete run\<close>

text \<open>Task 4 is taken from the queue, runs for its 3 ms and stops, while task 5 waits.\<close>

lemma pinned_local: "local_contract pinned_env rk_dsqs"
proof -
  have "scx_dsq_insert pinned_env = ref_insert" by (simp add: scx_dsq_insert_def pinned_env_def ref_env_def)
  then show ?thesis
    by (simp add: local_contract_def ref_insert_def) (simp add: pinned_env_def ref_env_def split: option.splits)
qed

definition wait_places :: "task_ref \<Rightarrow> place" where
  "wait_places = (\<lambda>q. if q = 4 \<or> q = 5 then Queued else Off)"

lemma fair_wait_start: "wait_start rk_dsqs {4, 5} 0 wait_places fair_start"
  unfolding wait_start_def
  by (intro conjI exI [of _ "[4, 5]"]) (auto simp: lag_def wait_places_def fair_start_def)

definition fair_stopped :: "ref_kern sched" where
  "fair_stopped = (let s = k8s_running 4 (k8s_dispatch pinned_env 0 None fair_start)
     in k8s_stopping pinned_env 4 True (s\<lparr>kst := set_slice 4 0 (kst s)\<rparr>))"

lemma fair_smp:
  "smp pinned_env rk_dsqs {4, 5} 1000 wait_places fair_start ((\<lambda>_. 0)(4 := 1)) 1
     (wait_places(4 := Local, 4 := OnCpu, 4 := Off)) fair_stopped"
proof -
  let ?s1 = "k8s_dispatch pinned_env 0 None fair_start"
  let ?s2 = "k8s_running 4 ?s1"
  let ?s3 = "?s2\<lparr>kst := set_slice 4 0 (kst ?s2)\<rparr>"
  note smp0 = smp_start [of pinned_env rk_dsqs "{4, 5}" 1000 wait_places fair_start]
  have hd: "rk_dsqs (kern (kst fair_start)) K8S_DSQ_ID = (4, - 5) # [(5, - 5)]" by (simp add: fair_start_def)
  note smp1 = smp_dispatch [OF smp0 hd, of 0 None, unfolded k8s_sched_sel]
  have "(wait_places(4 := Local)) 4 = Local" "(4 :: nat) \<in> {4, 5}" by simp_all
  note smp2 = smp_running [OF smp1 this(2,1), unfolded k8s_sched_sel]
  have on: "(wait_places(4 := Local, 4 := OnCpu)) 4 = OnCpu" "(4 :: nat) \<in> {4, 5}" by simp_all
  note smp3 = smp_use [OF smp2 on(2,1), of 0]
  have "params_in of_nat ?s3 4 = \<lparr>weight = 10000, budget_ns = 3000000\<rparr>"
    using fair_params(1) by (simp add: params_in_def dispatch_effect(1) [OF pinned_scx])
  then have "uint (vtime_of (kst (k8s_stopping pinned_env 4 True ?s3)) 4 - vtime_of (kst ?s3) 4) = 3000000"
    by (simp add: stopping_effect(1) [OF pinned_scx] fair_slices used_slice_def vtime_charge_def MAX_PRIO_WEIGHT_def Let_def)
  then have ch: "1000 \<le> uint (vtime_of (kst (op_stopping (k8s_sched pinned_env) 4 True ?s3)) 4 - vtime_of (kst ?s3) 4)"
    by simp
  from smp_stopping [OF smp3 on(2,1) ch] show ?thesis by (simp only: fair_stopped_def Let_def k8s_sched_sel One_nat_def)
qed

theorem no_starvation_witness:
  "\<exists>D n pl s. smp pinned_env rk_dsqs {4, 5} 1000 wait_places fair_start D n pl s \<and> D 4 = 1 \<and> D 5 = 0 \<and>
     int (D 4) \<le> max 0 (lag fair_start 5 - lag fair_start 4) div 1000 + 1"
proof -
  from no_starvation [OF pinned_scx pinned_local fair_wait_start fair_smp, of 5]
  have "int (((\<lambda>_. 0)(4 := 1)) (4 :: nat)) \<le> max 0 (lag fair_start 5 - lag fair_start 4) div 1000 + 1"
    by (auto simp: wait_places_def)
  with fair_smp show ?thesis by (intro exI conjI) (assumption | simp)+
qed

theorem vtime_lead_witness:
  "smp pinned_env rk_dsqs {4, 5} 1000 wait_places fair_start ((\<lambda>_. 0)(4 := 1)) 1
     (wait_places(4 := Local, 4 := OnCpu, 4 := Off)) fair_stopped \<and> lag fair_stopped 4 \<le> 50000000000"
  using vtime_lead [OF pinned_scx pinned_local fair_wait_start fair_smp, of 4] fair_smp
  by (simp add: lag_def wait_places_def fair_start_def)

end
