(* ===== verification/Bpf_Regs.thy ===== *)
theory Bpf_Regs
  imports Prelude
begin

text \<open>
  The first half of \<^verbatim>\<open>include/bpf/bpf_tracing.h\<close>: the choice of the target architecture, the
  register names of every architecture, and the \<^verbatim>\<open>PT_REGS_*\<close> accessors. A register name is a
  member designator of the architecture's register structure; an accessor expands to a C
  expression, which \<open>ceval\<close> evaluates over a memory given by a member-read function.
  \<^verbatim>\<open>BPF_CORE_READ\<close> is a macro of another header and is a parameter.
\<close>

subsection \<open>The target architecture\<close>

datatype bpf_target = X86 | S390 | Arm | Arm64 | Mips | Powerpc | Sparc | Riscv | Arc | Loongarch

text \<open>What the preprocessor knows: the defined macros, and \<^verbatim>\<open>__riscv_xlen\<close> (0 when undefined).\<close>

record cpp =
  defd :: "string \<Rightarrow> bool"
  riscv_xlen :: int

definition target_by_env :: "cpp \<Rightarrow> bpf_target option" where
  "target_by_env P =
     (if defd P ''__TARGET_ARCH_x86'' then Some X86
      else if defd P ''__TARGET_ARCH_s390'' then Some S390
      else if defd P ''__TARGET_ARCH_arm'' then Some Arm
      else if defd P ''__TARGET_ARCH_arm64'' then Some Arm64
      else if defd P ''__TARGET_ARCH_mips'' then Some Mips
      else if defd P ''__TARGET_ARCH_powerpc'' then Some Powerpc
      else if defd P ''__TARGET_ARCH_sparc'' then Some Sparc
      else if defd P ''__TARGET_ARCH_riscv'' then Some Riscv
      else if defd P ''__TARGET_ARCH_arc'' then Some Arc
      else if defd P ''__TARGET_ARCH_loongarch'' then Some Loongarch
      else None)"

definition target_by_compiler :: "cpp \<Rightarrow> bpf_target option" where
  "target_by_compiler P =
     (if defd P ''__x86_64__'' then Some X86
      else if defd P ''__s390__'' then Some S390
      else if defd P ''__arm__'' then Some Arm
      else if defd P ''__aarch64__'' then Some Arm64
      else if defd P ''__mips__'' then Some Mips
      else if defd P ''__powerpc__'' then Some Powerpc
      else if defd P ''__sparc__'' then Some Sparc
      else if defd P ''__riscv'' \<and> riscv_xlen P = 64 then Some Riscv
      else if defd P ''__arc__'' then Some Arc
      else if defd P ''__loongarch__'' then Some Loongarch
      else None)"

definition bpf_target_of :: "cpp \<Rightarrow> bpf_target option" where
  "bpf_target_of P = (case target_by_env P of Some t \<Rightarrow> Some t | None \<Rightarrow> target_by_compiler P)"

subsection \<open>Register names\<close>

datatype reg =
    Fld string           \<comment> \<open>\<^verbatim>\<open>di\<close>\<close>
  | Idx string nat       \<comment> \<open>\<^verbatim>\<open>gprs[2]\<close>\<close>
  | IdxC string string   \<comment> \<open>\<^verbatim>\<open>u_regs[UREG_I0]\<close>\<close>
  | Mem string string    \<comment> \<open>\<^verbatim>\<open>scratch.r0\<close>\<close>
  | Unsupported          \<comment> \<open>\<^verbatim>\<open>__unsupported__\<close>, a member of no structure\<close>

text \<open>A syscall register is an alias \<^verbatim>\<open>__PT_PARMn_REG\<close> of a parameter register, or its own.\<close>

datatype sysreg = Parm nat | Own reg

text \<open>
  The macros one architecture defines. \<open>regs_cast\<close> is the structure \<^verbatim>\<open>__PT_REGS_CAST\<close> casts to, if
  the architecture overrides it; \<open>parm1_struct\<close> the structure of an overridden
  \<^verbatim>\<open>PT_REGS_PARM1_SYSCALL\<close>; \<open>syscall_direct\<close> whether it defines \<^verbatim>\<open>PT_REGS_SYSCALL_REGS(ctx)\<close> as \<^verbatim>\<open>ctx\<close>.
\<close>

record pt_macros =
  regs_cast :: "string option"
  parm_reg :: "reg list"
  syscall_reg :: "sysreg list"
  parm1_struct :: "string option"
  syscall_direct :: bool
  ret_reg :: reg
  fp_reg :: reg
  rc_reg :: reg
  sp_reg :: reg
  ip_reg :: reg

definition x86_kernel :: pt_macros where
  "x86_kernel =
     \<lparr>regs_cast = None,
      parm_reg = [Fld ''di'', Fld ''si'', Fld ''dx'', Fld ''cx'', Fld ''r8'', Fld ''r9''],
      syscall_reg = [Parm 1, Parm 2, Parm 3, Own (Fld ''r10''), Parm 5, Parm 6],
      parm1_struct = None, syscall_direct = False,
      ret_reg = Fld ''sp'', fp_reg = Fld ''bp'', rc_reg = Fld ''ax'', sp_reg = Fld ''sp'',
      ip_reg = Fld ''ip''\<rparr>"

definition x86_i386 :: pt_macros where
  "x86_i386 =
     \<lparr>regs_cast = None,
      parm_reg = [Fld ''eax'', Fld ''edx'', Fld ''ecx''],
      syscall_reg = [Own (Fld ''ebx''), Own (Fld ''ecx''), Own (Fld ''edx''), Own (Fld ''esi''),
                     Own (Fld ''edi''), Own (Fld ''ebp'')],
      parm1_struct = None, syscall_direct = False,
      ret_reg = Fld ''esp'', fp_reg = Fld ''ebp'', rc_reg = Fld ''eax'', sp_reg = Fld ''esp'',
      ip_reg = Fld ''eip''\<rparr>"

definition x86_user :: pt_macros where
  "x86_user =
     \<lparr>regs_cast = None,
      parm_reg = [Fld ''rdi'', Fld ''rsi'', Fld ''rdx'', Fld ''rcx'', Fld ''r8'', Fld ''r9''],
      syscall_reg = [Parm 1, Parm 2, Parm 3, Own (Fld ''r10''), Parm 5, Parm 6],
      parm1_struct = None, syscall_direct = False,
      ret_reg = Fld ''rsp'', fp_reg = Fld ''rbp'', rc_reg = Fld ''rax'', sp_reg = Fld ''rsp'',
      ip_reg = Fld ''rip''\<rparr>"

definition s390_regs :: pt_macros where
  "s390_regs =
     \<lparr>regs_cast = Some ''user_pt_regs'',
      parm_reg = [Idx ''gprs'' 2, Idx ''gprs'' 3, Idx ''gprs'' 4, Idx ''gprs'' 5, Idx ''gprs'' 6],
      syscall_reg = [Own (Fld ''orig_gpr2''), Parm 2, Parm 3, Parm 4, Parm 5, Own (Idx ''gprs'' 7)],
      parm1_struct = Some ''pt_regs___s390'', syscall_direct = False,
      ret_reg = Idx ''gprs'' 14, fp_reg = Idx ''gprs'' 11, rc_reg = Idx ''gprs'' 2,
      sp_reg = Idx ''gprs'' 15, ip_reg = Mem ''psw'' ''addr''\<rparr>"

definition arm_regs :: pt_macros where
  "arm_regs =
     \<lparr>regs_cast = None,
      parm_reg = [Idx ''uregs'' 0, Idx ''uregs'' 1, Idx ''uregs'' 2, Idx ''uregs'' 3],
      syscall_reg = [Parm 1, Parm 2, Parm 3, Parm 4, Own (Idx ''uregs'' 4), Own (Idx ''uregs'' 5),
                     Own (Idx ''uregs'' 6)],
      parm1_struct = None, syscall_direct = False,
      ret_reg = Idx ''uregs'' 14, fp_reg = Idx ''uregs'' 11, rc_reg = Idx ''uregs'' 0,
      sp_reg = Idx ''uregs'' 13, ip_reg = Idx ''uregs'' 12\<rparr>"

definition arm64_regs :: pt_macros where
  "arm64_regs =
     \<lparr>regs_cast = Some ''struct user_pt_regs'',
      parm_reg = [Idx ''regs'' 0, Idx ''regs'' 1, Idx ''regs'' 2, Idx ''regs'' 3, Idx ''regs'' 4,
                  Idx ''regs'' 5, Idx ''regs'' 6, Idx ''regs'' 7],
      syscall_reg = [Own (Fld ''orig_x0''), Parm 2, Parm 3, Parm 4, Parm 5, Parm 6],
      parm1_struct = Some ''pt_regs___arm64'', syscall_direct = False,
      ret_reg = Idx ''regs'' 30, fp_reg = Idx ''regs'' 29, rc_reg = Idx ''regs'' 0,
      sp_reg = Fld ''sp'', ip_reg = Fld ''pc''\<rparr>"

definition mips_regs :: pt_macros where
  "mips_regs =
     \<lparr>regs_cast = None,
      parm_reg = [Idx ''regs'' 4, Idx ''regs'' 5, Idx ''regs'' 6, Idx ''regs'' 7, Idx ''regs'' 8,
                  Idx ''regs'' 9, Idx ''regs'' 10, Idx ''regs'' 11],
      syscall_reg = [Parm 1, Parm 2, Parm 3, Parm 4, Parm 5, Parm 6],
      parm1_struct = None, syscall_direct = False,
      ret_reg = Idx ''regs'' 31, fp_reg = Idx ''regs'' 30, rc_reg = Idx ''regs'' 2,
      sp_reg = Idx ''regs'' 29, ip_reg = Fld ''cp0_epc''\<rparr>"

definition powerpc_regs :: "cpp \<Rightarrow> pt_macros" where
  "powerpc_regs P =
     \<lparr>regs_cast = None,
      parm_reg = [Idx ''gpr'' 3, Idx ''gpr'' 4, Idx ''gpr'' 5, Idx ''gpr'' 6, Idx ''gpr'' 7,
                  Idx ''gpr'' 8, Idx ''gpr'' 9, Idx ''gpr'' 10],
      syscall_reg = [Own (Fld ''orig_gpr3''), Parm 2, Parm 3, Parm 4, Parm 5, Parm 6] @
                    (if \<not> defd P ''__arch64__'' then [Parm 7] else []),
      parm1_struct = None, syscall_direct = True,
      ret_reg = Idx ''regs'' 31, fp_reg = Unsupported, rc_reg = Idx ''gpr'' 3,
      sp_reg = Idx ''gpr'' 1, ip_reg = Fld ''nip''\<rparr>"

definition sparc_regs :: "cpp \<Rightarrow> pt_macros" where
  "sparc_regs P =
     \<lparr>regs_cast = None,
      parm_reg = [IdxC ''u_regs'' ''UREG_I0'', IdxC ''u_regs'' ''UREG_I1'',
                  IdxC ''u_regs'' ''UREG_I2'', IdxC ''u_regs'' ''UREG_I3'',
                  IdxC ''u_regs'' ''UREG_I4'', IdxC ''u_regs'' ''UREG_I5''],
      syscall_reg = [Parm 1, Parm 2, Parm 3, Parm 4, Parm 5, Parm 6],
      parm1_struct = None, syscall_direct = False,
      ret_reg = IdxC ''u_regs'' ''UREG_I7'', fp_reg = Unsupported,
      rc_reg = IdxC ''u_regs'' ''UREG_I0'', sp_reg = IdxC ''u_regs'' ''UREG_FP'',
      ip_reg = (if defd P ''__arch64__'' then Fld ''tpc'' else Fld ''pc'')\<rparr>"

definition riscv_regs :: pt_macros where
  "riscv_regs =
     \<lparr>regs_cast = Some ''struct user_regs_struct'',
      parm_reg = [Fld ''a0'', Fld ''a1'', Fld ''a2'', Fld ''a3'', Fld ''a4'', Fld ''a5'', Fld ''a6'',
                  Fld ''a7''],
      syscall_reg = [Own (Fld ''orig_a0''), Parm 2, Parm 3, Parm 4, Parm 5, Parm 6],
      parm1_struct = Some ''pt_regs___riscv'', syscall_direct = False,
      ret_reg = Fld ''ra'', fp_reg = Fld ''s0'', rc_reg = Fld ''a0'', sp_reg = Fld ''sp'',
      ip_reg = Fld ''pc''\<rparr>"

definition arc_regs :: pt_macros where
  "arc_regs =
     \<lparr>regs_cast = Some ''struct user_regs_struct'',
      parm_reg = [Mem ''scratch'' ''r0'', Mem ''scratch'' ''r1'', Mem ''scratch'' ''r2'',
                  Mem ''scratch'' ''r3'', Mem ''scratch'' ''r4'', Mem ''scratch'' ''r5'',
                  Mem ''scratch'' ''r6'', Mem ''scratch'' ''r7''],
      syscall_reg = [Parm 1, Parm 2, Parm 3, Parm 4, Parm 5, Parm 6],
      parm1_struct = None, syscall_direct = True,
      ret_reg = Mem ''scratch'' ''blink'', fp_reg = Mem ''scratch'' ''fp'',
      rc_reg = Mem ''scratch'' ''r0'', sp_reg = Mem ''scratch'' ''sp'',
      ip_reg = Mem ''scratch'' ''ret''\<rparr>"

definition loongarch_regs :: pt_macros where
  "loongarch_regs =
     \<lparr>regs_cast = Some ''struct user_pt_regs'',
      parm_reg = [Idx ''regs'' 4, Idx ''regs'' 5, Idx ''regs'' 6, Idx ''regs'' 7, Idx ''regs'' 8,
                  Idx ''regs'' 9, Idx ''regs'' 10, Idx ''regs'' 11],
      syscall_reg = [Parm 1, Parm 2, Parm 3, Parm 4, Parm 5, Parm 6],
      parm1_struct = None, syscall_direct = True,
      ret_reg = Idx ''regs'' 1, fp_reg = Idx ''regs'' 22, rc_reg = Idx ''regs'' 4,
      sp_reg = Idx ''regs'' 3, ip_reg = Fld ''csr_era''\<rparr>"

definition target_macros :: "cpp \<Rightarrow> bpf_target \<Rightarrow> pt_macros" where
  "target_macros P t =
     (case t of
        X86 \<Rightarrow> (if defd P ''__KERNEL__'' \<or> defd P ''__VMLINUX_H__'' then x86_kernel
                else if defd P ''__i386__'' then x86_i386 else x86_user)
      | S390 \<Rightarrow> s390_regs | Arm \<Rightarrow> arm_regs | Arm64 \<Rightarrow> arm64_regs | Mips \<Rightarrow> mips_regs
      | Powerpc \<Rightarrow> powerpc_regs P | Sparc \<Rightarrow> sparc_regs P | Riscv \<Rightarrow> riscv_regs | Arc \<Rightarrow> arc_regs
      | Loongarch \<Rightarrow> loongarch_regs)"

text \<open>Parameters an architecture leaves undefined are given the \<^verbatim>\<open>__unsupported__\<close> default.\<close>

definition PT_PARM_REG :: "pt_macros \<Rightarrow> nat \<Rightarrow> reg" where
  "PT_PARM_REG A n = (if n \<le> length (parm_reg A) then parm_reg A ! (n - 1) else Unsupported)"

definition PT_PARM_SYSCALL_REG :: "pt_macros \<Rightarrow> nat \<Rightarrow> reg" where
  "PT_PARM_SYSCALL_REG A n =
     (if n \<le> length (syscall_reg A)
      then (case syscall_reg A ! (n - 1) of Parm k \<Rightarrow> PT_PARM_REG A k | Own r \<Rightarrow> r)
      else Unsupported)"

subsection \<open>Register accessors\<close>

datatype cexpr =
    Ctx                              \<comment> \<open>the handler's \<^verbatim>\<open>ctx\<close>\<close>
  | Regs                             \<comment> \<open>the local \<^verbatim>\<open>regs\<close>\<close>
  | CtxAt nat                        \<comment> \<open>\<^verbatim>\<open>ctx[n]\<close>\<close>
  | Member "string option" reg cexpr \<comment> \<open>\<^verbatim>\<open>((const S *)(x))->r\<close>\<close>
  | CoreRead "string option" reg cexpr \<comment> \<open>\<^verbatim>\<open>BPF_CORE_READ((const S *)(x), r)\<close>\<close>
  | Missing                          \<comment> \<open>\<^verbatim>\<open>_Pragma(__BPF_TARGET_MISSING)\<close>\<close>

text \<open>Without a target every accessor is defined as an error: the plain ones, the relocatable ones, those for syscalls.\<close>

definition no_target :: cexpr where "no_target = Missing"

definition no_target_core :: cexpr where "no_target_core = Missing"

definition no_target_syscall :: cexpr where "no_target_syscall = Missing"

definition no_target_core_syscall :: cexpr where "no_target_core_syscall = Missing"

lemmas no_target_defs [simp] = no_target_def no_target_core_def no_target_syscall_def no_target_core_syscall_def

text \<open>The first argument is \<open>None\<close> when no target is defined.\<close>

fun access :: "pt_macros option \<Rightarrow> (pt_macros \<Rightarrow> reg) \<Rightarrow> cexpr \<Rightarrow> cexpr" where
  "access None r x = no_target"
| "access (Some A) r x = Member (regs_cast A) (r A) x"

fun access_core :: "pt_macros option \<Rightarrow> (pt_macros \<Rightarrow> reg) \<Rightarrow> cexpr \<Rightarrow> cexpr" where
  "access_core None r x = no_target_core"
| "access_core (Some A) r x = CoreRead (regs_cast A) (r A) x"

definition PT_REGS_PARM :: "pt_macros option \<Rightarrow> nat \<Rightarrow> cexpr \<Rightarrow> cexpr" where
  "PT_REGS_PARM M n = access M (\<lambda>A. PT_PARM_REG A n)"

definition PT_REGS_PARM_CORE :: "pt_macros option \<Rightarrow> nat \<Rightarrow> cexpr \<Rightarrow> cexpr" where
  "PT_REGS_PARM_CORE M n = access_core M (\<lambda>A. PT_PARM_REG A n)"

definition PT_REGS_RET :: "pt_macros option \<Rightarrow> cexpr \<Rightarrow> cexpr" where
  "PT_REGS_RET M = access M ret_reg"

definition PT_REGS_FP :: "pt_macros option \<Rightarrow> cexpr \<Rightarrow> cexpr" where
  "PT_REGS_FP M = access M fp_reg"

definition PT_REGS_RC :: "pt_macros option \<Rightarrow> cexpr \<Rightarrow> cexpr" where
  "PT_REGS_RC M = access M rc_reg"

definition PT_REGS_SP :: "pt_macros option \<Rightarrow> cexpr \<Rightarrow> cexpr" where
  "PT_REGS_SP M = access M sp_reg"

definition PT_REGS_IP :: "pt_macros option \<Rightarrow> cexpr \<Rightarrow> cexpr" where
  "PT_REGS_IP M = access M ip_reg"

definition PT_REGS_RET_CORE :: "pt_macros option \<Rightarrow> cexpr \<Rightarrow> cexpr" where
  "PT_REGS_RET_CORE M = access_core M ret_reg"

definition PT_REGS_FP_CORE :: "pt_macros option \<Rightarrow> cexpr \<Rightarrow> cexpr" where
  "PT_REGS_FP_CORE M = access_core M fp_reg"

definition PT_REGS_RC_CORE :: "pt_macros option \<Rightarrow> cexpr \<Rightarrow> cexpr" where
  "PT_REGS_RC_CORE M = access_core M rc_reg"

definition PT_REGS_SP_CORE :: "pt_macros option \<Rightarrow> cexpr \<Rightarrow> cexpr" where
  "PT_REGS_SP_CORE M = access_core M sp_reg"

definition PT_REGS_IP_CORE :: "pt_macros option \<Rightarrow> cexpr \<Rightarrow> cexpr" where
  "PT_REGS_IP_CORE M = access_core M ip_reg"

text \<open>The structure a syscall parameter is read from: the first one may have its own.\<close>

definition syscall_struct :: "pt_macros \<Rightarrow> nat \<Rightarrow> string option" where
  "syscall_struct A n =
     (case parm1_struct A of Some st \<Rightarrow> (if n = 1 then Some st else regs_cast A) | None \<Rightarrow> regs_cast A)"

fun PT_REGS_PARM_SYSCALL :: "pt_macros option \<Rightarrow> nat \<Rightarrow> cexpr \<Rightarrow> cexpr" where
  "PT_REGS_PARM_SYSCALL None n x = no_target_syscall"
| "PT_REGS_PARM_SYSCALL (Some A) n x = Member (syscall_struct A n) (PT_PARM_SYSCALL_REG A n) x"

fun PT_REGS_PARM_CORE_SYSCALL :: "pt_macros option \<Rightarrow> nat \<Rightarrow> cexpr \<Rightarrow> cexpr" where
  "PT_REGS_PARM_CORE_SYSCALL None n x = no_target_core_syscall"
| "PT_REGS_PARM_CORE_SYSCALL (Some A) n x = CoreRead (syscall_struct A n) (PT_PARM_SYSCALL_REG A n) x"

fun PT_REGS_SYSCALL_REGS :: "pt_macros option \<Rightarrow> cexpr \<Rightarrow> cexpr" where
  "PT_REGS_SYSCALL_REGS (Some A) x = (if syscall_direct A then x else PT_REGS_PARM (Some A) 1 x)"
| "PT_REGS_SYSCALL_REGS None x = PT_REGS_PARM None 1 x"

text \<open>How a probe finds its return address.\<close>

datatype ip_read =
    LinkMember                  \<comment> \<open>\<^verbatim>\<open>(ip) = (ctx)->link\<close>\<close>
  | IpValue cexpr               \<comment> \<open>\<^verbatim>\<open>(ip) = e\<close>\<close>
  | IpProbeRead cexpr nat       \<comment> \<open>\<^verbatim>\<open>bpf_probe_read_kernel(&(ip), sizeof(ip), (void *)(e + n))\<close>\<close>
  | IpMissing

definition no_target_ip :: ip_read where "no_target_ip = IpMissing"

definition BPF_KPROBE_READ_RET_IP :: "(bpf_target \<times> pt_macros) option \<Rightarrow> ip_read" where
  "BPF_KPROBE_READ_RET_IP T =
     (case T of
        None \<Rightarrow> no_target_ip
      | Some (t, A) \<Rightarrow>
          if t = Powerpc then LinkMember
          else if t = Sparc \<or> t = Arm64 then IpValue (PT_REGS_RET (Some A) Ctx)
          else IpProbeRead (PT_REGS_RET (Some A) Ctx) 0)"

definition BPF_KRETPROBE_READ_RET_IP :: "nat \<Rightarrow> (bpf_target \<times> pt_macros) option \<Rightarrow> ip_read" where
  "BPF_KRETPROBE_READ_RET_IP sizeof_ip T =
     (case T of
        None \<Rightarrow> no_target_ip
      | Some (t, A) \<Rightarrow>
          if t = Powerpc \<or> t = Sparc \<or> t = Arm64 then BPF_KPROBE_READ_RET_IP T
          else IpProbeRead (PT_REGS_FP (Some A) Ctx) sizeof_ip)"

subsection \<open>Evaluation\<close>

record cenv =
  ev_ctx :: u64
  ev_regs :: u64
  ev_slot :: "nat \<Rightarrow> u64"
  ev_member :: "string option \<Rightarrow> reg \<Rightarrow> u64 \<Rightarrow> u64"
  ev_core :: "string option \<Rightarrow> reg \<Rightarrow> u64 \<Rightarrow> u64"

text \<open>\<open>None\<close>: the expression does not compile.\<close>

fun ceval :: "cenv \<Rightarrow> cexpr \<Rightarrow> u64 option" where
  "ceval E Ctx = Some (ev_ctx E)"
| "ceval E Regs = Some (ev_regs E)"
| "ceval E (CtxAt n) = Some (ev_slot E n)"
| "ceval E (Member st r x) = (if r = Unsupported then None else map_option (ev_member E st r) (ceval E x))"
| "ceval E (CoreRead st r x) = (if r = Unsupported then None else map_option (ev_core E st r) (ceval E x))"
| "ceval E Missing = None"

text \<open>\<^verbatim>\<open>BPF_CORE_READ\<close> reads the member that a direct access names.\<close>

definition core_read_contract :: "cenv \<Rightarrow> bool" where
  "core_read_contract E \<longleftrightarrow> (\<forall>st r x. ev_core E st r x = ev_member E st r x)"

subsection \<open>The register tables are sound\<close>

text \<open>
  An architecture's table: between three and eight parameter registers and six or seven syscall
  registers, no register named twice, and syscall aliases only of defined parameters.
\<close>

definition sound_macros :: "pt_macros \<Rightarrow> bool" where
  "sound_macros A \<longleftrightarrow>
     3 \<le> length (parm_reg A) \<and> length (parm_reg A) \<le> 8 \<and> length (syscall_reg A) \<in> {6, 7} \<and>
     Unsupported \<notin> set (parm_reg A) \<and> distinct (parm_reg A) \<and>
     (\<forall>n \<in> {1..length (syscall_reg A)}. PT_PARM_SYSCALL_REG A n \<noteq> Unsupported) \<and>
     distinct (map (PT_PARM_SYSCALL_REG A) [1..<Suc (length (syscall_reg A))])"

named_theorems reg_tables

lemmas reg_table_defs [reg_tables] =
  x86_kernel_def x86_i386_def x86_user_def s390_regs_def arm_regs_def arm64_regs_def mips_regs_def
  powerpc_regs_def sparc_regs_def riscv_regs_def arc_regs_def loongarch_regs_def

lemma sound_tables:
  "sound_macros x86_kernel" "sound_macros x86_i386" "sound_macros x86_user"
  "sound_macros s390_regs" "sound_macros arm_regs" "sound_macros arm64_regs"
  "sound_macros mips_regs" "sound_macros riscv_regs" "sound_macros arc_regs"
  "sound_macros loongarch_regs"
  by code_simp+

lemma sound_tables_arch64:
  "sound_macros (powerpc_regs P)" "sound_macros (sparc_regs P)"
proof -
  have "powerpc_regs P = powerpc_regs \<lparr>defd = (\<lambda>_. defd P ''__arch64__''), riscv_xlen = 0\<rparr>"
    by (simp add: powerpc_regs_def)
  moreover have "sound_macros (powerpc_regs \<lparr>defd = (\<lambda>_. b), riscv_xlen = 0\<rparr>)" for b
    by (cases b; simp only:; code_simp)
  ultimately show "sound_macros (powerpc_regs P)" by metis
  have "sparc_regs P = sparc_regs \<lparr>defd = (\<lambda>_. defd P ''__arch64__''), riscv_xlen = 0\<rparr>"
    by (simp add: sparc_regs_def)
  moreover have "sound_macros (sparc_regs \<lparr>defd = (\<lambda>_. b), riscv_xlen = 0\<rparr>)" for b
    by (cases b; simp only:; code_simp)
  ultimately show "sound_macros (sparc_regs P)" by metis
qed

lemma target_macros_sound: "sound_macros (target_macros P t)"
  by (cases t) (simp_all add: target_macros_def sound_tables sound_tables_arch64)

lemma parm_supported:
  assumes "sound_macros A" "1 \<le> n"
  shows "PT_PARM_REG A n = Unsupported \<longleftrightarrow> length (parm_reg A) < n"
proof (cases "n \<le> length (parm_reg A)")
  case True
  then have "parm_reg A ! (n - 1) \<in> set (parm_reg A)" using assms(2) by (intro nth_mem) simp
  then show ?thesis using True assms(1) by (auto simp: PT_PARM_REG_def sound_macros_def)
qed (simp add: PT_PARM_REG_def)

lemma syscall_supported:
  assumes "sound_macros A" "1 \<le> n"
  shows "PT_PARM_SYSCALL_REG A n = Unsupported \<longleftrightarrow> length (syscall_reg A) < n"
proof (cases "n \<le> length (syscall_reg A)")
  case True
  then show ?thesis using assms by (auto simp: sound_macros_def)
qed (simp add: PT_PARM_SYSCALL_REG_def)

end
