(* ===== verification/Bpf_Tracing.thy ===== *)
theory Bpf_Tracing
  imports Bpf_Helpers Bpf_Regs
begin

text \<open>
  The second half of \<^verbatim>\<open>include/bpf/bpf_tracing.h\<close>: the macros that turn the raw context of a BPF
  program into typed arguments. Each family of numbered macros is one recursive function on
  the argument list, selected by \<^verbatim>\<open>___bpf_apply\<close> as in the source. All families of the form
  ``context first, then one value per argument'' satisfy the contract \<open>arg_family\<close>, from which the
  expansion of each follows.
\<close>

subsection \<open>BPF\_PROG\<close>

text \<open>
  \<^verbatim>\<open>___bpf_ctx_castN(x, args...)\<close> drops one argument and appends one value. The last parameter is
  the argument list as written by the user; only its length matters.
\<close>

fun bpf_ctx_castn :: "nat \<Rightarrow> 'a list \<Rightarrow> cexpr list option" where
  "bpf_ctx_castn 0 [] = Some [Ctx]"
| "bpf_ctx_castn (Suc n) (x # args) = map_option (\<lambda>es. es @ [CtxAt n]) (bpf_ctx_castn n args)"
| "bpf_ctx_castn _ _ = None"

definition numbered ::
    "(nat \<Rightarrow> 'a list \<Rightarrow> 'e list option) \<Rightarrow> nat \<Rightarrow> 'a list \<Rightarrow> 'e list option" where
  "numbered fam limit args =
     (case bpf_apply fam limit (bpf_narg args) of None \<Rightarrow> None | Some f \<Rightarrow> f args)"

definition bpf_ctx_cast :: "'a list \<Rightarrow> cexpr list option" where
  "bpf_ctx_cast = numbered bpf_ctx_castn 12"

text \<open>
  A program macro defines the handler and its typed body: the handler's parameters come from the
  context, the body's from the declaration.
\<close>

record 'a prog =
  body_params :: "'a list"      \<comment> \<open>after \<^verbatim>\<open>ctx\<close>\<close>
  call_args :: "cexpr list"     \<comment> \<open>of the call of \<^verbatim>\<open>____name\<close>\<close>

definition BPF_PROG :: "'a list \<Rightarrow> 'a prog option" where
  "BPF_PROG args = map_option (\<lambda>es. \<lparr>body_params = args, call_args = es\<rparr>) (bpf_ctx_cast args)"

subsection \<open>BPF\_PROG2\<close>

text \<open>Arguments are alternating types, of which the size matters, and names.\<close>

datatype parg = Ty nat | Nm string

definition bpf_nth2 :: "'x list \<Rightarrow> 'x option" where
  "bpf_nth2 xs = (if 25 < length xs then Some (xs ! 25) else None)"

definition bpf_narg2 :: "'a list \<Rightarrow> ('a, nat) tok option" where
  "bpf_narg2 args =
     bpf_nth2 (Underscore # map Arg args @ map Tok
       [12, 12, 11, 11, 10, 10, 9, 9, 8, 8, 7, 7, 6, 6, 5, 5, 4, 4, 3, 3, 2, 2, 1, 1, 0])"

definition bpf_treg_cnt :: "nat \<Rightarrow> nat option" where
  "bpf_treg_cnt sz =
     (if sz = 1 then Some 1 else if sz = 2 then Some 1 else if sz = 4 then Some 1
      else if sz = 8 then Some 1 else if sz = 16 then Some 2 else None)"

fun bpf_reg_cntn :: "nat \<Rightarrow> parg list \<Rightarrow> nat option" where
  "bpf_reg_cntn 0 [] = Some 0"
| "bpf_reg_cntn (Suc n) (Ty t # Nm x # args) =
     (case (bpf_reg_cntn n args, bpf_treg_cnt t) of (Some a, Some b) \<Rightarrow> Some (a + b) | _ \<Rightarrow> None)"
| "bpf_reg_cntn _ _ = None"

definition bpf_reg_cnt :: "parg list \<Rightarrow> nat option" where
  "bpf_reg_cnt args =
     (case bpf_apply bpf_reg_cntn 12 (bpf_narg2 args) of None \<Rightarrow> None | Some f \<Rightarrow> f args)"

text \<open>
  \<^verbatim>\<open>___bpf_union_arg(t, x, n)\<close>: the context words it reads and the width each is cut to, in bytes.
\<close>

record union_arg =
  slots :: "nat list"
  width :: nat

definition bpf_union_arg :: "nat \<Rightarrow> nat \<Rightarrow> union_arg option" where
  "bpf_union_arg sz n =
     (if sz = 1 then Some \<lparr>slots = [n], width = 1\<rparr>
      else if sz = 2 then Some \<lparr>slots = [n], width = 2\<rparr>
      else if sz = 4 then Some \<lparr>slots = [n], width = 4\<rparr>
      else if sz = 8 then Some \<lparr>slots = [n], width = 8\<rparr>
      else if sz = 16 then Some \<lparr>slots = [n, n + 1], width = 8\<rparr>
      else None)"

definition union_value :: "(nat \<Rightarrow> u64) \<Rightarrow> union_arg \<Rightarrow> int list" where
  "union_value ctx u = map (\<lambda>n. uint (ctx n) mod 2 ^ (8 * width u)) (slots u)"

fun bpf_ctx_argn :: "nat \<Rightarrow> nat \<Rightarrow> parg list \<Rightarrow> union_arg list option" where
  "bpf_ctx_argn 0 n args = Some []"
| "bpf_ctx_argn (Suc k) n (Ty t # Nm x # args) =
     (case bpf_reg_cntn (Suc k) (Ty t # Nm x # args) of
        None \<Rightarrow> None
      | Some c \<Rightarrow>
          (case (bpf_union_arg t (n - c), bpf_ctx_argn k n args) of
             (Some u, Some us) \<Rightarrow> Some (u # us) | _ \<Rightarrow> None))"
| "bpf_ctx_argn _ _ _ = None"

definition bpf_ctx_arg :: "parg list \<Rightarrow> union_arg list option" where
  "bpf_ctx_arg args =
     (case bpf_reg_cnt args of
        None \<Rightarrow> None
      | Some n \<Rightarrow>
          (case bpf_apply bpf_ctx_argn 12 (bpf_narg2 args) of None \<Rightarrow> None | Some f \<Rightarrow> f n args))"

fun bpf_ctx_decln :: "nat \<Rightarrow> parg list \<Rightarrow> (nat \<times> string) list option" where
  "bpf_ctx_decln 0 [] = Some []"
| "bpf_ctx_decln (Suc n) (Ty t # Nm x # args) = map_option (\<lambda>ds. (t, x) # ds) (bpf_ctx_decln n args)"
| "bpf_ctx_decln _ _ = None"

definition bpf_ctx_decl :: "parg list \<Rightarrow> (nat \<times> string) list option" where
  "bpf_ctx_decl args =
     (case bpf_apply bpf_ctx_decln 12 (bpf_narg2 args) of None \<Rightarrow> None | Some f \<Rightarrow> f args)"

definition BPF_PROG2 :: "parg list \<Rightarrow> ((nat \<times> string) list \<times> union_arg list) option" where
  "BPF_PROG2 args =
     (case (bpf_ctx_decl args, bpf_ctx_arg args) of
        (Some ds, Some us) \<Rightarrow> Some (ds, us) | _ \<Rightarrow> None)"

subsection \<open>Kprobes\<close>

fun bpf_kprobe_argsn :: "pt_macros option \<Rightarrow> nat \<Rightarrow> 'a list \<Rightarrow> cexpr list option" where
  "bpf_kprobe_argsn M 0 [] = Some [Ctx]"
| "bpf_kprobe_argsn M (Suc n) (x # args) =
     map_option (\<lambda>es. es @ [PT_REGS_PARM M (Suc n) Ctx]) (bpf_kprobe_argsn M n args)"
| "bpf_kprobe_argsn M _ _ = None"

definition bpf_kprobe_args :: "pt_macros option \<Rightarrow> 'a list \<Rightarrow> cexpr list option" where
  "bpf_kprobe_args M = numbered (bpf_kprobe_argsn M) 8"

definition BPF_KPROBE :: "pt_macros option \<Rightarrow> 'a list \<Rightarrow> 'a prog option" where
  "BPF_KPROBE M args =
     map_option (\<lambda>es. \<lparr>body_params = args, call_args = es\<rparr>) (bpf_kprobe_args M args)"

fun bpf_kretprobe_argsn :: "pt_macros option \<Rightarrow> nat \<Rightarrow> 'a list \<Rightarrow> cexpr list option" where
  "bpf_kretprobe_argsn M 0 [] = Some [Ctx]"
| "bpf_kretprobe_argsn M (Suc 0) [x] =
     map_option (\<lambda>es. es @ [PT_REGS_RC M Ctx]) (bpf_kretprobe_argsn M 0 ([] :: 'a list))"
| "bpf_kretprobe_argsn M _ _ = None"

definition bpf_kretprobe_args :: "pt_macros option \<Rightarrow> 'a list \<Rightarrow> cexpr list option" where
  "bpf_kretprobe_args M = numbered (bpf_kretprobe_argsn M) 1"

definition BPF_KRETPROBE :: "pt_macros option \<Rightarrow> 'a list \<Rightarrow> 'a prog option" where
  "BPF_KRETPROBE M args =
     map_option (\<lambda>es. \<lparr>body_params = args, call_args = es\<rparr>) (bpf_kretprobe_args M args)"

subsection \<open>System calls\<close>

fun bpf_syscall_argsn :: "pt_macros option \<Rightarrow> nat \<Rightarrow> 'a list \<Rightarrow> cexpr list option" where
  "bpf_syscall_argsn M 0 [] = Some [Ctx]"
| "bpf_syscall_argsn M (Suc n) (x # args) =
     map_option (\<lambda>es. es @ [PT_REGS_PARM_SYSCALL M (Suc n) Regs]) (bpf_syscall_argsn M n args)"
| "bpf_syscall_argsn M _ _ = None"

definition bpf_syscall_args :: "pt_macros option \<Rightarrow> 'a list \<Rightarrow> cexpr list option" where
  "bpf_syscall_args M = numbered (bpf_syscall_argsn M) 7"

fun bpf_syswrap_argsn :: "pt_macros option \<Rightarrow> nat \<Rightarrow> 'a list \<Rightarrow> cexpr list option" where
  "bpf_syswrap_argsn M 0 [] = Some [Ctx]"
| "bpf_syswrap_argsn M (Suc n) (x # args) =
     map_option (\<lambda>es. es @ [PT_REGS_PARM_CORE_SYSCALL M (Suc n) Regs]) (bpf_syswrap_argsn M n args)"
| "bpf_syswrap_argsn M _ _ = None"

definition bpf_syswrap_args :: "pt_macros option \<Rightarrow> 'a list \<Rightarrow> cexpr list option" where
  "bpf_syswrap_args M = numbered (bpf_syswrap_argsn M) 7"

text \<open>
  \<^verbatim>\<open>BPF_KSYSCALL\<close>: the local \<^verbatim>\<open>regs\<close> and the call of the body, by \<^verbatim>\<open>LINUX_HAS_SYSCALL_WRAPPER\<close>. Both
  branches are compiled, so both argument lists must expand.
\<close>

record 'a ksyscall =
  ks_params :: "'a list"
  ks_regs :: "bool \<Rightarrow> cexpr"
  ks_wrapped :: "cexpr list"
  ks_plain :: "cexpr list"

definition BPF_KSYSCALL :: "pt_macros option \<Rightarrow> 'a list \<Rightarrow> 'a ksyscall option" where
  "BPF_KSYSCALL M args =
     (case (bpf_syswrap_args M args, bpf_syscall_args M args) of
        (Some ws, Some ps) \<Rightarrow>
          Some \<lparr>ks_params = args,
                ks_regs = (\<lambda>has_wrapper. if has_wrapper then PT_REGS_PARM M 1 Ctx else Ctx),
                ks_wrapped = ws, ks_plain = ps\<rparr>
      | _ \<Rightarrow> None)"

definition ksyscall_values :: "cenv \<Rightarrow> bool \<Rightarrow> 'a ksyscall \<Rightarrow> u64 list option" where
  "ksyscall_values E has_wrapper ks =
     (case ceval E (ks_regs ks has_wrapper) of
        None \<Rightarrow> None
      | Some r \<Rightarrow> those (map (ceval (E\<lparr>ev_regs := r\<rparr>))
          (if has_wrapper then ks_wrapped ks else ks_plain ks)))"

definition BPF_UPROBE :: "pt_macros option \<Rightarrow> 'a list \<Rightarrow> 'a prog option" where
  "BPF_UPROBE = BPF_KPROBE"

definition BPF_URETPROBE :: "pt_macros option \<Rightarrow> 'a list \<Rightarrow> 'a prog option" where
  "BPF_URETPROBE = BPF_KRETPROBE"

subsection \<open>The contract of a numbered family\<close>

locale arg_family =
  fixes fam :: "nat \<Rightarrow> 'a list \<Rightarrow> 'e list option" and base :: 'e and slot :: "nat \<Rightarrow> 'e" and limit :: nat
  assumes fam_0: "fam 0 [] = Some [base]"
    and fam_Suc: "Suc n \<le> limit \<Longrightarrow> length args = n \<Longrightarrow>
      fam (Suc n) (x # args) = map_option (\<lambda>es. es @ [slot (Suc n)]) (fam n args)"
    and limit_le: "limit \<le> 12"
begin

lemma fam_expand: "length args \<le> limit \<Longrightarrow> fam (length args) args = Some (base # map slot [1..<Suc (length args)])"
proof (induction args)
  case Nil
  then show ?case by (simp add: fam_0)
next
  case (Cons x args)
  then show ?case using fam_Suc [of "length args" args x] by simp
qed

lemma numbered_expand:
  "numbered fam limit args =
     (if length args \<le> limit then Some (base # map slot [1..<Suc (length args)]) else None)"
proof (cases "length args \<le> 12")
  case True
  then show ?thesis using fam_expand [of args] limit_le
    by (simp add: numbered_def bpf_apply_def bpf_narg_le)
next
  case False
  then show ?thesis using limit_le by (simp add: numbered_def bpf_apply_def bpf_narg_gt)
qed

end

interpretation ctx_cast: arg_family bpf_ctx_castn Ctx "\<lambda>n. CtxAt (n - 1)" 12
  by unfold_locales simp_all

interpretation kprobe: arg_family "bpf_kprobe_argsn M" Ctx "\<lambda>n. PT_REGS_PARM M n Ctx" 8 for M
  by unfold_locales simp_all

interpretation kretprobe: arg_family "bpf_kretprobe_argsn M" Ctx "\<lambda>_. PT_REGS_RC M Ctx" 1 for M
  by unfold_locales simp_all

interpretation syscall: arg_family "bpf_syscall_argsn M" Ctx "\<lambda>n. PT_REGS_PARM_SYSCALL M n Regs" 7 for M
  by unfold_locales simp_all

interpretation syswrap: arg_family "bpf_syswrap_argsn M" Ctx "\<lambda>n. PT_REGS_PARM_CORE_SYSCALL M n Regs" 7 for M
  by unfold_locales simp_all

lemma those_map: "those (map f xs) = (if \<forall>x \<in> set xs. f x \<noteq> None then Some (map (the \<circ> f) xs) else None)"
  by (induction xs) (auto split: option.splits)

subsection \<open>What the program macros pass\<close>

text \<open>
  \<^verbatim>\<open>BPF_PROG\<close> accepts up to twelve arguments; its body is called with the context and
  then one context word per declared argument, in order. More than twelve are rejected.
\<close>

theorem prog_args:
  "BPF_PROG args =
     (if length args \<le> 12
      then Some \<lparr>body_params = args, call_args = Ctx # map CtxAt [0..<length args]\<rparr> else None)"
proof -
  have "map (\<lambda>n. CtxAt (n - 1)) [1..<Suc n] = map CtxAt [0..<n]" for n
    by (induction n) simp_all
  then show ?thesis
    by (simp add: BPF_PROG_def bpf_ctx_cast_def ctx_cast.numbered_expand del: upt_Suc)
qed

text \<open>
  Evaluating a family's expansion: when the slots up to \<open>L\<close> compile and no later one does, the
  call compiles exactly for up to \<open>L\<close> arguments.
\<close>

lemma family_values:
  assumes c: "\<And>n. 1 \<le> n \<Longrightarrow> ceval E (slot n) = (if L < n then None else Some (v n))"
  shows "those (map (ceval E) (Ctx # map slot [1..<Suc k])) =
    (if k \<le> L then Some (ev_ctx E # map v [1..<Suc k]) else None)"
proof (cases "k \<le> L")
  case True
  then have "those (map (ceval E) (map slot [1..<Suc k])) = Some (map v [1..<Suc k])"
    unfolding those_map by (auto simp: c simp del: upt_Suc)
  with True show ?thesis by (simp del: upt_Suc)
next
  case False
  then have "those (map (ceval E) (map slot [1..<Suc k])) = None"
    using c [of k] unfolding those_map by (auto simp del: upt_Suc)
  with False show ?thesis by (simp del: upt_Suc)
qed

text \<open>
  On every architecture a \<^verbatim>\<open>BPF_KPROBE\<close> handler with \<open>n\<close> arguments compiles exactly
  when the architecture passes \<open>n\<close> arguments in registers, and then its body gets the context and
  the parameter registers in order.
\<close>

theorem kprobe_values:
  fixes P t defines "A \<equiv> target_macros P t"
  shows "(case BPF_KPROBE (Some A) args of None \<Rightarrow> None
          | Some pr \<Rightarrow> those (map (ceval E) (call_args pr))) =
     (if length args \<le> length (parm_reg A)
      then Some (ev_ctx E # map (\<lambda>r. ev_member E (regs_cast A) r (ev_ctx E)) (take (length args) (parm_reg A)))
      else None)"
proof -
  let ?n = "length args" and ?v = "\<lambda>n. ev_member E (regs_cast A) (parm_reg A ! (n - 1)) (ev_ctx E)"
  have snd: "sound_macros A" unfolding A_def by (rule target_macros_sound)
  then have l8: "length (parm_reg A) \<le> 8" by (simp add: sound_macros_def)
  have "ceval E (PT_REGS_PARM (Some A) n Ctx) = (if length (parm_reg A) < n then None else Some (?v n))"
    if "1 \<le> n" for n
    using parm_supported [OF snd that] by (auto simp: PT_REGS_PARM_def PT_PARM_REG_def)
  note vals = family_values [where slot = "\<lambda>n. PT_REGS_PARM (Some A) n Ctx" and v = ?v, OF this, of ?n]
  have "map ?v [1..<Suc ?n] = map (\<lambda>r. ev_member E (regs_cast A) r (ev_ctx E)) (take ?n (parm_reg A))"
    if "?n \<le> length (parm_reg A)"
    using that by (intro nth_equalityI) (simp_all del: upt_Suc add: nth_upt)
  with vals l8 show ?thesis
    by (simp add: BPF_KPROBE_def bpf_kprobe_args_def kprobe.numbered_expand del: upt_Suc)
qed

text \<open>
  C37 (ksyscall_args). On every architecture, with and without syscall wrappers, a \<^verbatim>\<open>BPF_KSYSCALL\<close>
  handler compiles exactly for as many arguments as the architecture has syscall registers. Its
  body then gets the context and, in order, the syscall registers: of the registers the first
  parameter points to when the kernel has syscall wrappers, of the context itself otherwise.
\<close>

theorem ksyscall_args:
  fixes P t E has_wrapper
  defines "A \<equiv> target_macros P t"
  assumes "core_read_contract E"
  defines "r \<equiv> (if has_wrapper then ev_member E (regs_cast A) (parm_reg A ! 0) (ev_ctx E) else ev_ctx E)"
  shows "Option.bind (BPF_KSYSCALL (Some A) args) (ksyscall_values E has_wrapper) =
    (if length args \<le> length (syscall_reg A)
     then Some (ev_ctx E # map (\<lambda>n. ev_member E (syscall_struct A n) (PT_PARM_SYSCALL_REG A n) r)
                             [1..<Suc (length args)])
     else None)"
proof -
  let ?n = "length args" and ?E = "E\<lparr>ev_regs := r\<rparr>"
    and ?v = "\<lambda>n. ev_member E (syscall_struct A n) (PT_PARM_SYSCALL_REG A n) r"
  have snd: "sound_macros A" unfolding A_def by (rule target_macros_sound)
  then have l7: "length (syscall_reg A) \<le> 7" and p1: "PT_PARM_REG A 1 = parm_reg A ! 0"
      "PT_PARM_REG A 1 \<noteq> Unsupported"
    using parm_supported [OF snd, of 1] by (auto simp: sound_macros_def PT_PARM_REG_def)
  have "ceval ?E (PT_REGS_PARM_SYSCALL (Some A) n Regs) =
      (if length (syscall_reg A) < n then None else Some (?v n))" if "1 \<le> n" for n
    using syscall_supported [OF snd that] by auto
  note plain = family_values [where slot = "\<lambda>n. PT_REGS_PARM_SYSCALL (Some A) n Regs" and v = ?v, OF this, of ?n]
  have "ceval ?E (PT_REGS_PARM_CORE_SYSCALL (Some A) n Regs) =
      (if length (syscall_reg A) < n then None else Some (?v n))" if "1 \<le> n" for n
    using syscall_supported [OF snd that] assms(2) by (auto simp: core_read_contract_def)
  note wrapped = family_values [where slot = "\<lambda>n. PT_REGS_PARM_CORE_SYSCALL (Some A) n Regs" and v = ?v, OF this, of ?n]
  have "ceval E (if has_wrapper then PT_REGS_PARM (Some A) 1 Ctx else Ctx) = Some r"
    using p1 by (simp add: r_def PT_REGS_PARM_def)
  then show ?thesis
    using plain wrapped l7
    by (simp add: BPF_KSYSCALL_def bpf_syscall_args_def bpf_syswrap_args_def syscall.numbered_expand
        syswrap.numbered_expand ksyscall_values_def del: upt_Suc)
qed

text \<open>On x86 with the kernel's headers, \<^verbatim>\<open>close(fd)\<close> behind a wrapper: the descriptor is the \<^verbatim>\<open>di\<close> of the inner registers.\<close>

theorem ksyscall_args_witness:
  "Option.bind (BPF_KSYSCALL (Some (target_macros \<lparr>defd = (\<lambda>m. m = ''__VMLINUX_H__''), riscv_xlen = 0\<rparr> X86)) [()])
     (ksyscall_values
        \<lparr>ev_ctx = 100, ev_regs = 0, ev_slot = (\<lambda>_. 0),
         ev_member = (\<lambda>st r x. if r = Fld ''di'' then (if x = 100 then 200 else if x = 200 then 3 else 0) else 0),
         ev_core = (\<lambda>st r x. if r = Fld ''di'' then (if x = 100 then 200 else if x = 200 then 3 else 0) else 0)\<rparr>
        True) = Some [100, 3]"
  by (subst ksyscall_args)
    (simp_all add: core_read_contract_def target_macros_def x86_kernel_def PT_PARM_SYSCALL_REG_def PT_PARM_REG_def)

subsection \<open>BPF\_PROG2 reads the context without gaps\<close>

definition flat_args :: "(nat \<times> string) list \<Rightarrow> parg list" where
  "flat_args items = concat (map (\<lambda>(t, x). [Ty t, Nm x]) items)"

definition words_of :: "nat \<Rightarrow> nat" where
  "words_of t = (if t = 16 then 2 else 1)"

definition total_words :: "(nat \<times> string) list \<Rightarrow> nat" where
  "total_words items = sum_list (map (words_of \<circ> fst) items)"

lemma flat_args_simps [simp]:
  "flat_args [] = []" "flat_args ((t, x) # items) = Ty t # Nm x # flat_args items"
  "total_words [] = 0" "total_words ((t, x) # items) = words_of t + total_words items"
  by (simp_all add: flat_args_def total_words_def)

lemma length_flat_args [simp]: "length (flat_args items) = 2 * length items"
  by (induction items) auto

lemma narg2_table:
  "[12, 12, 11, 11, 10, 10, 9, 9, 8, 8, 7, 7, 6, 6, 5, 5, 4, 4, 3, 3, 2, 2, 1, 1, 0 :: nat] =
     map (\<lambda>i. (25 - i) div 2) [0..<25]"
  by code_simp

lemma bpf_narg2_flat:
  assumes "length items \<le> 12"
  shows "bpf_narg2 (flat_args items) = Some (Tok (length items))"
  using assms unfolding bpf_narg2_def narg2_table
  by (simp add: bpf_nth2_def nth_append del: upt_Suc upt_rec_numeral)

abbreviation sized :: "(nat \<times> string) list \<Rightarrow> bool" where
  "sized items \<equiv> \<forall>(t, x) \<in> set items. t \<in> {1, 2, 4, 8, 16}"

lemma treg_cnt: "t \<in> {1, 2, 4, 8, 16} \<Longrightarrow> bpf_treg_cnt t = Some (words_of t)"
  by (auto simp: bpf_treg_cnt_def words_of_def)

lemma union_arg_slots:
  "t \<in> {1, 2, 4, 8, 16} \<Longrightarrow> bpf_union_arg t n = Some \<lparr>slots = [n..<n + words_of t], width = min t 8\<rparr>"
  by (auto simp: bpf_union_arg_def words_of_def upt_rec)

lemma reg_cntn_flat:
  "sized items \<Longrightarrow> bpf_reg_cntn (length items) (flat_args items) = Some (total_words items)"
  by (induction items) (auto simp: treg_cnt)

lemma ctx_decln_flat: "bpf_ctx_decln (length items) (flat_args items) = Some items"
  by (induction items) auto

lemma ctx_argn_flat:
  "sized items \<Longrightarrow> total_words items \<le> n \<Longrightarrow>
   \<exists>us. bpf_ctx_argn (length items) n (flat_args items) = Some us \<and>
     map width us = map (\<lambda>(t, x). min t 8) items \<and>
     map (length \<circ> slots) us = map (words_of \<circ> fst) items \<and>
     concat (map slots us) = [n - total_words items..<n]"
proof (induction items)
  case (Cons it items)
  obtain t x where it: "it = (t, x)" by force
  have t: "t \<in> {1, 2, 4, 8, 16}" and sz: "sized items" using Cons.prems(1) it by auto
  have "total_words items \<le> n" using Cons.prems(2) it by simp
  from Cons.IH [OF sz this] obtain us where us: "bpf_ctx_argn (length items) n (flat_args items) = Some us"
      "map width us = map (\<lambda>(t, x). min t 8) items"
      "map (length \<circ> slots) us = map (words_of \<circ> fst) items"
      "concat (map slots us) = [n - total_words items..<n]"
    by blast
  let ?m = "n - (words_of t + total_words items)"
  have "[?m..<?m + words_of t] @ [n - total_words items..<n] = [?m..<n]"
    using upt_add_eq_append [of ?m "?m + words_of t" "total_words items"] Cons.prems(2) it by simp
  moreover have "bpf_reg_cntn (Suc (length items)) (Ty t # Nm x # flat_args items) =
      Some (words_of t + total_words items)"
    using reg_cntn_flat [OF Cons.prems(1)] it by simp
  ultimately show ?case
    using us it union_arg_slots [OF t, of ?m] by (simp add: comp_def)
qed simp

text \<open>
  C38 (prog2_tiling). For up to twelve arguments of 1, 2, 4, 8 or 16 bytes, \<^verbatim>\<open>BPF_PROG2\<close> declares
  the body's parameters as written and passes each the context words that belong to it: the
  words read are all words from 0 in order, each read once, two for a 16-byte argument and one
  for any other, cut to the argument's size.
\<close>

theorem prog2_tiling:
  assumes "length items \<le> 12" and "sized items"
  shows "\<exists>us. BPF_PROG2 (flat_args items) = Some (items, us) \<and>
    map width us = map (\<lambda>(t, x). min t 8) items \<and>
    map (length \<circ> slots) us = map (words_of \<circ> fst) items \<and>
    concat (map slots us) = [0..<total_words items]"
  using ctx_argn_flat [OF assms(2) order_refl] reg_cntn_flat [OF assms(2)] ctx_decln_flat [of items] assms(1)
  by (auto simp: BPF_PROG2_def bpf_ctx_decl_def bpf_ctx_arg_def bpf_reg_cnt_def bpf_apply_def bpf_narg2_flat)

theorem prog2_tiling_witness:
  "\<exists>us. BPF_PROG2 [Ty 16, Nm ''a'', Ty 4, Nm ''b'', Ty 8, Nm ''c''] =
      Some ([(16, ''a''), (4, ''b''), (8, ''c'')], us) \<and>
    map width us = [8, 4, 8] \<and> concat (map slots us) = [0, 1, 2, 3]"
proof -
  have "[0..<4] = [0, 1, 2, 3 :: nat]" by (simp add: upt_rec)
  then show ?thesis
    using prog2_tiling [of "[(16, ''a''), (4, ''b''), (8, ''c'')]"] by (auto simp: words_of_def)
qed

end
