(* ===== verification/Helper_Defs.thy ===== *)
theory Helper_Defs
  imports Bpf_Helpers
begin

text \<open>
  The table of \<^verbatim>\<open>include/bpf/bpf_helper_defs.h\<close>: one constant function pointer per BPF helper, whose
  value is the number the kernel dispatches on. Each declaration is one entry: number, name,
  return type and parameters, and what its documentation says of the result (that it can be a
  negative error, or a null pointer). Declarations are grouped as they appear in the header.
\<close>

subsection \<open>Declarations\<close>

datatype ctype =
    Void | Char | CInt | Long | ULong | U16 | U32 | U64 | S32 | S64 | Be16 | Be32 | Wsum
  | Struct string | Ptr ctype | Const ctype

datatype param = P ctype string | Variadic

text \<open>Attributes: \<^verbatim>\<open>__bpf_fastcall\<close>, and the two documented kinds of failing results.\<close>

datatype attr = Fastcall | DocNegative | DocNull

datatype helper =
  Helper (h_id: nat) (h_name: string) (h_ret: ctype) (h_params: "param list") (h_attrs: "attr list")

definition forward_structs :: "string list" where
  "forward_structs =
     [''bpf_fib_lookup'', ''bpf_sk_lookup'', ''bpf_perf_event_data'', ''bpf_perf_event_value'',
      ''bpf_pidns_info'', ''bpf_redir_neigh'', ''bpf_sock'', ''bpf_sock_addr'',
      ''bpf_sock_ops'', ''bpf_sock_tuple'', ''bpf_spin_lock'', ''bpf_sysctl'',
      ''bpf_tcp_sock'', ''bpf_tunnel_key'', ''bpf_xfrm_state'', ''linux_binprm'',
      ''pt_regs'', ''sk_reuseport_md'', ''sockaddr'', ''tcphdr'',
      ''seq_file'', ''tcp6_sock'', ''tcp_sock'', ''tcp_timewait_sock'',
      ''tcp_request_sock'', ''udp6_sock'', ''unix_sock'', ''task_struct'',
      ''cgroup'', ''__sk_buff'', ''sk_msg_md'', ''xdp_md'',
      ''path'', ''btf_ptr'', ''inode'', ''socket'',
      ''file'', ''bpf_timer'', ''mptcp_sock'', ''bpf_dynptr'',
      ''iphdr'', ''ipv6hdr'']"

definition helpers_1_7 :: "helper list" where
  "helpers_1_7 =
     [Helper 1 ''bpf_map_lookup_elem'' (Ptr Void)
       [P (Ptr Void) ''map'', P (Ptr (Const Void)) ''key''] [DocNull],
      Helper 2 ''bpf_map_update_elem'' Long
       [P (Ptr Void) ''map'', P (Ptr (Const Void)) ''key'', P (Ptr (Const Void)) ''value'', P U64 ''flags''] [DocNegative],
      Helper 3 ''bpf_map_delete_elem'' Long
       [P (Ptr Void) ''map'', P (Ptr (Const Void)) ''key''] [DocNegative],
      Helper 4 ''bpf_probe_read'' Long
       [P (Ptr Void) ''dst'', P U32 ''size'', P (Ptr (Const Void)) ''unsafe_ptr''] [DocNegative],
      Helper 5 ''bpf_ktime_get_ns'' U64
       [] [],
      Helper 6 ''bpf_trace_printk'' Long
       [P (Ptr (Const Char)) ''fmt'', P U32 ''fmt_size'', Variadic] [DocNegative],
      Helper 7 ''bpf_get_prandom_u32'' U32
       [] []]"

definition helpers_8_12 :: "helper list" where
  "helpers_8_12 =
     [Helper 8 ''bpf_get_smp_processor_id'' U32
       [] [Fastcall],
      Helper 9 ''bpf_skb_store_bytes'' Long
       [P (Ptr (Struct ''__sk_buff'')) ''skb'', P U32 ''offset'', P (Ptr (Const Void)) ''from'', P U32 ''len'', P U64 ''flags''] [DocNegative],
      Helper 10 ''bpf_l3_csum_replace'' Long
       [P (Ptr (Struct ''__sk_buff'')) ''skb'', P U32 ''offset'', P U64 ''from'', P U64 ''to'', P U64 ''size''] [DocNegative],
      Helper 11 ''bpf_l4_csum_replace'' Long
       [P (Ptr (Struct ''__sk_buff'')) ''skb'', P U32 ''offset'', P U64 ''from'', P U64 ''to'', P U64 ''flags''] [DocNegative],
      Helper 12 ''bpf_tail_call'' Long
       [P (Ptr Void) ''ctx'', P (Ptr Void) ''prog_array_map'', P U32 ''index''] [DocNegative]]"

definition helpers_13_19 :: "helper list" where
  "helpers_13_19 =
     [Helper 13 ''bpf_clone_redirect'' Long
       [P (Ptr (Struct ''__sk_buff'')) ''skb'', P U32 ''ifindex'', P U64 ''flags''] [DocNegative],
      Helper 14 ''bpf_get_current_pid_tgid'' U64
       [] [],
      Helper 15 ''bpf_get_current_uid_gid'' U64
       [] [],
      Helper 16 ''bpf_get_current_comm'' Long
       [P (Ptr Void) ''buf'', P U32 ''size_of_buf''] [DocNegative],
      Helper 17 ''bpf_get_cgroup_classid'' U32
       [P (Ptr (Struct ''__sk_buff'')) ''skb''] [],
      Helper 18 ''bpf_skb_vlan_push'' Long
       [P (Ptr (Struct ''__sk_buff'')) ''skb'', P Be16 ''vlan_proto'', P U16 ''vlan_tci''] [DocNegative],
      Helper 19 ''bpf_skb_vlan_pop'' Long
       [P (Ptr (Struct ''__sk_buff'')) ''skb''] [DocNegative]]"

definition helpers_20_22 :: "helper list" where
  "helpers_20_22 =
     [Helper 20 ''bpf_skb_get_tunnel_key'' Long
       [P (Ptr (Struct ''__sk_buff'')) ''skb'', P (Ptr (Struct ''bpf_tunnel_key'')) ''key'', P U32 ''size'', P U64 ''flags''] [DocNegative],
      Helper 21 ''bpf_skb_set_tunnel_key'' Long
       [P (Ptr (Struct ''__sk_buff'')) ''skb'', P (Ptr (Struct ''bpf_tunnel_key'')) ''key'', P U32 ''size'', P U64 ''flags''] [DocNegative],
      Helper 22 ''bpf_perf_event_read'' U64
       [P (Ptr Void) ''map'', P U64 ''flags''] [DocNegative]]"

definition helpers_23_26 :: "helper list" where
  "helpers_23_26 =
     [Helper 23 ''bpf_redirect'' Long
       [P U32 ''ifindex'', P U64 ''flags''] [],
      Helper 24 ''bpf_get_route_realm'' U32
       [P (Ptr (Struct ''__sk_buff'')) ''skb''] [],
      Helper 25 ''bpf_perf_event_output'' Long
       [P (Ptr Void) ''ctx'', P (Ptr Void) ''map'', P U64 ''flags'', P (Ptr Void) ''data'', P U64 ''size''] [DocNegative],
      Helper 26 ''bpf_skb_load_bytes'' Long
       [P (Ptr (Const Void)) ''skb'', P U32 ''offset'', P (Ptr Void) ''to'', P U32 ''len''] [DocNegative]]"

definition helpers_27_31 :: "helper list" where
  "helpers_27_31 =
     [Helper 27 ''bpf_get_stackid'' Long
       [P (Ptr Void) ''ctx'', P (Ptr Void) ''map'', P U64 ''flags''] [DocNegative],
      Helper 28 ''bpf_csum_diff'' S64
       [P (Ptr Be32) ''from'', P U32 ''from_size'', P (Ptr Be32) ''to'', P U32 ''to_size'', P Wsum ''seed''] [DocNegative],
      Helper 29 ''bpf_skb_get_tunnel_opt'' Long
       [P (Ptr (Struct ''__sk_buff'')) ''skb'', P (Ptr Void) ''opt'', P U32 ''size''] [],
      Helper 30 ''bpf_skb_set_tunnel_opt'' Long
       [P (Ptr (Struct ''__sk_buff'')) ''skb'', P (Ptr Void) ''opt'', P U32 ''size''] [DocNegative],
      Helper 31 ''bpf_skb_change_proto'' Long
       [P (Ptr (Struct ''__sk_buff'')) ''skb'', P Be16 ''proto'', P U64 ''flags''] [DocNegative]]"

definition helpers_32_38 :: "helper list" where
  "helpers_32_38 =
     [Helper 32 ''bpf_skb_change_type'' Long
       [P (Ptr (Struct ''__sk_buff'')) ''skb'', P U32 ''type''] [DocNegative],
      Helper 33 ''bpf_skb_under_cgroup'' Long
       [P (Ptr (Struct ''__sk_buff'')) ''skb'', P (Ptr Void) ''map'', P U32 ''index''] [DocNegative],
      Helper 34 ''bpf_get_hash_recalc'' U32
       [P (Ptr (Struct ''__sk_buff'')) ''skb''] [],
      Helper 35 ''bpf_get_current_task'' U64
       [] [],
      Helper 36 ''bpf_probe_write_user'' Long
       [P (Ptr Void) ''dst'', P (Ptr (Const Void)) ''src'', P U32 ''len''] [DocNegative],
      Helper 37 ''bpf_current_task_under_cgroup'' Long
       [P (Ptr Void) ''map'', P U32 ''index''] [DocNegative],
      Helper 38 ''bpf_skb_change_tail'' Long
       [P (Ptr (Struct ''__sk_buff'')) ''skb'', P U32 ''len'', P U64 ''flags''] [DocNegative]]"

definition helpers_39_45 :: "helper list" where
  "helpers_39_45 =
     [Helper 39 ''bpf_skb_pull_data'' Long
       [P (Ptr (Struct ''__sk_buff'')) ''skb'', P U32 ''len''] [DocNegative],
      Helper 40 ''bpf_csum_update'' S64
       [P (Ptr (Struct ''__sk_buff'')) ''skb'', P Wsum ''csum''] [DocNegative],
      Helper 41 ''bpf_set_hash_invalid'' Void
       [P (Ptr (Struct ''__sk_buff'')) ''skb''] [],
      Helper 42 ''bpf_get_numa_node_id'' Long
       [] [],
      Helper 43 ''bpf_skb_change_head'' Long
       [P (Ptr (Struct ''__sk_buff'')) ''skb'', P U32 ''len'', P U64 ''flags''] [DocNegative],
      Helper 44 ''bpf_xdp_adjust_head'' Long
       [P (Ptr (Struct ''xdp_md'')) ''xdp_md'', P CInt ''delta''] [DocNegative],
      Helper 45 ''bpf_probe_read_str'' Long
       [P (Ptr Void) ''dst'', P U32 ''size'', P (Ptr (Const Void)) ''unsafe_ptr''] [DocNegative]]"

definition helpers_46_50 :: "helper list" where
  "helpers_46_50 =
     [Helper 46 ''bpf_get_socket_cookie'' U64
       [P (Ptr Void) ''ctx''] [],
      Helper 47 ''bpf_get_socket_uid'' U32
       [P (Ptr (Struct ''__sk_buff'')) ''skb''] [],
      Helper 48 ''bpf_set_hash'' Long
       [P (Ptr (Struct ''__sk_buff'')) ''skb'', P U32 ''hash''] [],
      Helper 49 ''bpf_setsockopt'' Long
       [P (Ptr Void) ''bpf_socket'', P CInt ''level'', P CInt ''optname'', P (Ptr Void) ''optval'', P CInt ''optlen''] [DocNegative],
      Helper 50 ''bpf_skb_adjust_room'' Long
       [P (Ptr (Struct ''__sk_buff'')) ''skb'', P S32 ''len_diff'', P U32 ''mode'', P U64 ''flags''] [DocNegative]]"

definition helpers_51_54 :: "helper list" where
  "helpers_51_54 =
     [Helper 51 ''bpf_redirect_map'' Long
       [P (Ptr Void) ''map'', P U64 ''key'', P U64 ''flags''] [],
      Helper 52 ''bpf_sk_redirect_map'' Long
       [P (Ptr (Struct ''__sk_buff'')) ''skb'', P (Ptr Void) ''map'', P U32 ''key'', P U64 ''flags''] [],
      Helper 53 ''bpf_sock_map_update'' Long
       [P (Ptr (Struct ''bpf_sock_ops'')) ''skops'', P (Ptr Void) ''map'', P (Ptr Void) ''key'', P U64 ''flags''] [DocNegative],
      Helper 54 ''bpf_xdp_adjust_meta'' Long
       [P (Ptr (Struct ''xdp_md'')) ''xdp_md'', P CInt ''delta''] [DocNegative]]"

definition helpers_55_58 :: "helper list" where
  "helpers_55_58 =
     [Helper 55 ''bpf_perf_event_read_value'' Long
       [P (Ptr Void) ''map'', P U64 ''flags'', P (Ptr (Struct ''bpf_perf_event_value'')) ''buf'', P U32 ''buf_size''] [DocNegative],
      Helper 56 ''bpf_perf_prog_read_value'' Long
       [P (Ptr (Struct ''bpf_perf_event_data'')) ''ctx'', P (Ptr (Struct ''bpf_perf_event_value'')) ''buf'', P U32 ''buf_size''] [DocNegative],
      Helper 57 ''bpf_getsockopt'' Long
       [P (Ptr Void) ''bpf_socket'', P CInt ''level'', P CInt ''optname'', P (Ptr Void) ''optval'', P CInt ''optlen''] [DocNegative],
      Helper 58 ''bpf_override_return'' Long
       [P (Ptr (Struct ''pt_regs'')) ''regs'', P U64 ''rc''] []]"

definition helpers_59_62 :: "helper list" where
  "helpers_59_62 =
     [Helper 59 ''bpf_sock_ops_cb_flags_set'' Long
       [P (Ptr (Struct ''bpf_sock_ops'')) ''bpf_sock'', P CInt ''argval''] [DocNegative],
      Helper 60 ''bpf_msg_redirect_map'' Long
       [P (Ptr (Struct ''sk_msg_md'')) ''msg'', P (Ptr Void) ''map'', P U32 ''key'', P U64 ''flags''] [],
      Helper 61 ''bpf_msg_apply_bytes'' Long
       [P (Ptr (Struct ''sk_msg_md'')) ''msg'', P U32 ''bytes''] [],
      Helper 62 ''bpf_msg_cork_bytes'' Long
       [P (Ptr (Struct ''sk_msg_md'')) ''msg'', P U32 ''bytes''] []]"

definition helpers_63_67 :: "helper list" where
  "helpers_63_67 =
     [Helper 63 ''bpf_msg_pull_data'' Long
       [P (Ptr (Struct ''sk_msg_md'')) ''msg'', P U32 ''start'', P U32 ''end'', P U64 ''flags''] [DocNegative],
      Helper 64 ''bpf_bind'' Long
       [P (Ptr (Struct ''bpf_sock_addr'')) ''ctx'', P (Ptr (Struct ''sockaddr'')) ''addr'', P CInt ''addr_len''] [DocNegative],
      Helper 65 ''bpf_xdp_adjust_tail'' Long
       [P (Ptr (Struct ''xdp_md'')) ''xdp_md'', P CInt ''delta''] [DocNegative],
      Helper 66 ''bpf_skb_get_xfrm_state'' Long
       [P (Ptr (Struct ''__sk_buff'')) ''skb'', P U32 ''index'', P (Ptr (Struct ''bpf_xfrm_state'')) ''xfrm_state'', P U32 ''size'', P U64 ''flags''] [DocNegative],
      Helper 67 ''bpf_get_stack'' Long
       [P (Ptr Void) ''ctx'', P (Ptr Void) ''buf'', P U32 ''size'', P U64 ''flags''] [DocNegative]]"

definition helpers_68_72 :: "helper list" where
  "helpers_68_72 =
     [Helper 68 ''bpf_skb_load_bytes_relative'' Long
       [P (Ptr (Const Void)) ''skb'', P U32 ''offset'', P (Ptr Void) ''to'', P U32 ''len'', P U32 ''start_header''] [DocNegative],
      Helper 69 ''bpf_fib_lookup'' Long
       [P (Ptr Void) ''ctx'', P (Ptr (Struct ''bpf_fib_lookup'')) ''params'', P CInt ''plen'', P U32 ''flags''] [DocNegative],
      Helper 70 ''bpf_sock_hash_update'' Long
       [P (Ptr (Struct ''bpf_sock_ops'')) ''skops'', P (Ptr Void) ''map'', P (Ptr Void) ''key'', P U64 ''flags''] [DocNegative],
      Helper 71 ''bpf_msg_redirect_hash'' Long
       [P (Ptr (Struct ''sk_msg_md'')) ''msg'', P (Ptr Void) ''map'', P (Ptr Void) ''key'', P U64 ''flags''] [],
      Helper 72 ''bpf_sk_redirect_hash'' Long
       [P (Ptr (Struct ''__sk_buff'')) ''skb'', P (Ptr Void) ''map'', P (Ptr Void) ''key'', P U64 ''flags''] []]"

definition helpers_73_77 :: "helper list" where
  "helpers_73_77 =
     [Helper 73 ''bpf_lwt_push_encap'' Long
       [P (Ptr (Struct ''__sk_buff'')) ''skb'', P U32 ''type'', P (Ptr Void) ''hdr'', P U32 ''len''] [DocNegative],
      Helper 74 ''bpf_lwt_seg6_store_bytes'' Long
       [P (Ptr (Struct ''__sk_buff'')) ''skb'', P U32 ''offset'', P (Ptr (Const Void)) ''from'', P U32 ''len''] [DocNegative],
      Helper 75 ''bpf_lwt_seg6_adjust_srh'' Long
       [P (Ptr (Struct ''__sk_buff'')) ''skb'', P U32 ''offset'', P S32 ''delta''] [DocNegative],
      Helper 76 ''bpf_lwt_seg6_action'' Long
       [P (Ptr (Struct ''__sk_buff'')) ''skb'', P U32 ''action'', P (Ptr Void) ''param'', P U32 ''param_len''] [DocNegative],
      Helper 77 ''bpf_rc_repeat'' Long
       [P (Ptr Void) ''ctx''] []]"

definition helpers_78_83 :: "helper list" where
  "helpers_78_83 =
     [Helper 78 ''bpf_rc_keydown'' Long
       [P (Ptr Void) ''ctx'', P U32 ''protocol'', P U64 ''scancode'', P U32 ''toggle''] [],
      Helper 79 ''bpf_skb_cgroup_id'' U64
       [P (Ptr (Struct ''__sk_buff'')) ''skb''] [],
      Helper 80 ''bpf_get_current_cgroup_id'' U64
       [] [],
      Helper 81 ''bpf_get_local_storage'' (Ptr Void)
       [P (Ptr Void) ''map'', P U64 ''flags''] [],
      Helper 82 ''bpf_sk_select_reuseport'' Long
       [P (Ptr (Struct ''sk_reuseport_md'')) ''reuse'', P (Ptr Void) ''map'', P (Ptr Void) ''key'', P U64 ''flags''] [DocNegative],
      Helper 83 ''bpf_skb_ancestor_cgroup_id'' U64
       [P (Ptr (Struct ''__sk_buff'')) ''skb'', P CInt ''ancestor_level''] []]"

definition helpers_84_90 :: "helper list" where
  "helpers_84_90 =
     [Helper 84 ''bpf_sk_lookup_tcp'' (Ptr (Struct ''bpf_sock''))
       [P (Ptr Void) ''ctx'', P (Ptr (Struct ''bpf_sock_tuple'')) ''tuple'', P U32 ''tuple_size'', P U64 ''netns'', P U64 ''flags''] [DocNull],
      Helper 85 ''bpf_sk_lookup_udp'' (Ptr (Struct ''bpf_sock''))
       [P (Ptr Void) ''ctx'', P (Ptr (Struct ''bpf_sock_tuple'')) ''tuple'', P U32 ''tuple_size'', P U64 ''netns'', P U64 ''flags''] [DocNull],
      Helper 86 ''bpf_sk_release'' Long
       [P (Ptr Void) ''sock''] [DocNegative],
      Helper 87 ''bpf_map_push_elem'' Long
       [P (Ptr Void) ''map'', P (Ptr (Const Void)) ''value'', P U64 ''flags''] [DocNegative],
      Helper 88 ''bpf_map_pop_elem'' Long
       [P (Ptr Void) ''map'', P (Ptr Void) ''value''] [DocNegative],
      Helper 89 ''bpf_map_peek_elem'' Long
       [P (Ptr Void) ''map'', P (Ptr Void) ''value''] [DocNegative],
      Helper 90 ''bpf_msg_push_data'' Long
       [P (Ptr (Struct ''sk_msg_md'')) ''msg'', P U32 ''start'', P U32 ''len'', P U64 ''flags''] [DocNegative]]"

definition helpers_91_98 :: "helper list" where
  "helpers_91_98 =
     [Helper 91 ''bpf_msg_pop_data'' Long
       [P (Ptr (Struct ''sk_msg_md'')) ''msg'', P U32 ''start'', P U32 ''len'', P U64 ''flags''] [DocNegative],
      Helper 92 ''bpf_rc_pointer_rel'' Long
       [P (Ptr Void) ''ctx'', P S32 ''rel_x'', P S32 ''rel_y''] [],
      Helper 93 ''bpf_spin_lock'' Long
       [P (Ptr (Struct ''bpf_spin_lock'')) ''lock''] [],
      Helper 94 ''bpf_spin_unlock'' Long
       [P (Ptr (Struct ''bpf_spin_lock'')) ''lock''] [],
      Helper 95 ''bpf_sk_fullsock'' (Ptr (Struct ''bpf_sock''))
       [P (Ptr (Struct ''bpf_sock'')) ''sk''] [DocNull],
      Helper 96 ''bpf_tcp_sock'' (Ptr (Struct ''bpf_tcp_sock''))
       [P (Ptr (Struct ''bpf_sock'')) ''sk''] [DocNull],
      Helper 97 ''bpf_skb_ecn_set_ce'' Long
       [P (Ptr (Struct ''__sk_buff'')) ''skb''] [],
      Helper 98 ''bpf_get_listener_sock'' (Ptr (Struct ''bpf_sock''))
       [P (Ptr (Struct ''bpf_sock'')) ''sk''] [DocNull]]"

definition helpers_99_104 :: "helper list" where
  "helpers_99_104 =
     [Helper 99 ''bpf_skc_lookup_tcp'' (Ptr (Struct ''bpf_sock''))
       [P (Ptr Void) ''ctx'', P (Ptr (Struct ''bpf_sock_tuple'')) ''tuple'', P U32 ''tuple_size'', P U64 ''netns'', P U64 ''flags''] [DocNull],
      Helper 100 ''bpf_tcp_check_syncookie'' Long
       [P (Ptr Void) ''sk'', P (Ptr Void) ''iph'', P U32 ''iph_len'', P (Ptr (Struct ''tcphdr'')) ''th'', P U32 ''th_len''] [DocNegative],
      Helper 101 ''bpf_sysctl_get_name'' Long
       [P (Ptr (Struct ''bpf_sysctl'')) ''ctx'', P (Ptr Char) ''buf'', P ULong ''buf_len'', P U64 ''flags''] [],
      Helper 102 ''bpf_sysctl_get_current_value'' Long
       [P (Ptr (Struct ''bpf_sysctl'')) ''ctx'', P (Ptr Char) ''buf'', P ULong ''buf_len''] [DocNegative],
      Helper 103 ''bpf_sysctl_get_new_value'' Long
       [P (Ptr (Struct ''bpf_sysctl'')) ''ctx'', P (Ptr Char) ''buf'', P ULong ''buf_len''] [DocNegative],
      Helper 104 ''bpf_sysctl_set_new_value'' Long
       [P (Ptr (Struct ''bpf_sysctl'')) ''ctx'', P (Ptr (Const Char)) ''buf'', P ULong ''buf_len''] [DocNegative]]"

definition helpers_105_109 :: "helper list" where
  "helpers_105_109 =
     [Helper 105 ''bpf_strtol'' Long
       [P (Ptr (Const Char)) ''buf'', P ULong ''buf_len'', P U64 ''flags'', P (Ptr Long) ''res''] [DocNegative],
      Helper 106 ''bpf_strtoul'' Long
       [P (Ptr (Const Char)) ''buf'', P ULong ''buf_len'', P U64 ''flags'', P (Ptr ULong) ''res''] [DocNegative],
      Helper 107 ''bpf_sk_storage_get'' (Ptr Void)
       [P (Ptr Void) ''map'', P (Ptr Void) ''sk'', P (Ptr Void) ''value'', P U64 ''flags''] [DocNull],
      Helper 108 ''bpf_sk_storage_delete'' Long
       [P (Ptr Void) ''map'', P (Ptr Void) ''sk''] [DocNegative],
      Helper 109 ''bpf_send_signal'' Long
       [P U32 ''sig''] [DocNegative]]"

definition helpers_110_115 :: "helper list" where
  "helpers_110_115 =
     [Helper 110 ''bpf_tcp_gen_syncookie'' S64
       [P (Ptr Void) ''sk'', P (Ptr Void) ''iph'', P U32 ''iph_len'', P (Ptr (Struct ''tcphdr'')) ''th'', P U32 ''th_len''] [DocNegative],
      Helper 111 ''bpf_skb_output'' Long
       [P (Ptr Void) ''ctx'', P (Ptr Void) ''map'', P U64 ''flags'', P (Ptr Void) ''data'', P U64 ''size''] [DocNegative],
      Helper 112 ''bpf_probe_read_user'' Long
       [P (Ptr Void) ''dst'', P U32 ''size'', P (Ptr (Const Void)) ''unsafe_ptr''] [DocNegative],
      Helper 113 ''bpf_probe_read_kernel'' Long
       [P (Ptr Void) ''dst'', P U32 ''size'', P (Ptr (Const Void)) ''unsafe_ptr''] [DocNegative],
      Helper 114 ''bpf_probe_read_user_str'' Long
       [P (Ptr Void) ''dst'', P U32 ''size'', P (Ptr (Const Void)) ''unsafe_ptr''] [DocNegative],
      Helper 115 ''bpf_probe_read_kernel_str'' Long
       [P (Ptr Void) ''dst'', P U32 ''size'', P (Ptr (Const Void)) ''unsafe_ptr''] [DocNegative]]"

definition helpers_116_123 :: "helper list" where
  "helpers_116_123 =
     [Helper 116 ''bpf_tcp_send_ack'' Long
       [P (Ptr Void) ''tp'', P U32 ''rcv_nxt''] [DocNegative],
      Helper 117 ''bpf_send_signal_thread'' Long
       [P U32 ''sig''] [DocNegative],
      Helper 118 ''bpf_jiffies64'' U64
       [] [],
      Helper 119 ''bpf_read_branch_records'' Long
       [P (Ptr (Struct ''bpf_perf_event_data'')) ''ctx'', P (Ptr Void) ''buf'', P U32 ''size'', P U64 ''flags''] [DocNegative],
      Helper 120 ''bpf_get_ns_current_pid_tgid'' Long
       [P U64 ''dev'', P U64 ''ino'', P (Ptr (Struct ''bpf_pidns_info'')) ''nsdata'', P U32 ''size''] [DocNegative],
      Helper 121 ''bpf_xdp_output'' Long
       [P (Ptr Void) ''ctx'', P (Ptr Void) ''map'', P U64 ''flags'', P (Ptr Void) ''data'', P U64 ''size''] [DocNegative],
      Helper 122 ''bpf_get_netns_cookie'' U64
       [P (Ptr Void) ''ctx''] [],
      Helper 123 ''bpf_get_current_ancestor_cgroup_id'' U64
       [P CInt ''ancestor_level''] []]"

definition helpers_124_129 :: "helper list" where
  "helpers_124_129 =
     [Helper 124 ''bpf_sk_assign'' Long
       [P (Ptr Void) ''ctx'', P (Ptr Void) ''sk'', P U64 ''flags''] [DocNegative],
      Helper 125 ''bpf_ktime_get_boot_ns'' U64
       [] [],
      Helper 126 ''bpf_seq_printf'' Long
       [P (Ptr (Struct ''seq_file'')) ''m'', P (Ptr (Const Char)) ''fmt'', P U32 ''fmt_size'', P (Ptr (Const Void)) ''data'', P U32 ''data_len''] [DocNegative],
      Helper 127 ''bpf_seq_write'' Long
       [P (Ptr (Struct ''seq_file'')) ''m'', P (Ptr (Const Void)) ''data'', P U32 ''len''] [DocNegative],
      Helper 128 ''bpf_sk_cgroup_id'' U64
       [P (Ptr Void) ''sk''] [],
      Helper 129 ''bpf_sk_ancestor_cgroup_id'' U64
       [P (Ptr Void) ''sk'', P CInt ''ancestor_level''] []]"

definition helpers_130_137 :: "helper list" where
  "helpers_130_137 =
     [Helper 130 ''bpf_ringbuf_output'' Long
       [P (Ptr Void) ''ringbuf'', P (Ptr Void) ''data'', P U64 ''size'', P U64 ''flags''] [DocNegative],
      Helper 131 ''bpf_ringbuf_reserve'' (Ptr Void)
       [P (Ptr Void) ''ringbuf'', P U64 ''size'', P U64 ''flags''] [DocNull],
      Helper 132 ''bpf_ringbuf_submit'' Void
       [P (Ptr Void) ''data'', P U64 ''flags''] [],
      Helper 133 ''bpf_ringbuf_discard'' Void
       [P (Ptr Void) ''data'', P U64 ''flags''] [],
      Helper 134 ''bpf_ringbuf_query'' U64
       [P (Ptr Void) ''ringbuf'', P U64 ''flags''] [],
      Helper 135 ''bpf_csum_level'' Long
       [P (Ptr (Struct ''__sk_buff'')) ''skb'', P U64 ''level''] [DocNegative],
      Helper 136 ''bpf_skc_to_tcp6_sock'' (Ptr (Struct ''tcp6_sock''))
       [P (Ptr Void) ''sk''] [DocNull],
      Helper 137 ''bpf_skc_to_tcp_sock'' (Ptr (Struct ''tcp_sock''))
       [P (Ptr Void) ''sk''] [DocNull]]"

definition helpers_138_142 :: "helper list" where
  "helpers_138_142 =
     [Helper 138 ''bpf_skc_to_tcp_timewait_sock'' (Ptr (Struct ''tcp_timewait_sock''))
       [P (Ptr Void) ''sk''] [DocNull],
      Helper 139 ''bpf_skc_to_tcp_request_sock'' (Ptr (Struct ''tcp_request_sock''))
       [P (Ptr Void) ''sk''] [DocNull],
      Helper 140 ''bpf_skc_to_udp6_sock'' (Ptr (Struct ''udp6_sock''))
       [P (Ptr Void) ''sk''] [DocNull],
      Helper 141 ''bpf_get_task_stack'' Long
       [P (Ptr (Struct ''task_struct'')) ''task'', P (Ptr Void) ''buf'', P U32 ''size'', P U64 ''flags''] [DocNegative],
      Helper 142 ''bpf_load_hdr_opt'' Long
       [P (Ptr (Struct ''bpf_sock_ops'')) ''skops'', P (Ptr Void) ''searchby_res'', P U32 ''len'', P U64 ''flags''] [DocNegative]]"

definition helpers_143_148 :: "helper list" where
  "helpers_143_148 =
     [Helper 143 ''bpf_store_hdr_opt'' Long
       [P (Ptr (Struct ''bpf_sock_ops'')) ''skops'', P (Ptr (Const Void)) ''from'', P U32 ''len'', P U64 ''flags''] [DocNegative],
      Helper 144 ''bpf_reserve_hdr_opt'' Long
       [P (Ptr (Struct ''bpf_sock_ops'')) ''skops'', P U32 ''len'', P U64 ''flags''] [DocNegative],
      Helper 145 ''bpf_inode_storage_get'' (Ptr Void)
       [P (Ptr Void) ''map'', P (Ptr Void) ''inode'', P (Ptr Void) ''value'', P U64 ''flags''] [DocNull],
      Helper 146 ''bpf_inode_storage_delete'' CInt
       [P (Ptr Void) ''map'', P (Ptr Void) ''inode''] [DocNegative],
      Helper 147 ''bpf_d_path'' Long
       [P (Ptr (Const (Struct ''path''))) ''path'', P (Ptr Char) ''buf'', P U32 ''sz''] [DocNegative],
      Helper 148 ''bpf_copy_from_user'' Long
       [P (Ptr Void) ''dst'', P U32 ''size'', P (Ptr (Const Void)) ''user_ptr''] [DocNegative]]"

definition helpers_149_154 :: "helper list" where
  "helpers_149_154 =
     [Helper 149 ''bpf_snprintf_btf'' Long
       [P (Ptr Char) ''str'', P U32 ''str_size'', P (Ptr (Struct ''btf_ptr'')) ''ptr'', P U32 ''btf_ptr_size'', P U64 ''flags''] [DocNegative],
      Helper 150 ''bpf_seq_printf_btf'' Long
       [P (Ptr (Struct ''seq_file'')) ''m'', P (Ptr (Struct ''btf_ptr'')) ''ptr'', P U32 ''ptr_size'', P U64 ''flags''] [DocNegative],
      Helper 151 ''bpf_skb_cgroup_classid'' U64
       [P (Ptr (Struct ''__sk_buff'')) ''skb''] [],
      Helper 152 ''bpf_redirect_neigh'' Long
       [P U32 ''ifindex'', P (Ptr (Struct ''bpf_redir_neigh'')) ''params'', P CInt ''plen'', P U64 ''flags''] [],
      Helper 153 ''bpf_per_cpu_ptr'' (Ptr Void)
       [P (Ptr (Const Void)) ''percpu_ptr'', P U32 ''cpu''] [DocNull],
      Helper 154 ''bpf_this_cpu_ptr'' (Ptr Void)
       [P (Ptr (Const Void)) ''percpu_ptr''] []]"

definition helpers_155_162 :: "helper list" where
  "helpers_155_162 =
     [Helper 155 ''bpf_redirect_peer'' Long
       [P U32 ''ifindex'', P U64 ''flags''] [],
      Helper 156 ''bpf_task_storage_get'' (Ptr Void)
       [P (Ptr Void) ''map'', P (Ptr (Struct ''task_struct'')) ''task'', P (Ptr Void) ''value'', P U64 ''flags''] [DocNull],
      Helper 157 ''bpf_task_storage_delete'' Long
       [P (Ptr Void) ''map'', P (Ptr (Struct ''task_struct'')) ''task''] [DocNegative],
      Helper 158 ''bpf_get_current_task_btf'' (Ptr (Struct ''task_struct''))
       [] [],
      Helper 159 ''bpf_bprm_opts_set'' Long
       [P (Ptr (Struct ''linux_binprm'')) ''bprm'', P U64 ''flags''] [DocNegative],
      Helper 160 ''bpf_ktime_get_coarse_ns'' U64
       [] [],
      Helper 161 ''bpf_ima_inode_hash'' Long
       [P (Ptr (Struct ''inode'')) ''inode'', P (Ptr Void) ''dst'', P U32 ''size''] [DocNegative],
      Helper 162 ''bpf_sock_from_file'' (Ptr (Struct ''socket''))
       [P (Ptr (Struct ''file'')) ''file''] [DocNull]]"

definition helpers_163_166 :: "helper list" where
  "helpers_163_166 =
     [Helper 163 ''bpf_check_mtu'' Long
       [P (Ptr Void) ''ctx'', P U32 ''ifindex'', P (Ptr U32) ''mtu_len'', P S32 ''len_diff'', P U64 ''flags''] [DocNegative],
      Helper 164 ''bpf_for_each_map_elem'' Long
       [P (Ptr Void) ''map'', P (Ptr Void) ''callback_fn'', P (Ptr Void) ''callback_ctx'', P U64 ''flags''] [DocNegative],
      Helper 165 ''bpf_snprintf'' Long
       [P (Ptr Char) ''str'', P U32 ''str_size'', P (Ptr (Const Char)) ''fmt'', P (Ptr U64) ''data'', P U32 ''data_len''] [DocNegative],
      Helper 166 ''bpf_sys_bpf'' Long
       [P U32 ''cmd'', P (Ptr Void) ''attr'', P U32 ''attr_size''] []]"

definition helpers_167_174 :: "helper list" where
  "helpers_167_174 =
     [Helper 167 ''bpf_btf_find_by_name_kind'' Long
       [P (Ptr Char) ''name'', P CInt ''name_sz'', P U32 ''kind'', P CInt ''flags''] [],
      Helper 168 ''bpf_sys_close'' Long
       [P U32 ''fd''] [],
      Helper 169 ''bpf_timer_init'' Long
       [P (Ptr (Struct ''bpf_timer'')) ''timer'', P (Ptr Void) ''map'', P U64 ''flags''] [DocNegative],
      Helper 170 ''bpf_timer_set_callback'' Long
       [P (Ptr (Struct ''bpf_timer'')) ''timer'', P (Ptr Void) ''callback_fn''] [DocNegative],
      Helper 171 ''bpf_timer_start'' Long
       [P (Ptr (Struct ''bpf_timer'')) ''timer'', P U64 ''nsecs'', P U64 ''flags''] [DocNegative],
      Helper 172 ''bpf_timer_cancel'' Long
       [P (Ptr (Struct ''bpf_timer'')) ''timer''] [DocNegative],
      Helper 173 ''bpf_get_func_ip'' U64
       [P (Ptr Void) ''ctx''] [],
      Helper 174 ''bpf_get_attach_cookie'' U64
       [P (Ptr Void) ''ctx''] []]"

definition helpers_175_182 :: "helper list" where
  "helpers_175_182 =
     [Helper 175 ''bpf_task_pt_regs'' Long
       [P (Ptr (Struct ''task_struct'')) ''task''] [],
      Helper 176 ''bpf_get_branch_snapshot'' Long
       [P (Ptr Void) ''entries'', P U32 ''size'', P U64 ''flags''] [DocNegative],
      Helper 177 ''bpf_trace_vprintk'' Long
       [P (Ptr (Const Char)) ''fmt'', P U32 ''fmt_size'', P (Ptr (Const Void)) ''data'', P U32 ''data_len''] [DocNegative],
      Helper 178 ''bpf_skc_to_unix_sock'' (Ptr (Struct ''unix_sock''))
       [P (Ptr Void) ''sk''] [DocNull],
      Helper 179 ''bpf_kallsyms_lookup_name'' Long
       [P (Ptr (Const Char)) ''name'', P CInt ''name_sz'', P CInt ''flags'', P (Ptr U64) ''res''] [DocNegative],
      Helper 180 ''bpf_find_vma'' Long
       [P (Ptr (Struct ''task_struct'')) ''task'', P U64 ''addr'', P (Ptr Void) ''callback_fn'', P (Ptr Void) ''callback_ctx'', P U64 ''flags''] [DocNegative],
      Helper 181 ''bpf_loop'' Long
       [P U32 ''nr_loops'', P (Ptr Void) ''callback_fn'', P (Ptr Void) ''callback_ctx'', P U64 ''flags''] [DocNegative],
      Helper 182 ''bpf_strncmp'' Long
       [P (Ptr (Const Char)) ''s1'', P U32 ''s1_sz'', P (Ptr (Const Char)) ''s2''] []]"

definition helpers_183_191 :: "helper list" where
  "helpers_183_191 =
     [Helper 183 ''bpf_get_func_arg'' Long
       [P (Ptr Void) ''ctx'', P U32 ''n'', P (Ptr U64) ''value''] [DocNegative],
      Helper 184 ''bpf_get_func_ret'' Long
       [P (Ptr Void) ''ctx'', P (Ptr U64) ''value''] [DocNegative],
      Helper 185 ''bpf_get_func_arg_cnt'' Long
       [P (Ptr Void) ''ctx''] [],
      Helper 186 ''bpf_get_retval'' CInt
       [] [],
      Helper 187 ''bpf_set_retval'' CInt
       [P CInt ''retval''] [DocNegative],
      Helper 188 ''bpf_xdp_get_buff_len'' U64
       [P (Ptr (Struct ''xdp_md'')) ''xdp_md''] [],
      Helper 189 ''bpf_xdp_load_bytes'' Long
       [P (Ptr (Struct ''xdp_md'')) ''xdp_md'', P U32 ''offset'', P (Ptr Void) ''buf'', P U32 ''len''] [DocNegative],
      Helper 190 ''bpf_xdp_store_bytes'' Long
       [P (Ptr (Struct ''xdp_md'')) ''xdp_md'', P U32 ''offset'', P (Ptr Void) ''buf'', P U32 ''len''] [DocNegative],
      Helper 191 ''bpf_copy_from_user_task'' Long
       [P (Ptr Void) ''dst'', P U32 ''size'', P (Ptr (Const Void)) ''user_ptr'', P (Ptr (Struct ''task_struct'')) ''tsk'', P U64 ''flags''] [DocNegative]]"

definition helpers_192_200 :: "helper list" where
  "helpers_192_200 =
     [Helper 192 ''bpf_skb_set_tstamp'' Long
       [P (Ptr (Struct ''__sk_buff'')) ''skb'', P U64 ''tstamp'', P U32 ''tstamp_type''] [DocNegative],
      Helper 193 ''bpf_ima_file_hash'' Long
       [P (Ptr (Struct ''file'')) ''file'', P (Ptr Void) ''dst'', P U32 ''size''] [DocNegative],
      Helper 194 ''bpf_kptr_xchg'' (Ptr Void)
       [P (Ptr Void) ''dst'', P (Ptr Void) ''ptr''] [DocNull],
      Helper 195 ''bpf_map_lookup_percpu_elem'' (Ptr Void)
       [P (Ptr Void) ''map'', P (Ptr (Const Void)) ''key'', P U32 ''cpu''] [DocNull],
      Helper 196 ''bpf_skc_to_mptcp_sock'' (Ptr (Struct ''mptcp_sock''))
       [P (Ptr Void) ''sk''] [DocNull],
      Helper 197 ''bpf_dynptr_from_mem'' Long
       [P (Ptr Void) ''data'', P U64 ''size'', P U64 ''flags'', P (Ptr (Struct ''bpf_dynptr'')) ''ptr''] [DocNegative],
      Helper 198 ''bpf_ringbuf_reserve_dynptr'' Long
       [P (Ptr Void) ''ringbuf'', P U32 ''size'', P U64 ''flags'', P (Ptr (Struct ''bpf_dynptr'')) ''ptr''] [DocNegative],
      Helper 199 ''bpf_ringbuf_submit_dynptr'' Void
       [P (Ptr (Struct ''bpf_dynptr'')) ''ptr'', P U64 ''flags''] [],
      Helper 200 ''bpf_ringbuf_discard_dynptr'' Void
       [P (Ptr (Struct ''bpf_dynptr'')) ''ptr'', P U64 ''flags''] []]"

definition helpers_201_207 :: "helper list" where
  "helpers_201_207 =
     [Helper 201 ''bpf_dynptr_read'' Long
       [P (Ptr Void) ''dst'', P U64 ''len'', P (Ptr (Const (Struct ''bpf_dynptr''))) ''src'', P U64 ''offset'', P U64 ''flags''] [DocNegative],
      Helper 202 ''bpf_dynptr_write'' Long
       [P (Ptr (Const (Struct ''bpf_dynptr''))) ''dst'', P U64 ''offset'', P (Ptr Void) ''src'', P U64 ''len'', P U64 ''flags''] [DocNegative],
      Helper 203 ''bpf_dynptr_data'' (Ptr Void)
       [P (Ptr (Const (Struct ''bpf_dynptr''))) ''ptr'', P U64 ''offset'', P U64 ''len''] [DocNull],
      Helper 204 ''bpf_tcp_raw_gen_syncookie_ipv4'' S64
       [P (Ptr (Struct ''iphdr'')) ''iph'', P (Ptr (Struct ''tcphdr'')) ''th'', P U32 ''th_len''] [DocNegative],
      Helper 205 ''bpf_tcp_raw_gen_syncookie_ipv6'' S64
       [P (Ptr (Struct ''ipv6hdr'')) ''iph'', P (Ptr (Struct ''tcphdr'')) ''th'', P U32 ''th_len''] [DocNegative],
      Helper 206 ''bpf_tcp_raw_check_syncookie_ipv4'' Long
       [P (Ptr (Struct ''iphdr'')) ''iph'', P (Ptr (Struct ''tcphdr'')) ''th''] [DocNegative],
      Helper 207 ''bpf_tcp_raw_check_syncookie_ipv6'' Long
       [P (Ptr (Struct ''ipv6hdr'')) ''iph'', P (Ptr (Struct ''tcphdr'')) ''th''] [DocNegative]]"

definition helpers_208_211 :: "helper list" where
  "helpers_208_211 =
     [Helper 208 ''bpf_ktime_get_tai_ns'' U64
       [] [],
      Helper 209 ''bpf_user_ringbuf_drain'' Long
       [P (Ptr Void) ''map'', P (Ptr Void) ''callback_fn'', P (Ptr Void) ''ctx'', P U64 ''flags''] [DocNegative],
      Helper 210 ''bpf_cgrp_storage_get'' (Ptr Void)
       [P (Ptr Void) ''map'', P (Ptr (Struct ''cgroup'')) ''cgroup'', P (Ptr Void) ''value'', P U64 ''flags''] [DocNull],
      Helper 211 ''bpf_cgrp_storage_delete'' Long
       [P (Ptr Void) ''map'', P (Ptr (Struct ''cgroup'')) ''cgroup''] [DocNegative]]"

definition bpf_helpers :: "helper list" where
  "bpf_helpers =
     helpers_1_7 @ helpers_8_12 @ helpers_13_19 @ helpers_20_22 @
     helpers_23_26 @ helpers_27_31 @ helpers_32_38 @ helpers_39_45 @
     helpers_46_50 @ helpers_51_54 @ helpers_55_58 @ helpers_59_62 @
     helpers_63_67 @ helpers_68_72 @ helpers_73_77 @ helpers_78_83 @
     helpers_84_90 @ helpers_91_98 @ helpers_99_104 @ helpers_105_109 @
     helpers_110_115 @ helpers_116_123 @ helpers_124_129 @ helpers_130_137 @
     helpers_138_142 @ helpers_143_148 @ helpers_149_154 @ helpers_155_162 @
     helpers_163_166 @ helpers_167_174 @ helpers_175_182 @ helpers_183_191 @
     helpers_192_200 @ helpers_201_207 @ helpers_208_211"


definition helper_by_id :: "nat \<Rightarrow> helper option" where
  "helper_by_id i = find (\<lambda>h. h_id h = i) bpf_helpers"

fun is_signed :: "ctype \<Rightarrow> bool" where
  "is_signed CInt = True" | "is_signed Long = True" | "is_signed S32 = True" | "is_signed S64 = True"
| "is_signed _ = False"

fun is_pointer :: "ctype \<Rightarrow> bool" where
  "is_pointer (Ptr t) = True" | "is_pointer _ = False"

fun structs_of :: "ctype \<Rightarrow> string list" where
  "structs_of (Struct s) = [s]"
| "structs_of (Ptr t) = structs_of t"
| "structs_of (Const t) = structs_of t"
| "structs_of _ = []"

fun param_structs :: "param \<Rightarrow> string list" where
  "param_structs (P t x) = structs_of t" | "param_structs Variadic = []"


lemmas helper_table =
  helpers_1_7_def helpers_8_12_def helpers_13_19_def helpers_20_22_def helpers_23_26_def helpers_27_31_def helpers_32_38_def helpers_39_45_def helpers_46_50_def helpers_51_54_def helpers_55_58_def helpers_59_62_def helpers_63_67_def helpers_68_72_def helpers_73_77_def helpers_78_83_def helpers_84_90_def helpers_91_98_def helpers_99_104_def helpers_105_109_def helpers_110_115_def helpers_116_123_def helpers_124_129_def helpers_130_137_def helpers_138_142_def helpers_143_148_def helpers_149_154_def helpers_155_162_def helpers_163_166_def helpers_167_174_def helpers_175_182_def helpers_183_191_def helpers_192_200_def helpers_201_207_def helpers_208_211_def

subsection \<open>Names and numbers\<close>

lemma helper_ids: "map h_id bpf_helpers = [1..<212]"
proof -
  have "[1..<212] = (1 :: nat) # [2..<212]"
    using upt_conv_Cons [of 1 212] by (simp add: numeral_2_eq_2)
  then show ?thesis by (simp add: bpf_helpers_def helper_table)
qed







lemma find_distinct:
  "distinct (map f xs) \<Longrightarrow> x \<in> set xs \<Longrightarrow> find (\<lambda>y. f y = f x) xs = Some x"
  by (induction xs) (auto simp: image_iff)




subsection \<open>Prototypes and documented results\<close>

text \<open>
  No helper has more than five parameters, the number of argument registers of
  a BPF call; the only variadic one is \<^verbatim>\<open>bpf_trace_printk\<close>; and every structure a prototype mentions is
  declared at the head of the file.
\<close>

theorem helper_prototypes:
  "list_all (\<lambda>h. length (h_params h) \<le> 5) bpf_helpers \<and>
   map h_name (filter (\<lambda>h. Variadic \<in> set (h_params h)) bpf_helpers) = [''bpf_trace_printk''] \<and>
   list_all (\<lambda>h. list_all (\<lambda>s. s \<in> set forward_structs)
     (structs_of (h_ret h) @ concat (map param_structs (h_params h)))) bpf_helpers"
  by (intro conjI; code_simp)

text \<open>
  A helper documented to return a negative error has a signed return type, with
  one exception: \<^verbatim>\<open>bpf_perf_event_read\<close> returns \<^verbatim>\<open>__u64\<close>, so a caller has to convert the result before
  comparing it with zero. Every pointer result is documented as possibly null, except for the
  three helpers whose result always exists.
\<close>

theorem helper_results:
  "map h_name (filter (\<lambda>h. DocNegative \<in> set (h_attrs h) \<and> \<not> is_signed (h_ret h)) bpf_helpers) =
     [''bpf_perf_event_read''] \<and>
   map h_name (filter (\<lambda>h. is_pointer (h_ret h) \<and> DocNull \<notin> set (h_attrs h)) bpf_helpers) =
     [''bpf_get_local_storage'', ''bpf_this_cpu_ptr'', ''bpf_get_current_task_btf'']"
  by (intro conjI; code_simp)

subsection \<open>The print macros call declared helpers\<close>






text \<open>The number in the assembly of \<^verbatim>\<open>bpf_tail_call_static\<close> is that of the helper it stands for.\<close>

lemma tail_call_static_helper:
  assumes "bpf_tail_call_static slot_constant ctx prog_map slot = Some (n, regs)"
  shows "\<exists>h. helper_by_id n = Some h \<and> h_name h = ''bpf_tail_call'' \<and> dom regs = {1..length (h_params h)}"
proof -
  let ?h = "Helper 12 ''bpf_tail_call'' Long
    [P (Ptr Void) ''ctx'', P (Ptr Void) ''prog_array_map'', P U32 ''index''] [DocNegative]"
  have h: "?h \<in> set bpf_helpers" by (simp add: bpf_helpers_def helpers_8_12_def)
  have "distinct (map h_id bpf_helpers)" unfolding helper_ids by simp
  from find_distinct [OF this h] have "helper_by_id 12 = Some ?h" by (simp add: helper_by_id_def)
  moreover have "n = 12" "dom regs = {1..3}" using assms by (auto simp: bpf_tail_call_static_def split: if_splits)
  ultimately show ?thesis by simp
qed

end
