(* ===== verification/Go_Lib.thy ===== *)
theory Go_Lib
  imports Prelude
begin

text \<open>
  What the Go sources use of Go's standard library: decimal conversion (\<^verbatim>\<open>strconv\<close>, \<^verbatim>\<open>fmt\<close>) and a few
  functions of \<^verbatim>\<open>strings\<close>, on strings of ASCII characters. A call that returns an error is \<open>None\<close>;
  the kind of error is never inspected by the program.
\<close>

subsection \<open>Decimal conversion\<close>

definition is_digit :: "char \<Rightarrow> bool" where
  "is_digit c \<longleftrightarrow> 48 \<le> (of_char c :: nat) \<and> (of_char c :: nat) \<le> 57"

definition digits_value :: "string \<Rightarrow> nat" where
  "digits_value s = fold (\<lambda>c n. 10 * n + (of_char c - 48)) s 0"

text \<open>\<^verbatim>\<open>strconv.ParseUint(s, 10, 64)\<close>: decimal digits only, and within 64 bits.\<close>

definition parse_uint :: "string \<Rightarrow> u64 option" where
  "parse_uint s =
     (if s \<noteq> [] \<and> list_all is_digit s \<and> digits_value s < 2 ^ 64
      then Some (of_nat (digits_value s)) else None)"

text \<open>\<^verbatim>\<open>strconv.ParseInt(s, 10, bits)\<close>: an optional sign, then digits, within \<open>bits\<close> bits.\<close>

definition parse_int :: "nat \<Rightarrow> string \<Rightarrow> int option" where
  "parse_int bits s =
     (let neg = (s \<noteq> [] \<and> hd s = CHR ''-'');
          ds = (if s \<noteq> [] \<and> (hd s = CHR ''-'' \<or> hd s = CHR ''+'') then tl s else s)
      in case parse_uint ds of
           None \<Rightarrow> None
         | Some un \<Rightarrow>
             if \<not> neg \<and> 2 ^ (bits - 1) \<le> uint un then None
             else if neg \<and> 2 ^ (bits - 1) < uint un then None
             else Some (if neg then - uint un else uint un))"

text \<open>The verb \<^verbatim>\<open>%d\<close> of \<^verbatim>\<open>fmt.Sprintf\<close> on an unsigned integer.\<close>

fun decimal :: "nat \<Rightarrow> string" where
  "decimal n = (if n < 10 then [char_of (48 + n)] else decimal (n div 10) @ [char_of (48 + n mod 10)])"

declare decimal.simps [simp del]

subsection \<open>Strings\<close>

definition replace_all :: "char \<Rightarrow> char \<Rightarrow> string \<Rightarrow> string" where
  "replace_all a b s = map (\<lambda>c. if c = a then b else c) s"

fun contains :: "string \<Rightarrow> string \<Rightarrow> bool" where
  "contains [] sub \<longleftrightarrow> sub = []"
| "contains (c # s) sub \<longleftrightarrow> take (length sub) (c # s) = sub \<or> contains s sub"

definition is_space :: "char \<Rightarrow> bool" where
  "is_space c \<longleftrightarrow> (of_char c :: nat) \<in> {9, 10, 11, 12, 13, 32}"

definition trim_space :: "string \<Rightarrow> string" where
  "trim_space s = rev (dropWhile is_space (rev (dropWhile is_space s)))"

text \<open>\<^verbatim>\<open>strings.Split(s, sep)\<close> for a one-character separator: never the empty list.\<close>

fun split_on :: "char \<Rightarrow> string \<Rightarrow> string list" where
  "split_on sep [] = [[]]"
| "split_on sep (c # s) =
     (if c = sep then [] # split_on sep s
      else (case split_on sep s of [] \<Rightarrow> [[c]] | w # ws \<Rightarrow> (c # w) # ws))"

fun join_on :: "char \<Rightarrow> string list \<Rightarrow> string" where
  "join_on sep [] = []"
| "join_on sep [w] = w"
| "join_on sep (w # ws) = w @ sep # join_on sep ws"

subsection \<open>Lemmas\<close>

lemma char_digit: "d < 10 \<Longrightarrow> of_char (char_of (48 + d) :: char) = (48 + d :: nat)"
  by simp

lemma decimal_digits: "decimal n \<noteq> [] \<and> list_all is_digit (decimal n)"
proof (induction n rule: decimal.induct)
  case (1 n)
  show ?case
  proof (cases "n < 10")
    case True
    then show ?thesis by (simp add: decimal.simps [of n] is_digit_def)
  next
    case False
    have "n mod 10 \<le> 9" using pos_mod_bound [of 10 "int n"] by presburger
    then have "is_digit (char_of (48 + n mod 10))" by (simp add: is_digit_def)
    with False 1 show ?thesis by (simp add: decimal.simps [of n])
  qed
qed

lemma digits_value_snoc: "digits_value (s @ [c]) = 10 * digits_value s + (of_char c - 48)"
  by (simp add: digits_value_def)

lemma digits_value_decimal: "digits_value (decimal n) = n"
proof (induction n rule: decimal.induct)
  case (1 n)
  show ?case
  proof (cases "n < 10")
    case True
    then show ?thesis by (simp add: decimal.simps [of n] digits_value_def)
  next
    case False
    moreover have "n mod 10 < 10" by simp
    ultimately show ?thesis
      using 1 by (subst decimal.simps) (simp add: digits_value_snoc)
  qed
qed

lemma parse_uint_decimal: "n < 2 ^ 64 \<Longrightarrow> parse_uint (decimal n) = Some (of_nat n)"
  using decimal_digits [of n] by (simp add: parse_uint_def digits_value_decimal)

lemma parse_uint_nat: "parse_uint s = Some v \<Longrightarrow> unat v = digits_value s"
  by (auto simp: parse_uint_def unat_of_nat take_bit_eq_mod split: if_splits)

lemma parse_uint_Nil [simp]: "parse_uint [] = None"
  by (simp add: parse_uint_def)

lemma parse_int_decimal:
  assumes "n < 2 ^ (bits - 1)" "bits \<le> 64" "0 < bits"
  shows "parse_int bits (decimal n) = Some (int n)"
proof -
  have "(2 :: nat) ^ (bits - 1) \<le> 2 ^ 63" using assms by (intro power_increasing) auto
  then have n: "n < 2 ^ 64" using assms(1) by simp
  have "is_digit (hd (decimal n))" using decimal_digits [of n] by (cases "decimal n") auto
  then have "hd (decimal n) \<noteq> CHR ''-''" "hd (decimal n) \<noteq> CHR ''+''" by (auto simp: is_digit_def)
  moreover have "uint (of_nat n :: u64) = int n" using n by (intro uint64_of_nat) simp
  moreover have "int n < 2 ^ (bits - 1)" using assms(1) by (metis of_nat_less_iff of_nat_numeral of_nat_power)
  ultimately show ?thesis
    using parse_uint_decimal [OF n] by (simp add: parse_int_def Let_def)
qed

lemma decimal_inj: "decimal m = decimal n \<Longrightarrow> m = n"
  by (metis digits_value_decimal)

lemma split_on_nonempty [simp]: "split_on sep s \<noteq> []"
  by (cases s) (auto split: list.splits)

lemma join_split: "join_on sep (split_on sep s) = s"
proof (induction s)
  case (Cons c s)
  then show ?case
    by (cases "split_on sep s"; cases "tl (split_on sep s)") auto
qed simp

lemma split_join:
  "ws \<noteq> [] \<Longrightarrow> \<forall>w \<in> set ws. sep \<notin> set w \<Longrightarrow> split_on sep (join_on sep ws) = ws"
proof (induction sep ws rule: join_on.induct)
  case (2 sep w)
  then show ?case by (induction w) auto
next
  case (3 sep w v ws)
  then have "split_on sep (join_on sep (v # ws)) = v # ws" by simp
  moreover have "sep \<notin> set w" using "3.prems" by simp
  then have "split_on sep (w @ sep # rest) = w # split_on sep rest" for rest
    by (induction w) auto
  ultimately show ?case by simp
qed simp

lemma contains_iff: "contains s sub \<longleftrightarrow> (\<exists>pre post. s = pre @ sub @ post)"
proof (induction s)
  case (Cons c s)
  show ?case
  proof
    assume "contains (c # s) sub"
    then show "\<exists>pre post. c # s = pre @ sub @ post"
      using Cons by (metis append_Cons append_Nil append_take_drop_id contains.simps(2))
  next
    assume "\<exists>pre post. c # s = pre @ sub @ post"
    then obtain pre post where e: "c # s = pre @ sub @ post" by blast
    show "contains (c # s) sub"
    proof (cases pre)
      case Nil
      then have "take (length sub) (c # s) = sub" using e by simp
      then show ?thesis by simp
    next
      case (Cons d pre')
      then have "contains s sub" using e Cons.IH by auto
      then show ?thesis by simp
    qed
  qed
qed auto

end
