(* ===== verification/Annotations.thy ===== *)
theory Annotations
  imports Go_Lib
begin

text \<open>
  Pods, and the scheduling parameters their annotations ask for: the parameter extraction of
  \<^verbatim>\<open>internal/maps/maps.go\<close>. A pod is the record of the fields of \<^verbatim>\<open>corev1.Pod\<close> that the agent
  reads; a nil Go map is \<open>None\<close>, and reading a missing key gives the empty string, as in Go.
\<close>

subsection \<open>Pods\<close>

record container =
  cpu_request_milli :: int  \<comment> \<open>\<^verbatim>\<open>Resources.Requests.Cpu().MilliValue()\<close>\<close>
  cpu_limit_milli :: int

record container_status =
  restart_count :: int
  container_id :: string

type_synonym string_map = "(string \<rightharpoonup> string) option"

record pod =
  pod_uid :: string
  pod_name :: string
  pod_namespace :: string
  pod_labels :: string_map
  pod_annotations :: string_map
  pod_node :: string
  pod_priority_class :: string
  pod_containers :: "container list"
  pod_phase :: string
  pod_qos :: string
  pod_statuses :: "container_status list"

definition go_get :: "string_map \<Rightarrow> string \<Rightarrow> string" where
  "go_get m k =
     (case m of None \<Rightarrow> [] | Some f \<Rightarrow> (case f k of None \<Rightarrow> [] | Some v \<Rightarrow> v))"

subsection \<open>Parameters from annotations\<close>

record sched_params =
  sp_weight :: u64
  sp_budget_ns :: u64

definition defaultWeight :: u64 where
  "defaultWeight = 1000"

definition defaultBudgetNs :: u64 where
  "defaultBudgetNs = 0"

definition annotationWeight :: string where
  "annotationWeight = ''scheduling.fengrru.dev/weight''"

definition annotationBudget :: string where
  "annotationBudget = ''scheduling.fengrru.dev/budget-microseconds''"

definition annotationImportance :: string where
  "annotationImportance = ''scheduling.fengrru.dev/importance''"

text \<open>The two guarded returns of \<^verbatim>\<open>ParseAnnotationWeight\<close>; \<open>None\<close> falls through to what follows.\<close>

definition explicit_weight :: "string_map \<Rightarrow> u64 option" where
  "explicit_weight ann =
     (let w = go_get ann annotationWeight
      in if w \<noteq> []
         then (case parse_uint w of
                 Some v \<Rightarrow> (if 1 \<le> v \<and> v \<le> 10000 then Some v else None) | None \<Rightarrow> None)
         else None)"

definition importance_weight :: "string_map \<Rightarrow> u64 option" where
  "importance_weight ann =
     (let imp = go_get ann annotationImportance
      in if imp \<noteq> []
         then (case parse_uint imp of
                 Some v \<Rightarrow> (if 0 < v \<and> v \<le> 100 then Some (v * 100) else None) | None \<Rightarrow> None)
         else None)"

definition ParseAnnotationWeight :: "string_map \<Rightarrow> u64" where
  "ParseAnnotationWeight ann =
     (if ann = None then 0
      else case explicit_weight ann of
             Some v \<Rightarrow> v
           | None \<Rightarrow> (case importance_weight ann of Some v \<Rightarrow> v | None \<Rightarrow> 0))"

definition ParseAnnotationBudget :: "string_map \<Rightarrow> u64" where
  "ParseAnnotationBudget ann =
     (if ann = None then 0
      else let b = go_get ann annotationBudget
           in if b \<noteq> []
              then (case parse_uint b of
                      Some v \<Rightarrow> (if 0 < v then v * 1000 else 0) | None \<Rightarrow> 0)
              else 0)"

definition extractSchedulingParams :: "pod \<Rightarrow> sched_params" where
  "extractSchedulingParams p =
     (let ann = pod_annotations p;
          sp = \<lparr>sp_weight = defaultWeight, sp_budget_ns = defaultBudgetNs\<rparr>;
          w = ParseAnnotationWeight ann;
          sp = (if 0 < w then sp\<lparr>sp_weight := w\<rparr> else sp);
          b = ParseAnnotationBudget ann;
          sp = (if 0 < b then sp\<lparr>sp_budget_ns := b\<rparr> else sp)
      in sp)"

subsection \<open>Weights\<close>

lemma explicit_weight_range: "explicit_weight ann = Some v \<Longrightarrow> 1 \<le> uint v \<and> uint v \<le> 10000"
  by (auto simp: explicit_weight_def Let_def uint64_le split: if_splits option.splits)

lemma importance_weight_range:
  assumes "importance_weight ann = Some v"
  shows "1 \<le> uint v \<and> uint v \<le> 10000"
proof -
  obtain i where i: "v = i * 100" "0 < i" "i \<le> 100"
    using assms by (auto simp: importance_weight_def Let_def split: if_splits option.splits)
  then have r: "0 < uint i" "uint i \<le> 100" by (simp_all add: uint64_less uint64_le)
  then have "uint (i * 100) = uint i * 100" by (subst uint64_mult) simp_all
  with r i show ?thesis by simp
qed

lemma annotation_weight_range:
  "ParseAnnotationWeight ann = 0 \<or> 1 \<le> uint (ParseAnnotationWeight ann) \<and>
   uint (ParseAnnotationWeight ann) \<le> 10000"
  using explicit_weight_range [of ann] importance_weight_range [of ann]
  by (auto simp: ParseAnnotationWeight_def split: option.splits)

lemma go_get_Some: "go_get (Some f) k = (case f k of None \<Rightarrow> [] | Some v \<Rightarrow> v)"
  by (simp add: go_get_def)

text \<open>
  A pod's weight annotation is read exactly as documented: a decimal number
  between 1 and 10000 is the weight, whatever the importance says; for zero and numbers out of
  range an importance between 1 and 100 counts as a hundred times its value, and any other
  importance leaves the weight unset.
\<close>

theorem annotation_weight:
  fixes f :: "string \<rightharpoonup> string" and w i :: nat
  defines "wt \<equiv> uint (ParseAnnotationWeight (Some f))"
  assumes "f annotationWeight = Some (decimal w)" "w < 2 ^ 64"
    and "f annotationImportance = Some (decimal i)" "i < 2 ^ 64"
  shows "wt = (if 1 \<le> w \<and> w \<le> 10000 then int w
               else if 1 \<le> i \<and> i \<le> 100 then 100 * int i else 0)"
proof -
  have ne: "decimal n \<noteq> []" for n using decimal_digits [of n] by blast
  have u: "uint (of_nat w :: u64) = int w" "uint (of_nat i :: u64) = int i"
    using assms(3,5) by (simp_all add: uint64_of_nat)
  have ex: "explicit_weight (Some f) = (if 1 \<le> w \<and> w \<le> 10000 then Some (of_nat w) else None)"
    using assms(2,3) ne u(1)
    by (auto simp: explicit_weight_def go_get_Some parse_uint_decimal uint64_le)
  have im: "importance_weight (Some f) = (if 1 \<le> i \<and> i \<le> 100 then Some (of_nat i * 100) else None)"
    using assms(4,5) ne u(2)
    by (auto simp: importance_weight_def go_get_Some parse_uint_decimal uint64_le uint64_less)
  have "uint (of_nat i * 100 :: u64) = 100 * int i" if "i \<le> 100"
    using that u(2) by (subst uint64_mult) simp_all
  then show ?thesis
    using u(1) by (simp add: wt_def ParseAnnotationWeight_def ex im)
qed

theorem annotation_weight_witness:
  "uint (ParseAnnotationWeight (Some [annotationWeight \<mapsto> decimal 20000, annotationImportance \<mapsto> decimal 7])) = 700"
proof -
  have "annotationWeight \<noteq> annotationImportance"
    by (simp add: annotationWeight_def annotationImportance_def)
  then show ?thesis
    using annotation_weight [of "[annotationWeight \<mapsto> decimal 20000, annotationImportance \<mapsto> decimal 7]" 20000 7]
    by simp
qed

subsection \<open>Budgets\<close>

lemma annotation_budget_value:
  assumes "f annotationBudget = Some (decimal n)" "n < 2 ^ 64"
  shows "uint (ParseAnnotationBudget (Some f)) = (1000 * int n) mod 2 ^ 64"
proof -
  have u: "uint (of_nat n :: u64) = int n" using assms(2) by (simp add: uint64_of_nat)
  have ne: "decimal n \<noteq> []" using decimal_digits [of n] by blast
  have m: "uint (of_nat n * 1000 :: u64) = (1000 * int n) mod 2 ^ 64"
    by (simp add: uint_word_ariths u mult.commute)
  show ?thesis
  proof (cases "n = 0")
    case True
    then show ?thesis using assms ne
      by (simp add: ParseAnnotationBudget_def go_get_Some parse_uint_decimal)
  next
    case False
    then have "0 < (of_nat n :: u64)" using u by (simp add: uint64_less)
    then show ?thesis using assms ne m
      by (simp add: ParseAnnotationBudget_def go_get_Some parse_uint_decimal)
  qed
qed

text \<open>
  C35 (annotation_budget). A budget annotation of \<open>n\<close> microseconds becomes \<open>n\<close> thousand nanoseconds
  modulo 2 to the 64, so it is exact for budgets below about 584 years and wraps around above.
\<close>

theorem annotation_budget:
  fixes f :: "string \<rightharpoonup> string" and n :: nat
  assumes "f annotationBudget = Some (decimal n)" "n < 2 ^ 64"
  shows "uint (ParseAnnotationBudget (Some f)) =
    (if n \<le> 18446744073709551 then 1000 * int n else (1000 * int n) mod 2 ^ 64)"
  using annotation_budget_value [of f n, OF assms] by (simp add: mod_pos_pos_trivial)

theorem annotation_budget_witness:
  "uint (ParseAnnotationBudget (Some [annotationBudget \<mapsto> decimal 2000])) = 2000000 \<and>
   uint (ParseAnnotationBudget (Some [annotationBudget \<mapsto> decimal 18446744073709552])) = 384"
  using annotation_budget [of "[annotationBudget \<mapsto> decimal 2000]" 2000]
    annotation_budget [of "[annotationBudget \<mapsto> decimal 18446744073709552]" 18446744073709552]
  by simp

lemma extract_weight_range:
  "1 \<le> uint (sp_weight (extractSchedulingParams p)) \<and> uint (sp_weight (extractSchedulingParams p)) \<le> 10000"
  using annotation_weight_range [of "pod_annotations p"]
  by (auto simp: extractSchedulingParams_def Let_def defaultWeight_def)

end
