(* ===== verification/Node_Fs.thy ===== *)
theory Node_Fs
  imports Annotations
begin

text \<open>
  How \<^verbatim>\<open>internal/maps/maps.go\<close> finds a pod's processes and cgroups on the node: the cgroup v2 tree
  and \<^verbatim>\<open>/proc\<close>, with the cached listing of the latter. The file system is a tree of named nodes as
  far as the agent can read it: a directory carries its inode number, which for a cgroup is the
  cgroup ID, and its entries in the order a listing gives them. Symbolic links do not occur.
\<close>

subsection \<open>The file system\<close>

datatype fsnode = FsFile string | FsDir u64 "(string \<times> fsnode) list"

fun is_dir :: "fsnode \<Rightarrow> bool" where
  "is_dir (FsDir i es) = True" | "is_dir (FsFile s) = False"

fun dir_inode :: "fsnode \<Rightarrow> u64 option" where
  "dir_inode (FsDir i es) = Some i" | "dir_inode (FsFile s) = None"

fun dir_entry :: "string \<Rightarrow> fsnode \<Rightarrow> fsnode option" where
  "dir_entry n (FsDir i es) = map_of es n" | "dir_entry n (FsFile s) = None"

fun fs_walk :: "string list \<Rightarrow> fsnode \<Rightarrow> fsnode option" where
  "fs_walk [] t = Some t"
| "fs_walk (n # ns) t = (case dir_entry n t of None \<Rightarrow> None | Some u \<Rightarrow> fs_walk ns u)"

text \<open>Path resolution: components between slashes, empty ones skipped.\<close>

definition path_components :: "string \<Rightarrow> string list" where
  "path_components p = filter (\<lambda>c. c \<noteq> []) (split_on CHR ''/'' p)"

definition os_stat :: "fsnode \<Rightarrow> string \<Rightarrow> fsnode option" where
  "os_stat root p = fs_walk (path_components p) root"

definition os_read_file :: "fsnode \<Rightarrow> string \<Rightarrow> string option" where
  "os_read_file root p = (case os_stat root p of Some (FsFile s) \<Rightarrow> Some s | _ \<Rightarrow> None)"

text \<open>The directories that \<^verbatim>\<open>filepath.WalkDir\<close> visits below a node, in preorder.\<close>

fun walk_dirs :: "fsnode \<Rightarrow> fsnode list" where
  "walk_dirs (FsFile s) = []"
| "walk_dirs (FsDir i es) = FsDir i es # concat (map (\<lambda>(n, t). walk_dirs t) es)"

record node_env =
  root_fs :: fsnode
  cgroup_base :: string  \<comment> \<open>\<^verbatim>\<open>cgroupV2Base\<close>\<close>
  proc_root :: string    \<comment> \<open>\<^verbatim>\<open>ProcRoot\<close>\<close>

definition initProcRoot :: "(string \<Rightarrow> string) \<Rightarrow> fsnode \<Rightarrow> string" where
  "initProcRoot getenv fs =
     (let p = getenv ''HOST_PROC''
      in if p \<noteq> [] then p
         else if os_stat fs ''/host/proc'' \<noteq> None then ''/host/proc'' else ''/proc'')"

definition initCgroupV2Base :: "(string \<Rightarrow> string) \<Rightarrow> string" where
  "initCgroupV2Base getenv =
     (let p = getenv ''CGROUP_V2_ROOT'' in if p \<noteq> [] then p else ''/sys/fs/cgroup'')"

subsection \<open>Locating a pod's cgroup\<close>

definition systemdUID :: "string \<Rightarrow> string" where
  "systemdUID uid = replace_all CHR ''-'' CHR ''_'' uid"

definition podCgroupDirCandidates :: "string \<Rightarrow> string \<Rightarrow> string list" where
  "podCgroupDirCandidates base uid =
     (let sysd = systemdUID uid in
      [base @ ''/kubepods.slice/kubepods-besteffort.slice/kubepods-besteffort-pod'' @ sysd @ ''.slice'',
       base @ ''/kubepods.slice/kubepods-burstable.slice/kubepods-burstable-pod'' @ sysd @ ''.slice'',
       base @ ''/kubepods.slice/kubepods-pod'' @ sysd @ ''.slice'',
       base @ ''/kubepods/besteffort/pod'' @ uid,
       base @ ''/kubepods/burstable/pod'' @ uid,
       base @ ''/kubepods/pod'' @ uid])"

text \<open>The directory found, with its path; \<open>None\<close> is the empty string of the source.\<close>

definition findPodCgroupDir :: "node_env \<Rightarrow> string \<Rightarrow> fsnode option" where
  "findPodCgroupDir env uid =
     (case find (\<lambda>dir. case os_stat (root_fs env) dir of Some fi \<Rightarrow> is_dir fi | None \<Rightarrow> False)
             (podCgroupDirCandidates (cgroup_base env) uid) of
        None \<Rightarrow> None
      | Some dir \<Rightarrow> os_stat (root_fs env) dir)"

definition dir_ids :: "fsnode \<Rightarrow> u64 list" where
  "dir_ids t = List.map_filter dir_inode (walk_dirs t)"

definition resolvePodCgroupIDs :: "node_env \<Rightarrow> string \<Rightarrow> u64 list" where
  "resolvePodCgroupIDs env uid =
     (if uid = [] then []
      else case findPodCgroupDir env uid of None \<Rightarrow> [] | Some dir \<Rightarrow> dir_ids dir)"

definition kubepods_roots :: "string \<Rightarrow> string list" where
  "kubepods_roots base = [base @ ''/kubepods.slice'', base @ ''/kubepods'']"

definition liveKubepodsCgroupIDs :: "node_env \<Rightarrow> u64 set" where
  "liveKubepodsCgroupIDs env =
     set (concat (map (\<lambda>root. case os_stat (root_fs env) root of None \<Rightarrow> [] | Some t \<Rightarrow> dir_ids t)
       (kubepods_roots (cgroup_base env))))"

subsection \<open>Process IDs\<close>

definition parseCgroupProcs :: "string \<Rightarrow> s32 list" where
  "parseCgroupProcs data =
     List.map_filter
       (\<lambda>line. let line = trim_space line
               in if line = [] then None else map_option word_of_int (parse_int 32 line))
       (split_on (char_of (10 :: nat)) (trim_space data))"

definition resolveViaCgroupV2 :: "node_env \<Rightarrow> string \<Rightarrow> s32 list" where
  "resolveViaCgroupV2 env uid =
     (case findPodCgroupDir env uid of
        None \<Rightarrow> []
      | Some dir \<Rightarrow>
          concat (map (\<lambda>d. case dir_entry ''cgroup.procs'' d of
                             Some (FsFile data) \<Rightarrow> parseCgroupProcs data | _ \<Rightarrow> [])
            (walk_dirs dir)))"

text \<open>The cached listing of \<^verbatim>\<open>ProcRoot\<close>; times are nanoseconds. \<open>None\<close> is the nil slice.\<close>

type_synonym dirents = "(string \<times> fsnode) list"

record proc_cache =
  pc_entries :: "dirents option"
  pc_expiry :: int

definition procCacheTTL :: int where
  "procCacheTTL = 5000000000"

definition os_read_dir :: "fsnode \<Rightarrow> string \<Rightarrow> dirents option" where
  "os_read_dir root p = (case os_stat root p of Some (FsDir i es) \<Rightarrow> Some es | _ \<Rightarrow> None)"

text \<open>
  \<^verbatim>\<open>getProcDirCache\<close> in its two critical sections: the check under the read lock at time \<open>t\<close>, and the
  refill under the write lock, which checks again at time \<open>t\<close> because the cache may have changed.
\<close>

definition proc_cache_valid :: "int \<Rightarrow> proc_cache \<Rightarrow> bool" where
  "proc_cache_valid t c \<longleftrightarrow> t < pc_expiry c \<and> pc_entries c \<noteq> None"

definition proc_cache_read :: "int \<Rightarrow> proc_cache \<Rightarrow> dirents option" where
  "proc_cache_read t c = (if proc_cache_valid t c then pc_entries c else None)"

definition proc_cache_fill :: "node_env \<Rightarrow> int \<Rightarrow> proc_cache \<Rightarrow> dirents \<times> proc_cache" where
  "proc_cache_fill env t c =
     (if proc_cache_valid t c then (the (pc_entries c), c)
      else case os_read_dir (root_fs env) (proc_root env) of
             None \<Rightarrow> ([], c)
           | Some es \<Rightarrow> (es, \<lparr>pc_entries = Some es, pc_expiry = t + procCacheTTL\<rparr>))"

definition getProcDirCache :: "node_env \<Rightarrow> int \<Rightarrow> proc_cache \<Rightarrow> dirents \<times> proc_cache" where
  "getProcDirCache env t c =
     (case proc_cache_read t c of Some es \<Rightarrow> (es, c) | None \<Rightarrow> proc_cache_fill env t c)"

definition pod_markers :: "string \<Rightarrow> string list" where
  "pod_markers uid =
     (let sysd = systemdUID uid
      in if sysd \<noteq> uid then [''pod'' @ uid, ''pod'' @ sysd] else [''pod'' @ uid])"

definition scan_entry :: "node_env \<Rightarrow> string list \<Rightarrow> string \<times> fsnode \<Rightarrow> s32 option" where
  "scan_entry env markers e =
     (if \<not> is_dir (snd e) then None
      else case parse_int 64 (fst e) of
             None \<Rightarrow> None
           | Some pid \<Rightarrow>
               (case os_read_file (root_fs env) (proc_root env @ ''/'' @ fst e @ ''/cgroup'') of
                  None \<Rightarrow> None
                | Some content \<Rightarrow>
                    if list_ex (contains content) markers then Some (word_of_int pid) else None))"

definition resolveViaProcScan ::
    "node_env \<Rightarrow> int \<Rightarrow> proc_cache \<Rightarrow> string \<Rightarrow> s32 list \<times> proc_cache" where
  "resolveViaProcScan env t c uid =
     (let (entries, c) = getProcDirCache env t c
      in (List.map_filter (scan_entry env (pod_markers uid)) entries, c))"

definition resolvePodPIDs ::
    "node_env \<Rightarrow> int \<Rightarrow> proc_cache \<Rightarrow> string \<Rightarrow> s32 list \<times> proc_cache" where
  "resolvePodPIDs env t c uid =
     (if uid = [] then ([], c)
      else let pids = resolveViaCgroupV2 env uid
           in if pids \<noteq> [] then (pids, c) else resolveViaProcScan env t c uid)"

subsection \<open>Walking directories\<close>

lemma walk_dirs_dir: "d \<in> set (walk_dirs t) \<Longrightarrow> is_dir d"
  by (induction t rule: walk_dirs.induct) auto

lemma walk_dirs_entry: "dir_entry n t = Some u \<Longrightarrow> set (walk_dirs u) \<subseteq> set (walk_dirs t)"
  by (cases t) (force dest: map_of_SomeD)+

lemma walk_dirs_fs_walk: "fs_walk ns t = Some u \<Longrightarrow> set (walk_dirs u) \<subseteq> set (walk_dirs t)"
proof (induction ns arbitrary: t)
  case (Cons n ns)
  then obtain v where "dir_entry n t = Some v" "fs_walk ns v = Some u"
    by (auto split: option.splits)
  with Cons.IH walk_dirs_entry show ?case by blast
qed simp

lemma set_dir_ids: "set (dir_ids t) = {i. \<exists>d \<in> set (walk_dirs t). dir_inode d = Some i}"
  by (auto simp: dir_ids_def List.map_filter_def image_iff) force

lemma dir_ids_mono: "fs_walk ns t = Some u \<Longrightarrow> set (dir_ids u) \<subseteq> set (dir_ids t)"
  using walk_dirs_fs_walk [of ns t u] unfolding set_dir_ids by blast

lemma fs_walk_append:
  "fs_walk (xs @ ys) t = (case fs_walk xs t of None \<Rightarrow> None | Some u \<Rightarrow> fs_walk ys u)"
  by (induction xs arbitrary: t) (auto split: option.splits)

lemma split_on_sep: "split_on sep (s @ sep # r) = split_on sep s @ split_on sep r"
  by (induction s) (auto split: list.splits)

lemma path_components_slash:
  "path_components (p @ CHR ''/'' # q) = path_components p @ path_components q"
  by (simp add: path_components_def split_on_sep)

lemma os_stat_below:
  assumes "os_stat fs (p @ CHR ''/'' # q) = Some u"
  shows "\<exists>t. os_stat fs p = Some t \<and> set (dir_ids u) \<subseteq> set (dir_ids t)"
  using assms dir_ids_mono [of "path_components q" _ u]
  by (auto simp: os_stat_def path_components_slash fs_walk_append split: option.splits)

text \<open>Every candidate directory lies below one of the two kubepods roots.\<close>

lemma candidate_below_root:
  assumes "dir \<in> set (podCgroupDirCandidates base uid)"
  shows "\<exists>r \<in> set (kubepods_roots base). \<exists>q. dir = r @ CHR ''/'' # q"
  using assms by (auto simp: podCgroupDirCandidates_def kubepods_roots_def Let_def)

lemma find_pod_dir:
  assumes "findPodCgroupDir env uid = Some d"
  obtains dir where "dir \<in> set (podCgroupDirCandidates (cgroup_base env) uid)"
    "os_stat (root_fs env) dir = Some d" "is_dir d"
  using assms by (auto simp: findPodCgroupDir_def find_Some_iff in_set_conv_nth
      split: option.splits)

lemma live_root:
  "r \<in> set (kubepods_roots (cgroup_base env)) \<Longrightarrow> os_stat (root_fs env) r = Some t \<Longrightarrow>
   set (dir_ids t) \<subseteq> liveKubepodsCgroupIDs env"
  by (force simp: liveKubepodsCgroupIDs_def)

text \<open>
  Whatever the cgroup driver and the QoS class, the cgroup IDs found for a pod are among the IDs
  that count as live when stale entries are swept.
\<close>

lemma pod_cgroups_live: "set (resolvePodCgroupIDs env uid) \<subseteq> liveKubepodsCgroupIDs env"
proof (cases "uid = [] \<or> findPodCgroupDir env uid = None")
  case True
  then show ?thesis by (auto simp: resolvePodCgroupIDs_def)
next
  case False
  then obtain d where d: "findPodCgroupDir env uid = Some d" "resolvePodCgroupIDs env uid = dir_ids d"
    by (auto simp: resolvePodCgroupIDs_def)
  then obtain dir where "dir \<in> set (podCgroupDirCandidates (cgroup_base env) uid)"
      "os_stat (root_fs env) dir = Some d"
    by (auto elim: find_pod_dir)
  then obtain r q where r: "r \<in> set (kubepods_roots (cgroup_base env))"
      "os_stat (root_fs env) (r @ CHR ''/'' # q) = Some d"
    using candidate_below_root by metis
  from os_stat_below [OF r(2)] obtain t where "os_stat (root_fs env) r = Some t"
      "set (dir_ids d) \<subseteq> set (dir_ids t)"
    by blast
  then show ?thesis using live_root [OF r(1)] d(2) by auto
qed

subsection \<open>The listing cache\<close>

text \<open>The node over time, and the cache after calls at the times \<open>ts\<close>.\<close>

definition proc_cache_run :: "(int \<Rightarrow> node_env) \<Rightarrow> int list \<Rightarrow> proc_cache \<Rightarrow> proc_cache" where
  "proc_cache_run E ts c = fold (\<lambda>t c. snd (getProcDirCache (E t) t c)) ts c"

definition empty_proc_cache :: proc_cache where
  "empty_proc_cache = \<lparr>pc_entries = None, pc_expiry = 0\<rparr>"

abbreviation proc_listing :: "(int \<Rightarrow> node_env) \<Rightarrow> int \<Rightarrow> dirents option" where
  "proc_listing E t \<equiv> os_read_dir (root_fs (E t)) (proc_root (E t))"

definition proc_cache_ok :: "(int \<Rightarrow> node_env) \<Rightarrow> int \<Rightarrow> proc_cache \<Rightarrow> bool" where
  "proc_cache_ok E t c \<longleftrightarrow> pc_entries c = None \<or>
     (\<exists>t0 \<le> t. pc_expiry c = t0 + procCacheTTL \<and> proc_listing E t0 = pc_entries c)"

lemma proc_cache_ok_later: "proc_cache_ok E t c \<Longrightarrow> t \<le> t' \<Longrightarrow> proc_cache_ok E t' c"
  by (auto simp: proc_cache_ok_def intro: order_trans)

lemma get_proc_cache_ok:
  assumes "proc_cache_ok E t c"
  shows "proc_cache_ok E t (snd (getProcDirCache (E t) t c))"
  using assms
  by (auto simp: getProcDirCache_def proc_cache_read_def proc_cache_fill_def proc_cache_ok_def
      split: option.splits)

lemma get_proc_cache_fresh:
  assumes "proc_cache_ok E t c" and "fst (getProcDirCache (E t) t c) = es"
  shows "(\<exists>t0. t - procCacheTTL < t0 \<and> t0 \<le> t \<and> proc_listing E t0 = Some es) \<or>
    es = [] \<and> proc_listing E t = None"
proof (cases "proc_cache_valid t c")
  case True
  then obtain t0 where "t0 \<le> t" "t < t0 + procCacheTTL" "proc_listing E t0 = pc_entries c"
    using assms(1) by (auto simp: proc_cache_ok_def proc_cache_valid_def)
  moreover have "pc_entries c = Some es"
    using True assms(2) by (auto simp: getProcDirCache_def proc_cache_read_def proc_cache_valid_def)
  ultimately show ?thesis by (intro disjI1 exI [of _ t0]) auto
next
  case False
  then have "fst (proc_cache_fill (E t) t c) = es"
    using assms(2) by (simp add: getProcDirCache_def proc_cache_read_def)
  with False have "proc_listing E t = Some es \<or> es = [] \<and> proc_listing E t = None"
    by (auto simp: proc_cache_fill_def split: option.splits)
  moreover have "t - procCacheTTL < t" by (simp add: procCacheTTL_def)
  ultimately show ?thesis by blast
qed

lemma proc_cache_run_ok:
  "sorted ts \<Longrightarrow> \<forall>t \<in> set ts. t \<le> t' \<Longrightarrow> (case ts of [] \<Rightarrow> True | t # _ \<Rightarrow> proc_cache_ok E t c) \<Longrightarrow>
   ts \<noteq> [] \<Longrightarrow> proc_cache_ok E t' (proc_cache_run E ts c)"
proof (induction ts arbitrary: c)
  case (Cons t ts)
  have ok: "proc_cache_ok E t (snd (getProcDirCache (E t) t c))"
    using Cons.prems(3) by (intro get_proc_cache_ok) simp
  show ?case
  proof (cases ts)
    case Nil
    then show ?thesis using ok Cons.prems(2) by (auto simp: proc_cache_run_def intro: proc_cache_ok_later)
  next
    case (Cons u us)
    then have "proc_cache_ok E u (snd (getProcDirCache (E t) t c))"
      using ok Cons.prems(1) by (auto intro: proc_cache_ok_later)
    then have "proc_cache_ok E t' (proc_cache_run E ts (snd (getProcDirCache (E t) t c)))"
      using Cons Cons.prems(1,2) by (intro Cons.IH) auto
    then show ?thesis by (simp add: proc_cache_run_def)
  qed
qed simp

text \<open>
  Through any sequence of calls at increasing times, starting with the empty
  cache, a call returns the listing of \<^verbatim>\<open>/proc\<close> as it was at some instant of the last five seconds, or
  nothing when \<^verbatim>\<open>/proc\<close> cannot be listed at the time of the call.
\<close>

theorem proc_cache_fresh:
  assumes "sorted (ts @ [t])"
    and "fst (getProcDirCache (E t) t (proc_cache_run E ts empty_proc_cache)) = es"
  shows "(\<exists>t0. t - 5000000000 < t0 \<and> t0 \<le> t \<and> proc_listing E t0 = Some es) \<or>
    es = [] \<and> proc_listing E t = None"
proof -
  have e: "proc_cache_ok E u empty_proc_cache" for u
    by (simp add: proc_cache_ok_def empty_proc_cache_def)
  have "proc_cache_ok E t (proc_cache_run E ts empty_proc_cache)"
  proof (cases "ts = []")
    case True
    then show ?thesis by (simp add: proc_cache_run_def e)
  next
    case False
    then show ?thesis
      using assms(1) by (intro proc_cache_run_ok) (auto simp: sorted_append e split: list.splits)
  qed
  from get_proc_cache_fresh [OF this assms(2)] show ?thesis by (simp add: procCacheTTL_def)
qed

text \<open>A process appears one second after a call; a call within the TTL does not see it, a later one does.\<close>

definition proc_demo :: "int \<Rightarrow> node_env" where
  "proc_demo t =
     \<lparr>root_fs = FsDir 1 [(''proc'', FsDir 2 (if 1000000000 \<le> t then [(''7'', FsDir 3 [])] else []))],
      cgroup_base = ''/sys/fs/cgroup'', proc_root = ''/proc''\<rparr>"

theorem proc_cache_fresh_witness:
  "\<exists>es t0. fst (getProcDirCache (proc_demo 6000000000) 6000000000
       (proc_cache_run proc_demo [0] empty_proc_cache)) = es \<and>
     1000000000 < t0 \<and> proc_listing proc_demo t0 = Some es"
proof -
  let ?es = "fst (getProcDirCache (proc_demo 6000000000) 6000000000
       (proc_cache_run proc_demo [0] empty_proc_cache))"
  have "path_components ''/proc'' = [''proc'']" by code_simp
  then have "proc_listing proc_demo 6000000000 \<noteq> None"
    by (simp add: proc_demo_def os_read_dir_def os_stat_def)
  then show ?thesis
    using proc_cache_fresh [of "[0]" 6000000000 proc_demo ?es] by auto
qed

subsection \<open>Process lists\<close>

lemma map_filter_map_Some: "(\<And>x. x \<in> set xs \<Longrightarrow> f x = Some (g x)) \<Longrightarrow> List.map_filter f xs = map g xs"
  by (induction xs) (auto simp: List.map_filter_simps)

abbreviation newline :: char where
  "newline \<equiv> char_of (10 :: nat)"

lemma digit_not_space: "is_digit c \<Longrightarrow> \<not> is_space c"
  by (auto simp: is_digit_def is_space_def)

lemma newline_space: "is_space newline"
  by (simp add: is_space_def)

lemma trim_space_id:
  assumes "s \<noteq> []" "\<not> is_space (hd s)" "\<not> is_space (last s)"
  shows "trim_space s = s"
proof -
  have "dropWhile is_space s = s" using assms(1,2) by (cases s) auto
  moreover have "dropWhile is_space (rev s) = rev s"
    using assms(1,3) by (cases s rule: rev_cases) auto
  ultimately show ?thesis by (simp add: trim_space_def)
qed

lemma trim_space_suffix: "is_space c \<Longrightarrow> s \<noteq> [] \<Longrightarrow> \<not> is_space (hd s) \<Longrightarrow> trim_space (s @ [c]) = trim_space s"
  by (cases s) (auto simp: trim_space_def)

lemma trim_decimal: "trim_space (decimal n) = decimal n"
proof -
  have "decimal n \<noteq> []" "\<forall>c \<in> set (decimal n). \<not> is_space c"
    using decimal_digits [of n] digit_not_space by (auto simp: list_all_iff)
  then show ?thesis by (intro trim_space_id) auto
qed

definition procs_file :: "nat list \<Rightarrow> string" where
  "procs_file ps = concat (map (\<lambda>p. decimal p @ [newline]) ps)"

lemma procs_file_join: "ps \<noteq> [] \<Longrightarrow> procs_file ps = join_on newline (map decimal ps) @ [newline]"
proof (induction ps)
  case (Cons p ps)
  then show ?case by (cases ps) (auto simp: procs_file_def)
qed simp

lemma join_decimal_ends:
  assumes "ps \<noteq> []"
  defines "s \<equiv> join_on newline (map decimal ps)"
  shows "s \<noteq> [] \<and> \<not> is_space (hd s) \<and> \<not> is_space (last s)"
  unfolding s_def using assms(1)
proof (induction ps)
  case (Cons p ps)
  have d: "decimal p \<noteq> []" "\<not> is_space (hd (decimal p))" "\<not> is_space (last (decimal p))"
    using decimal_digits [of p] digit_not_space by (auto simp: list_all_iff)
  show ?case
  proof (cases ps)
    case Nil
    then show ?thesis using d by simp
  next
    case (Cons q qs)
    then show ?thesis using d Cons.IH by auto
  qed
qed simp

lemma parse_procs_lines:
  assumes "ps \<noteq> []"
  shows "split_on newline (trim_space (procs_file ps)) = map decimal ps"
proof -
  let ?s = "join_on newline (map decimal ps)"
  have e: "?s \<noteq> []" "\<not> is_space (hd ?s)" "\<not> is_space (last ?s)"
    using join_decimal_ends [OF assms] by auto
  have "trim_space (procs_file ps) = ?s"
    using assms e by (simp add: procs_file_join trim_space_suffix newline_space trim_space_id)
  moreover have "\<forall>w \<in> set (map decimal ps). newline \<notin> set w"
    using decimal_digits digit_not_space newline_space by (fastforce simp: list_all_iff)
  ultimately show ?thesis using assms by (simp add: split_join)
qed

text \<open>
  Reading a \<^verbatim>\<open>cgroup.procs\<close> file that lists process IDs one per line gives back
  exactly those IDs, in order; an empty file gives none.
\<close>

theorem procs_roundtrip:
  assumes "\<forall>p \<in> set ps. p < 2 ^ 31"
  shows "parseCgroupProcs (procs_file ps) = map of_nat ps"
proof (cases "ps = []")
  case True
  then show ?thesis by (simp add: parseCgroupProcs_def procs_file_def trim_space_def List.map_filter_simps)
next
  case False
  have "decimal p \<noteq> []" for p using decimal_digits [of p] by blast
  then have "List.map_filter (\<lambda>line. let line = trim_space line
        in if line = [] then None else map_option word_of_int (parse_int 32 line)) (map decimal ps) =
      map (\<lambda>w. of_nat (digits_value w)) (map decimal ps)"
    using assms
    by (intro map_filter_map_Some) (auto simp: Let_def trim_decimal parse_int_decimal digits_value_decimal)
  then show ?thesis
    using parse_procs_lines [OF False]
    by (simp add: parseCgroupProcs_def digits_value_decimal comp_def)
qed

theorem procs_roundtrip_witness: "parseCgroupProcs (procs_file [4711, 12]) = [4711, 12]"
  using procs_roundtrip [of "[4711, 12]"] by simp

end
