(* ===== verification/Pod_Maps.thy ===== *)
theory Pod_Maps
  imports Node_Fs Bpf_Sched
begin

text \<open>
  The agent's side of the BPF maps, \<^verbatim>\<open>internal/maps/maps.go\<close>: writing and removing a pod's
  parameters, sweeping stale entries, reading the counters. The state holds the contents of the
  pinned maps (\<open>None\<close> while a map is not open), the per-pod bookkeeping and the \<^verbatim>\<open>/proc\<close> cache.
  The map operations of the eBPF library are a parameter; the locale \<open>kernel_map\<close> is what the
  agent relies on, and a hash map of bounded size provides it.
\<close>

subsection \<open>Map operations\<close>

record 'k map_io =
  mput :: "'k \<Rightarrow> task_params \<Rightarrow> ('k \<rightharpoonup> task_params) \<Rightarrow> ('k \<rightharpoonup> task_params) option"
  mdel :: "'k \<Rightarrow> ('k \<rightharpoonup> task_params) \<Rightarrow> ('k \<rightharpoonup> task_params) option"
  miter :: "('k \<rightharpoonup> task_params) \<Rightarrow> 'k list"  \<comment> \<open>the keys in the order an iterator gives them\<close>

text \<open>A loop of puts: the keys written, the first key that failed, the map.\<close>

definition put_step ::
    "'k map_io \<Rightarrow> task_params \<Rightarrow> 'k \<Rightarrow> 'k list \<times> 'k option \<times> ('k \<rightharpoonup> task_params)
     \<Rightarrow> 'k list \<times> 'k option \<times> ('k \<rightharpoonup> task_params)" where
  "put_step io tp k st =
     (case st of (written, firstErr, m) \<Rightarrow>
        (case mput io k tp m of
           None \<Rightarrow> (written, if firstErr = None then Some k else firstErr, m)
         | Some m' \<Rightarrow> (written @ [k], firstErr, m')))"

definition put_loop ::
    "'k map_io \<Rightarrow> task_params \<Rightarrow> 'k list \<Rightarrow> ('k \<rightharpoonup> task_params)
     \<Rightarrow> 'k list \<times> 'k option \<times> ('k \<rightharpoonup> task_params)" where
  "put_loop io tp ks m = fold (put_step io tp) ks ([], None, m)"

text \<open>Best-effort deletes: errors are ignored.\<close>

definition del_loop :: "'k map_io \<Rightarrow> 'k list \<Rightarrow> ('k \<rightharpoonup> task_params) \<Rightarrow> ('k \<rightharpoonup> task_params)" where
  "del_loop io ks m = fold (\<lambda>k m. case mdel io k m of None \<Rightarrow> m | Some m' \<Rightarrow> m') ks m"

text \<open>Deletes that are counted when they succeed.\<close>

definition del_count ::
    "'k map_io \<Rightarrow> 'k list \<Rightarrow> ('k \<rightharpoonup> task_params) \<Rightarrow> nat \<times> ('k \<rightharpoonup> task_params)" where
  "del_count io ks m =
     fold (\<lambda>k (n, m). case mdel io k m of None \<Rightarrow> (n, m) | Some m' \<Rightarrow> (Suc n, m')) ks (0, m)"

subsection \<open>State\<close>

text \<open>The statistics map answers a per-CPU lookup, or only a plain one (older objects), or none.\<close>

datatype stats_layout = PerCpu "sched_stats list" | Plain sched_stats | Unreadable

record agent_maps =
  am_task :: "(u32 \<rightharpoonup> task_params) option"
  am_cgroup :: "(u64 \<rightharpoonup> task_params) option"
  am_stats :: "stats_layout option"
  podPIDs :: "string \<rightharpoonup> u32 list"
  podCgroupIDs :: "string \<rightharpoonup> u64 list"
  am_proc :: proc_cache

datatype map_error = PutPid u32 | PutCgroup u64

definition New_maps :: agent_maps where
  "New_maps =
     \<lparr>am_task = None, am_cgroup = None, am_stats = None, podPIDs = Map.empty,
      podCgroupIDs = Map.empty, am_proc = empty_proc_cache\<rparr>"

text \<open>\<^verbatim>\<open>Open\<close>, given what \<^verbatim>\<open>LoadPinnedMap\<close> returns for the three pins; \<open>False\<close> is the error.\<close>

definition Open_maps ::
    "(u32 \<rightharpoonup> task_params) option \<Rightarrow> (u64 \<rightharpoonup> task_params) option \<Rightarrow> stats_layout option
     \<Rightarrow> agent_maps \<Rightarrow> bool \<times> agent_maps" where
  "Open_maps tp cg st s =
     (case tp of
        None \<Rightarrow> (False, s)
      | Some tm \<Rightarrow>
          let s = s\<lparr>am_task := Some tm\<rparr>;
              s = (case cg of None \<Rightarrow> s | Some cm \<Rightarrow> s\<lparr>am_cgroup := Some cm\<rparr>);
              s = (case st of None \<Rightarrow> s | Some sm \<Rightarrow> s\<lparr>am_stats := Some sm\<rparr>)
          in (True, s))"

subsection \<open>Writing and removing parameters\<close>

definition to_task_params :: "sched_params \<Rightarrow> task_params" where
  "to_task_params sp = \<lparr>weight = sp_weight sp, budget_ns = sp_budget_ns sp\<rparr>"

definition writeCgroupParams ::
    "u64 map_io \<Rightarrow> u64 list \<Rightarrow> task_params \<Rightarrow> (u64 \<rightharpoonup> task_params)
     \<Rightarrow> u64 list \<times> u64 option \<times> (u64 \<rightharpoonup> task_params)" where
  "writeCgroupParams io cgids tp cm = put_loop io tp cgids cm"

definition pid_fallback ::
    "u32 map_io \<Rightarrow> node_env \<Rightarrow> int \<Rightarrow> string \<Rightarrow> task_params \<Rightarrow> (u32 \<rightharpoonup> task_params)
     \<Rightarrow> agent_maps \<Rightarrow> map_error option \<times> agent_maps" where
  "pid_fallback io env t uid tp tm s =
     (let (pids, pc) = resolvePodPIDs env t (am_proc s) uid;
          (written, err, tm) = put_loop io tp pids tm;
          s = s\<lparr>am_proc := pc, am_task := Some tm\<rparr>;
          s = (if uid \<noteq> [] then s\<lparr>podPIDs := (podPIDs s)(uid \<mapsto> written)\<rparr> else s)
      in (map_option PutPid err, s))"

definition UpdatePodParams ::
    "u64 map_io \<Rightarrow> u32 map_io \<Rightarrow> node_env \<Rightarrow> int \<Rightarrow> pod option \<Rightarrow> sched_params list \<Rightarrow> agent_maps
     \<Rightarrow> map_error option \<times> agent_maps" where
  "UpdatePodParams cgio pidio env t p resolved s =
     (case (am_task s, p) of
        (Some tm, Some pod) \<Rightarrow>
          let params = (case resolved of r # _ \<Rightarrow> r | [] \<Rightarrow> extractSchedulingParams pod);
              tp = to_task_params params;
              uid = pod_uid pod
          in (case am_cgroup s of
                Some cm \<Rightarrow>
                  let cgids = resolvePodCgroupIDs env uid
                  in if cgids \<noteq> []
                     then let (written, err, cm) = writeCgroupParams cgio cgids tp cm;
                              s = s\<lparr>am_cgroup := Some cm\<rparr>;
                              s = (if uid \<noteq> [] then s\<lparr>podCgroupIDs := (podCgroupIDs s)(uid \<mapsto> written)\<rparr>
                                   else s)
                          in (map_option PutCgroup err, s)
                     else pid_fallback pidio env t uid tp tm s
              | None \<Rightarrow> pid_fallback pidio env t uid tp tm s)
      | _ \<Rightarrow> (None, s))"

definition recorded :: "(string \<rightharpoonup> 'k list) \<Rightarrow> string \<Rightarrow> 'k list" where
  "recorded b uid = (case b uid of None \<Rightarrow> [] | Some ks \<Rightarrow> ks)"

text \<open>
  The keys are collected in a Go map, so each is deleted once, in an order the language leaves
  open; lemma \<open>del_loop_order\<close> below shows that the order makes no difference.
\<close>

definition RemovePodParams ::
    "u64 map_io \<Rightarrow> u32 map_io \<Rightarrow> node_env \<Rightarrow> int \<Rightarrow> pod option \<Rightarrow> agent_maps \<Rightarrow> agent_maps" where
  "RemovePodParams cgio pidio env t p s =
     (case (am_task s, p) of
        (Some tm, Some pod) \<Rightarrow>
          let uid = pod_uid pod;
              recordedPIDs = recorded (podPIDs s) uid;
              recordedCgIDs = recorded (podCgroupIDs s) uid;
              s = s\<lparr>podPIDs := (podPIDs s)(uid := None), podCgroupIDs := (podCgroupIDs s)(uid := None)\<rparr>;
              s = (case am_cgroup s of
                     None \<Rightarrow> s
                   | Some cm \<Rightarrow> s\<lparr>am_cgroup := Some (del_loop cgio
                       (remdups (recordedCgIDs @ resolvePodCgroupIDs env uid)) cm)\<rparr>);
              (pids, pc) = resolvePodPIDs env t (am_proc s) uid
          in s\<lparr>am_proc := pc, am_task := Some (del_loop pidio (remdups (recordedPIDs @ pids)) tm)\<rparr>
      | _ \<Rightarrow> s)"

definition CleanStaleCgroupIDs :: "u64 map_io \<Rightarrow> node_env \<Rightarrow> agent_maps \<Rightarrow> nat \<times> agent_maps" where
  "CleanStaleCgroupIDs io env s =
     (case am_cgroup s of
        None \<Rightarrow> (0, s)
      | Some cm \<Rightarrow>
          let live = liveKubepodsCgroupIDs env
          in if live = {} then (0, s)
             else let stale = filter (\<lambda>k. k \<notin> live) (miter io cm);
                      (removed, cm) = del_count io stale cm
                  in (removed, s\<lparr>am_cgroup := Some cm\<rparr>))"

text \<open>The agent's sweep of process IDs without a directory under \<^verbatim>\<open>/proc\<close> (\<^verbatim>\<open>internal/sched/agent.go\<close>).\<close>

definition cleanStalePIDs :: "u32 map_io \<Rightarrow> node_env \<Rightarrow> agent_maps \<Rightarrow> agent_maps" where
  "cleanStalePIDs io env s =
     (case am_task s of
        None \<Rightarrow> s
      | Some tm \<Rightarrow>
          let stale = filter (\<lambda>k. os_stat (root_fs env) (proc_root env @ ''/'' @ decimal (unat k)) = None)
                        (miter io tm)
          in s\<lparr>am_task := Some (del_loop io stale tm)\<rparr>)"

subsection \<open>Reading\<close>

definition zero_stats :: sched_stats where
  "zero_stats = \<lparr>enqueues = 0, local_dispatches = 0, budget_capped = 0, defaults = 0\<rparr>"

definition add_stats :: "sched_stats \<Rightarrow> sched_stats \<Rightarrow> sched_stats" where
  "add_stats s out =
     \<lparr>enqueues = enqueues out + enqueues s, local_dispatches = local_dispatches out + local_dispatches s,
      budget_capped = budget_capped out + budget_capped s, defaults = defaults out + defaults s\<rparr>"

definition ReadStats :: "agent_maps \<Rightarrow> sched_stats option" where
  "ReadStats s =
     (case am_stats s of
        None \<Rightarrow> None
      | Some (PerCpu perCPU) \<Rightarrow> Some (fold add_stats perCPU zero_stats)
      | Some (Plain out) \<Rightarrow> Some out
      | Some Unreadable \<Rightarrow> None)"

definition TrackedPods :: "agent_maps \<Rightarrow> nat" where
  "TrackedPods s = card (dom (podCgroupIDs s) \<union> dom (podPIDs s))"

record pod_detail =
  pd_cgroups :: "u64 list"
  pd_pids :: "u32 list"

text \<open>The details by pod UID; Go returns them as a slice in the order of a map iteration.\<close>

definition PodDetails :: "agent_maps \<Rightarrow> (string \<rightharpoonup> pod_detail)" where
  "PodDetails s =
     (\<lambda>uid. let merged = (case podCgroupIDs s uid of
                            None \<Rightarrow> None | Some ids \<Rightarrow> Some \<lparr>pd_cgroups = ids, pd_pids = []\<rparr>)
            in (case podPIDs s uid of
                  None \<Rightarrow> merged
                | Some pids \<Rightarrow>
                    Some ((case merged of None \<Rightarrow> \<lparr>pd_cgroups = [], pd_pids = []\<rparr> | Some d \<Rightarrow> d)
                            \<lparr>pd_pids := pids\<rparr>)))"

text \<open>\<^verbatim>\<open>DumpParams\<close>, given whether iterating the two maps ends with an error.\<close>

definition DumpParams ::
    "bool \<Rightarrow> bool \<Rightarrow> agent_maps \<Rightarrow> ((u64 \<rightharpoonup> task_params) \<times> (u32 \<rightharpoonup> task_params)) option" where
  "DumpParams cgErr pidErr s =
     (if am_cgroup s \<noteq> None \<and> cgErr then None
      else if am_task s \<noteq> None \<and> pidErr then None
      else Some (case am_cgroup s of None \<Rightarrow> Map.empty | Some m \<Rightarrow> m,
                 case am_task s of None \<Rightarrow> Map.empty | Some m \<Rightarrow> m))"

subsection \<open>What the agent relies on\<close>

lemma restrict_twice: "m |` (- {k}) |` (- A) = m |` (- insert k A)"
  by (auto simp: restrict_map_def fun_eq_iff)

lemma restrict_all: "m |` UNIV = m"
  by (simp add: restrict_map_def)

locale kernel_map =
  fixes io :: "'k map_io"
  assumes put_ok: "mput io k v m = Some m' \<Longrightarrow> m' = m(k \<mapsto> v)"
    and del_eq: "mdel io k m = (if k \<in> dom m then Some (m(k := None)) else None)"
    and iter_keys: "finite (dom m) \<Longrightarrow> set (miter io m) = dom m \<and> distinct (miter io m)"
begin

lemma put_loop_step:
  assumes "fold (put_step io tp) ks (w, e, m) = (w', e', m')"
  shows "\<exists>new. w' = w @ new \<and> set new \<subseteq> set ks \<and> m' = (\<lambda>k. if k \<in> set new then Some tp else m k) \<and>
    (e' = None \<longrightarrow> e = None \<and> new = ks)"
  using assms
proof (induction ks arbitrary: w e m)
  case Nil
  then show ?case by auto
next
  case (Cons k ks)
  show ?case
  proof (cases "mput io k tp m")
    case None
    then have "put_step io tp k (w, e, m) = (w, if e = None then Some k else e, m)"
      by (simp add: put_step_def)
    with Cons.prems have "fold (put_step io tp) ks (w, if e = None then Some k else e, m) = (w', e', m')"
      by simp
    from Cons.IH [OF this] show ?thesis by (auto split: if_splits)
  next
    case (Some m1)
    then have "put_step io tp k (w, e, m) = (w @ [k], e, m(k \<mapsto> tp))"
      using put_ok [OF Some] by (simp add: put_step_def)
    with Cons.prems have "fold (put_step io tp) ks (w @ [k], e, m(k \<mapsto> tp)) = (w', e', m')"
      by simp
    from Cons.IH [OF this] obtain new where
      "w' = (w @ [k]) @ new" "set new \<subseteq> set ks"
      "m' = (\<lambda>x. if x \<in> set new then Some tp else (m(k \<mapsto> tp)) x)"
      "e' = None \<longrightarrow> e = None \<and> new = ks" by blast
    then show ?thesis by (intro exI [of _ "k # new"]) auto
  qed
qed

lemma put_loop_spec:
  assumes "put_loop io tp ks m = (w, e, m')"
  shows "set w \<subseteq> set ks \<and> m' = (\<lambda>k. if k \<in> set w then Some tp else m k) \<and> (e = None \<longrightarrow> w = ks)"
  using put_loop_step [OF assms [unfolded put_loop_def]] by auto

lemma del_loop_spec: "del_loop io ks m = m |` (- set ks)"
proof (induction ks arbitrary: m)
  case (Cons k ks)
  have "(case mdel io k m of None \<Rightarrow> m | Some m' \<Rightarrow> m') = m |` (- {k})"
    by (auto simp: del_eq restrict_map_def fun_eq_iff)
  then have "del_loop io (k # ks) m = m |` (- {k}) |` (- set ks)"
    using Cons [of "m |` (- {k})"] by (simp add: del_loop_def del: restrict_restrict)
  then show ?case by (simp only: restrict_twice list.set)
qed (simp add: del_loop_def restrict_all)

lemma del_loop_order: "set ks = set ks' \<Longrightarrow> del_loop io ks m = del_loop io ks' m"
  by (simp add: del_loop_spec)

lemma del_count_step:
  "distinct ks \<Longrightarrow> set ks \<subseteq> dom m \<Longrightarrow>
   fold (\<lambda>k (n, m). case mdel io k m of None \<Rightarrow> (n, m) | Some m' \<Rightarrow> (Suc n, m')) ks (n, m) =
     (n + length ks, m |` (- set ks))"
proof (induction ks arbitrary: n m)
  case (Cons k ks)
  have "m(k := None) = m |` (- {k})" by (auto simp: restrict_map_def fun_eq_iff)
  moreover have "set ks \<subseteq> dom (m(k := None))" using Cons.prems by auto
  moreover have "k \<in> dom m" "distinct ks" using Cons.prems by auto
  ultimately have "fold (\<lambda>k (n, m). case mdel io k m of None \<Rightarrow> (n, m) | Some m' \<Rightarrow> (Suc n, m')) (k # ks) (n, m) =
      (n + length (k # ks), m |` (- {k}) |` (- set ks))"
    using Cons.IH [of "m |` (- {k})" "Suc n"] del_eq [of k m] by (simp del: restrict_restrict)
  then show ?case by (simp only: restrict_twice list.set)
qed (simp add: restrict_all)

lemma sweep_spec:
  assumes "finite (dom m)"
  shows "del_count io (filter (\<lambda>k. k \<notin> live) (miter io m)) m = (card (dom m - live), m |` live)"
proof -
  let ?ks = "filter (\<lambda>k. k \<notin> live) (miter io m)"
  have ks: "distinct ?ks" "set ?ks = dom m - live" using iter_keys [OF assms] by auto
  have "m |` (- (dom m - live)) = m |` live" by (auto simp: restrict_map_def fun_eq_iff)
  moreover have "length ?ks = card (dom m - live)" using ks by (metis distinct_card)
  ultimately show ?thesis
    using ks del_count_step [of ?ks m 0] by (simp add: del_count_def)
qed

end

text \<open>
  The maps of the BPF program: hash maps with the number of entries the program declares. An
  update fails when the map is full, a delete when the key is absent.
\<close>

definition hash_io :: "map_def \<Rightarrow> ('k :: linorder) map_io" where
  "hash_io d =
     \<lparr>mput = (\<lambda>k v m. if k \<in> dom m \<or> card (dom m) < max_entries d then Some (m(k \<mapsto> v)) else None),
      mdel = (\<lambda>k m. if k \<in> dom m then Some (m(k := None)) else None),
      miter = (\<lambda>m. sorted_list_of_set (dom m))\<rparr>"

interpretation cgroup_map: kernel_map "hash_io cgroup_params_map :: u64 map_io"
  by unfold_locales (auto simp: hash_io_def split: if_splits)

interpretation task_map: kernel_map "hash_io task_params_map :: u32 map_io"
  by unfold_locales (auto simp: hash_io_def split: if_splits)

subsection \<open>Updates\<close>

lemma update_via_cgroups:
  assumes io: "kernel_map cgio" and tm: "am_task s = Some tm" and cm: "am_cgroup s = Some cm"
    and ids: "resolvePodCgroupIDs env (pod_uid p) \<noteq> []"
    and upd: "UpdatePodParams cgio pidio env t (Some p) (r # rs) s = (None, s')"
  shows "s' = s\<lparr>am_cgroup := Some (\<lambda>k. if k \<in> set (resolvePodCgroupIDs env (pod_uid p))
             then Some (to_task_params r) else cm k),
      podCgroupIDs := (podCgroupIDs s)(pod_uid p \<mapsto> resolvePodCgroupIDs env (pod_uid p))\<rparr>"
proof -
  let ?ids = "resolvePodCgroupIDs env (pod_uid p)"
  obtain w e cm' where loop: "writeCgroupParams cgio ?ids (to_task_params r) cm = (w, e, cm')"
    using prod_cases3 by blast
  have uid: "pod_uid p \<noteq> []" using ids by (auto simp: resolvePodCgroupIDs_def)
  then have e: "e = None" and s': "s' = s\<lparr>am_cgroup := Some cm',
      podCgroupIDs := (podCgroupIDs s)(pod_uid p \<mapsto> w)\<rparr>"
    using upd tm cm ids loop by (auto simp: UpdatePodParams_def Let_def)
  have "cm' = (\<lambda>k. if k \<in> set w then Some (to_task_params r) else cm k)" "w = ?ids"
    using kernel_map.put_loop_spec [OF io loop [unfolded writeCgroupParams_def]] e by auto
  with s' show ?thesis by simp
qed

text \<open>
  C24 (update_reaches_scheduler). After an update of a pod that has cgroups returned without an error,
  the scheduler runs every process in a cgroup of the pod with exactly the resolved parameters,
  also processes started later, unless the process has an entry of its own in the process map.
  Such an entry, left by an earlier update that had to fall back to process IDs, is neither
  rewritten nor removed and keeps winning.
\<close>

theorem update_reaches_scheduler:
  assumes "kernel_map cgio" and "am_task s = Some tm" and "am_cgroup s = Some cm"
    and "UpdatePodParams cgio pidio env t (Some p) [r] s = (None, s')"
    and "cg \<in> set (resolvePodCgroupIDs env (pod_uid p))" and "cg \<noteq> 0"
  shows "\<exists>cm'. am_task s' = Some tm \<and> am_cgroup s' = Some cm' \<and>
    effective_params tm cm' pid cg =
      (True, case tm pid of None \<Rightarrow> to_task_params r | Some old \<Rightarrow> old)"
proof -
  have "resolvePodCgroupIDs env (pod_uid p) \<noteq> []" using assms(5) by auto
  from update_via_cgroups [OF assms(1-3) this assms(4)] assms(2,5,6) show ?thesis
    by (auto simp: effective_params_def split: option.splits)
qed

text \<open>A node with one pod, whose only process 70 the agent once had to write by process ID.\<close>

definition demo_env :: node_env where
  "demo_env =
     \<lparr>root_fs = FsDir 1 [(''cg'', FsDir 2 [(''kubepods'', FsDir 3 [(''podu'', FsDir 55
        [(''c'', FsDir 56 [(''cgroup.procs'', FsFile ''70'')])])])])],
      cgroup_base = ''/cg'', proc_root = ''/proc''\<rparr>"

definition demo_pod :: pod where
  "demo_pod =
     \<lparr>pod_uid = ''u'', pod_name = ''web'', pod_namespace = ''default'', pod_labels = None,
      pod_annotations = None, pod_node = ''n1'', pod_priority_class = [], pod_containers = [],
      pod_phase = ''Running'', pod_qos = ''Burstable'', pod_statuses = []\<rparr>"

definition demo_maps :: agent_maps where
  "demo_maps = New_maps
     \<lparr>am_task := Some [70 \<mapsto> \<lparr>weight = 200, budget_ns = 0\<rparr>], am_cgroup := Some Map.empty,
      podPIDs := [''u'' \<mapsto> [70]]\<rparr>"

definition demo_params :: sched_params where
  "demo_params = \<lparr>sp_weight = 9000, sp_budget_ns = 2000000\<rparr>"

lemma demo_ids: "resolvePodCgroupIDs demo_env ''u'' = [55, 56]"
  by code_simp

lemma demo_update:
  "\<exists>s'. UpdatePodParams (hash_io cgroup_params_map) (hash_io task_params_map) demo_env 0 (Some demo_pod)
     [demo_params] demo_maps = (None, s')"
  by (simp add: UpdatePodParams_def demo_maps_def New_maps_def demo_pod_def demo_ids writeCgroupParams_def
      put_loop_def put_step_def hash_io_def cgroup_params_map_def Let_def)

theorem update_reaches_scheduler_witness:
  "\<exists>s' tm cm'. UpdatePodParams (hash_io cgroup_params_map) (hash_io task_params_map) demo_env 0
       (Some demo_pod) [demo_params] demo_maps = (None, s') \<and>
     am_task s' = Some tm \<and> am_cgroup s' = Some cm' \<and>
     effective_params tm cm' 71 56 = (True, \<lparr>weight = 9000, budget_ns = 2000000\<rparr>) \<and>
     effective_params tm cm' 70 56 = (True, \<lparr>weight = 200, budget_ns = 0\<rparr>)"
proof -
  obtain s' where s': "UpdatePodParams (hash_io cgroup_params_map) (hash_io task_params_map) demo_env 0
      (Some demo_pod) [demo_params] demo_maps = (None, s')"
    using demo_update by blast
  have pre: "am_task demo_maps = Some [70 \<mapsto> \<lparr>weight = 200, budget_ns = 0\<rparr>]"
      "am_cgroup demo_maps = Some Map.empty" "56 \<in> set (resolvePodCgroupIDs demo_env (pod_uid demo_pod))"
      "(56 :: u64) \<noteq> 0"
    by (simp_all add: demo_maps_def demo_pod_def demo_ids)
  note upd = update_reaches_scheduler [OF cgroup_map.kernel_map_axioms pre(1,2) s' pre(3,4)]
  from upd [of 70] upd [of 71] s' show ?thesis
    by (auto simp: to_task_params_def demo_params_def)
qed

subsection \<open>Removal\<close>

lemma remove_spec:
  fixes env t p
  assumes "kernel_map cgio" "kernel_map pidio" "am_task s = Some tm" "am_cgroup s = Some cm"
  defines "s' \<equiv> RemovePodParams cgio pidio env t (Some p) s"
  shows "am_cgroup s' = Some (cm |` (- (set (recorded (podCgroupIDs s) (pod_uid p)) \<union>
      set (resolvePodCgroupIDs env (pod_uid p)))))"
    and "am_task s' = Some (tm |` (- (set (recorded (podPIDs s) (pod_uid p)) \<union>
      set (fst (resolvePodPIDs env t (am_proc s) (pod_uid p))))))"
    and "podCgroupIDs s' = (podCgroupIDs s)(pod_uid p := None)"
    and "podPIDs s' = (podPIDs s)(pod_uid p := None)"
  using assms(3,4) kernel_map.del_loop_spec [OF assms(1)] kernel_map.del_loop_spec [OF assms(2)]
  by (simp_all add: s'_def RemovePodParams_def Let_def case_prod_unfold)

lemma restrict_unwritten: "(\<lambda>k. if k \<in> W then v else m k) |` (- W) = m |` (- W)"
  by (auto simp: restrict_map_def fun_eq_iff)

text \<open>Whatever an update meets, it changes no entry that it does not record for the pod.\<close>

lemma update_recorded:
  assumes "kernel_map cgio" "kernel_map pidio" "am_task s = Some tm" "am_cgroup s = Some cm" "pod_uid p \<noteq> []"
    and upd: "UpdatePodParams cgio pidio env t (Some p) [r] s = (err, s')"
  shows "\<exists>cm' tm'. am_cgroup s' = Some cm' \<and> am_task s' = Some tm' \<and>
    cm' |` (- set (recorded (podCgroupIDs s') (pod_uid p))) = cm |` (- set (recorded (podCgroupIDs s') (pod_uid p))) \<and>
    tm' |` (- set (recorded (podPIDs s') (pod_uid p))) = tm |` (- set (recorded (podPIDs s') (pod_uid p))) \<and>
    (err = None \<longrightarrow>
      (if resolvePodCgroupIDs env (pod_uid p) \<noteq> []
       then recorded (podCgroupIDs s') (pod_uid p) = resolvePodCgroupIDs env (pod_uid p)
       else recorded (podPIDs s') (pod_uid p) = fst (resolvePodPIDs env t (am_proc s) (pod_uid p))))"
proof (cases "resolvePodCgroupIDs env (pod_uid p) = []")
  case False
  obtain w e cm' where loop: "writeCgroupParams cgio (resolvePodCgroupIDs env (pod_uid p)) (to_task_params r) cm = (w, e, cm')"
    using prod_cases3 by blast
  then have "s' = s\<lparr>am_cgroup := Some cm', podCgroupIDs := (podCgroupIDs s)(pod_uid p \<mapsto> w)\<rparr>" "err = map_option PutCgroup e"
    using upd False assms(3-5) by (auto simp: UpdatePodParams_def Let_def)
  with kernel_map.put_loop_spec [OF assms(1) loop [unfolded writeCgroupParams_def]] assms(3) False show ?thesis
    by (intro exI [of _ cm'] exI [of _ tm]) (simp add: recorded_def restrict_unwritten)
next
  case True
  obtain pids pc where pids: "resolvePodPIDs env t (am_proc s) (pod_uid p) = (pids, pc)" by fastforce
  obtain w e tm' where loop: "put_loop pidio (to_task_params r) pids tm = (w, e, tm')"
    using prod_cases3 by blast
  then have "s' = s\<lparr>am_proc := pc, am_task := Some tm', podPIDs := (podPIDs s)(pod_uid p \<mapsto> w)\<rparr>" "err = map_option PutPid e"
    using upd True assms(3-5) pids by (auto simp: UpdatePodParams_def pid_fallback_def Let_def)
  with kernel_map.put_loop_spec [OF assms(2) loop] assms(4) True pids show ?thesis
    by (intro exI [of _ cm] exI [of _ tm']) (simp add: recorded_def restrict_unwritten)
qed

text \<open>
  C25 (update_remove). What is left of a pod that was updated, through its cgroups or through its processes and whether or
  not every write succeeded, and is removed later, when its cgroups may be gone, still be there or be others: of the entries
  there were before the update, exactly those of cgroups and of processes that are neither recorded for the pod nor
  found at its removal. So nothing that the update wrote is left. Without an error the cgroups of the pod, or its processes
  if it had none, are recorded, and after the removal the pod is not tracked. An entry that an earlier update wrote for a cgroup the
  pod does not have any more stays, since the later update has replaced the record.
\<close>

theorem update_remove:
  fixes later t'
  assumes "kernel_map cgio" "kernel_map pidio" "am_task s = Some tm" "am_cgroup s = Some cm" "pod_uid p \<noteq> []"
    and "UpdatePodParams cgio pidio env t (Some p) [r] s = (err, s')"
  defines "s'' \<equiv> RemovePodParams cgio pidio later t' (Some p) s'"
    and "cgs \<equiv> recorded (podCgroupIDs s') (pod_uid p)" and "pids \<equiv> recorded (podPIDs s') (pod_uid p)"
  shows "am_cgroup s'' = Some (cm |` (- (set cgs \<union> set (resolvePodCgroupIDs later (pod_uid p))))) \<and>
    am_task s'' = Some (tm |` (- (set pids \<union> set (fst (resolvePodPIDs later t' (am_proc s') (pod_uid p)))))) \<and>
    (err = None \<longrightarrow>
      (if resolvePodCgroupIDs env (pod_uid p) \<noteq> [] then cgs = resolvePodCgroupIDs env (pod_uid p)
       else pids = fst (resolvePodPIDs env t (am_proc s) (pod_uid p)))) \<and>
    podCgroupIDs s'' (pod_uid p) = None \<and> podPIDs s'' (pod_uid p) = None"
proof -
  obtain cm' tm' where u: "am_cgroup s' = Some cm'" "am_task s' = Some tm'"
      "cm' |` (- set cgs) = cm |` (- set cgs)" "tm' |` (- set pids) = tm |` (- set pids)"
      "err = None \<longrightarrow> (if resolvePodCgroupIDs env (pod_uid p) \<noteq> [] then cgs = resolvePodCgroupIDs env (pod_uid p)
         else pids = fst (resolvePodPIDs env t (am_proc s) (pod_uid p)))"
    using update_recorded [OF assms(1-6)] unfolding cgs_def pids_def by blast
  have "cm' |` (- (set cgs \<union> X)) = cm |` (- (set cgs \<union> X))" for X using arg_cong [OF u(3), of "\<lambda>m. m |` (- X)"] by simp
  moreover have "tm' |` (- (set pids \<union> X)) = tm |` (- (set pids \<union> X))" for X using arg_cong [OF u(4), of "\<lambda>m. m |` (- X)"] by simp
  ultimately show ?thesis
    using remove_spec [OF assms(1,2) u(2,1), of later t' p] u(5) unfolding s''_def cgs_def pids_def by simp
qed

text \<open>The pod \<^verbatim>\<open>u\<close> had the cgroup 54 at an earlier update, which is not one of its cgroups any more.\<close>

theorem update_remove_witness:
  "\<exists>s' gone. resolvePodCgroupIDs gone ''u'' = [] \<and>
     UpdatePodParams (hash_io cgroup_params_map) (hash_io task_params_map) demo_env 0 (Some demo_pod)
       [demo_params] (demo_maps\<lparr>am_cgroup := Some [54 \<mapsto> \<lparr>weight = 5, budget_ns = 0\<rparr>], podCgroupIDs := [''u'' \<mapsto> [54]]\<rparr>) = (None, s') \<and>
     am_cgroup (RemovePodParams (hash_io cgroup_params_map) (hash_io task_params_map) gone 9
       (Some demo_pod) s') = Some [54 \<mapsto> \<lparr>weight = 5, budget_ns = 0\<rparr>] \<and>
     podCgroupIDs (RemovePodParams (hash_io cgroup_params_map) (hash_io task_params_map) gone 9 (Some demo_pod) s') ''u'' = None"
proof -
  let ?gone = "demo_env\<lparr>root_fs := FsDir 1 []\<rparr>"
  let ?s = "demo_maps\<lparr>am_cgroup := Some [54 \<mapsto> \<lparr>weight = 5, budget_ns = 0\<rparr>], podCgroupIDs := [''u'' \<mapsto> [54]]\<rparr>"
  have pre: "am_task ?s = Some [70 \<mapsto> \<lparr>weight = 200, budget_ns = 0\<rparr>]"
      "am_cgroup ?s = Some [54 \<mapsto> \<lparr>weight = 5, budget_ns = 0\<rparr>]" "pod_uid demo_pod \<noteq> []"
      "pod_uid demo_pod = ''u''"
    by (simp_all add: demo_maps_def demo_pod_def)
  obtain s' where s': "UpdatePodParams (hash_io cgroup_params_map) (hash_io task_params_map) demo_env 0
      (Some demo_pod) [demo_params] ?s = (None, s')"
    by (simp add: UpdatePodParams_def demo_maps_def New_maps_def demo_pod_def demo_ids writeCgroupParams_def
      put_loop_def put_step_def hash_io_def cgroup_params_map_def Let_def)
  have gone: "resolvePodCgroupIDs ?gone ''u'' = []" by code_simp
  have rest: "[54 \<mapsto> \<lparr>weight = 5, budget_ns = 0\<rparr>] |` (- {55, 56 :: u64}) = [54 \<mapsto> \<lparr>weight = 5, budget_ns = 0\<rparr>]"
    by (auto simp: restrict_map_def fun_eq_iff)
  from update_remove [OF cgroup_map.kernel_map_axioms task_map.kernel_map_axioms pre(1-3) s', of ?gone 9] s' gone
  show ?thesis unfolding pre(4) demo_ids by (intro exI [of _ s'] exI [of _ ?gone]) (simp add: rest)
qed

subsection \<open>Sweeping\<close>

text \<open>
  When the kubepods tree is visible, the periodic sweep removes exactly the entries
  whose cgroup no longer exists and reports how many; it never touches an entry of a pod whose
  cgroup directory exists. When the tree is not visible it removes nothing.
\<close>

theorem sweep_exact:
  fixes env
  assumes "kernel_map io" and "am_cgroup s = Some cm" and "finite (dom cm)"
  defines "live \<equiv> liveKubepodsCgroupIDs env"
  shows "CleanStaleCgroupIDs io env s =
      (if live = {} then (0, s) else (card (dom cm - live), s\<lparr>am_cgroup := Some (cm |` live)\<rparr>)) \<and>
    (\<forall>uid. set (resolvePodCgroupIDs env uid) \<subseteq> live)"
  using kernel_map.sweep_spec [OF assms(1,3)] pod_cgroups_live assms(2)
  by (simp add: CleanStaleCgroupIDs_def live_def Let_def)

theorem sweep_exact_witness:
  "\<exists>s'. CleanStaleCgroupIDs (hash_io cgroup_params_map) demo_env
      (demo_maps\<lparr>am_cgroup := Some [55 \<mapsto> \<lparr>weight = 1, budget_ns = 0\<rparr>, 99 \<mapsto> \<lparr>weight = 2, budget_ns = 0\<rparr>]\<rparr>) = (1, s') \<and>
    am_cgroup s' = Some [55 \<mapsto> \<lparr>weight = 1, budget_ns = 0\<rparr>]"
proof -
  let ?cm = "[55 \<mapsto> \<lparr>weight = 1, budget_ns = 0\<rparr>, 99 \<mapsto> \<lparr>weight = 2, budget_ns = 0\<rparr>] :: u64 \<rightharpoonup> task_params"
  have live: "liveKubepodsCgroupIDs demo_env = {3, 55, 56}" by code_simp
  have "dom ?cm - {3, 55, 56} = {99}" by auto
  then have "card (dom ?cm - {3, 55, 56}) = 1" by simp
  moreover have "?cm |` {3, 55, 56} = [55 \<mapsto> \<lparr>weight = 1, budget_ns = 0\<rparr>]"
    by (auto simp: restrict_map_def fun_eq_iff)
  ultimately show ?thesis
    using sweep_exact [OF cgroup_map.kernel_map_axioms, of "demo_maps\<lparr>am_cgroup := Some ?cm\<rparr>" ?cm demo_env] live
    by simp
qed

text \<open>The sweep of process IDs removes exactly the entries without a directory under \<^verbatim>\<open>/proc\<close>.\<close>

lemma pid_sweep_exact:
  assumes "kernel_map io" "am_task s = Some tm" "finite (dom tm)"
  shows "cleanStalePIDs io env s = s\<lparr>am_task := Some
    (tm |` {k. os_stat (root_fs env) (proc_root env @ ''/'' @ decimal (unat k)) \<noteq> None})\<rparr>"
proof -
  let ?gone = "\<lambda>k. os_stat (root_fs env) (proc_root env @ ''/'' @ decimal (unat k)) = None"
  have "tm |` (- set (filter ?gone (miter io tm))) = tm |` {k. \<not> ?gone k}"
    using kernel_map.iter_keys [OF assms(1,3)] by (auto simp: restrict_map_def fun_eq_iff domIff)
  then show ?thesis
    using assms(2) kernel_map.del_loop_spec [OF assms(1)] by (simp add: cleanStalePIDs_def Let_def)
qed

text \<open>The number of tracked pods is the number of pods with details.\<close>

lemma tracked_details: "TrackedPods s = card (dom (PodDetails s))"
proof -
  have "dom (PodDetails s) = dom (podCgroupIDs s) \<union> dom (podPIDs s)"
    by (auto simp: PodDetails_def dom_def Let_def split: option.splits)
  then show ?thesis by (simp add: TrackedPods_def)
qed

subsection \<open>Statistics\<close>

lemma fold_add_stats: "enqueues (fold add_stats xs z) = enqueues z + sum_list (map enqueues xs)"
  by (induction xs arbitrary: z) (simp_all add: add_stats_def algebra_simps)

end
