(* ===== verification/Object_File.thy ===== *)
theory Object_File
  imports Pod_Maps
begin

text \<open>
  What the agent and the BPF object have to agree on. The declaration macros of \<^verbatim>\<open>bpf_helpers.h\<close> (sections,
  attributes, the members of a map definition, \<^verbatim>\<open>offsetof\<close>) over a small model of C types and their layout, the symbols
  of \<^verbatim>\<open>bpf/k8s_sched.bpf.c\<close> with their sections, the names, paths and structures the agent uses for them, and the
  bytes of a structure in memory, as they go through a map from one side to the other.
\<close>

unbundle bit_operations_syntax

subsection \<open>Declaration attributes\<close>

datatype c_attr = Section string | Used | Inline | AlwaysInline | NoInline | WeakSym | Visibility string
  | BtfTypeTag string | BtfDeclTag string

definition SEC :: "string \<Rightarrow> c_attr list" where
  "SEC name = [Section name, Used]"

definition attr_always_inline :: "c_attr list" where "attr_always_inline = [Inline, AlwaysInline]"

definition attr_noinline :: "c_attr list" where "attr_noinline = [NoInline]"

definition attr_weak :: "c_attr list" where "attr_weak = [WeakSym]"

definition attr_hidden :: "c_attr list" where "attr_hidden = [Visibility ''hidden'']"

definition attr_kconfig :: "c_attr list" where "attr_kconfig = [Section ''.kconfig'']"

definition attr_ksym :: "c_attr list" where "attr_ksym = [Section ''.ksyms'']"

definition attr_kptr_untrusted :: "c_attr list" where "attr_kptr_untrusted = [BtfTypeTag ''kptr_untrusted'']"

definition attr_kptr :: "c_attr list" where "attr_kptr = [BtfTypeTag ''kptr'']"

definition attr_percpu_kptr :: "c_attr list" where "attr_percpu_kptr = [BtfTypeTag ''percpu_kptr'']"

definition attr_uptr :: "c_attr list" where "attr_uptr = [BtfTypeTag ''uptr'']"

definition attr_arg_ctx :: "c_attr list" where "attr_arg_ctx = [BtfDeclTag ''arg:ctx'']"

definition attr_arg_nonnull :: "c_attr list" where "attr_arg_nonnull = [BtfDeclTag ''arg:nonnull'']"

definition attr_arg_nullable :: "c_attr list" where "attr_arg_nullable = [BtfDeclTag ''arg:nullable'']"

definition attr_arg_trusted :: "c_attr list" where "attr_arg_trusted = [BtfDeclTag ''arg:trusted'']"

definition attr_arg_untrusted :: "c_attr list" where "attr_arg_untrusted = [BtfDeclTag ''arg:untrusted'']"

definition attr_arg_arena :: "c_attr list" where "attr_arg_arena = [BtfDeclTag ''arg:arena'']"

definition section_of :: "c_attr list \<Rightarrow> string option" where
  "section_of as = (case List.map_filter (\<lambda>a. case a of Section s \<Rightarrow> Some s | _ \<Rightarrow> None) as of [] \<Rightarrow> None | s # _ \<Rightarrow> Some s)"

subsection \<open>Types and layout\<close>

text \<open>An array bound is a number or an enumerator.\<close>

datatype c_expr = Lit nat | MapType bpf_map_type

datatype c_type =
    CU32 | CU64 | CInt
  | CStruct "(string \<times> c_type) list"
  | CPtr c_type
  | CArray c_type c_expr
  | CIncomplete c_type          \<comment> \<open>an array without a bound\<close>
  | CEnum string c_expr         \<comment> \<open>an enumeration of one named constant\<close>

definition align_up :: "nat \<Rightarrow> nat \<Rightarrow> nat" where
  "align_up n a = (n + a - 1) div a * a"

text \<open>Natural alignment, with pointers of 64 bits as on the BPF target.\<close>

fun c_align :: "c_type \<Rightarrow> nat" and c_aligns :: "(string \<times> c_type) list \<Rightarrow> nat" where
  "c_align CU32 = 4"
| "c_align CU64 = 8"
| "c_align CInt = 4"
| "c_align (CStruct ms) = c_aligns ms"
| "c_align (CPtr t) = 8"
| "c_align (CArray t n) = c_align t"
| "c_align (CIncomplete t) = c_align t"
| "c_align (CEnum k v) = 4"
| "c_aligns [] = 1"
| "c_aligns ((n, t) # ms) = max (c_align t) (c_aligns ms)"

text \<open>Sizes, given the values of the enumerators.\<close>

fun c_size :: "(bpf_map_type \<Rightarrow> nat) \<Rightarrow> c_type \<Rightarrow> nat"
  and c_end :: "(bpf_map_type \<Rightarrow> nat) \<Rightarrow> (string \<times> c_type) list \<Rightarrow> nat \<Rightarrow> nat" where
  "c_size E CU32 = 4"
| "c_size E CU64 = 8"
| "c_size E CInt = 4"
| "c_size E (CStruct ms) = align_up (c_end E ms 0) (c_aligns ms)"
| "c_size E (CPtr t) = 8"
| "c_size E (CArray t (Lit n)) = c_size E t * n"
| "c_size E (CArray t (MapType m)) = c_size E t * E m"
| "c_size E (CIncomplete t) = 0"
| "c_size E (CEnum k v) = 4"
| "c_end E [] pos = pos"
| "c_end E ((n, t) # ms) pos = c_end E ms (align_up pos (c_align t) + c_size E t)"

text \<open>\<^verbatim>\<open>offsetof\<close>: the address of a member of a structure at address 0.\<close>

fun member_address :: "(bpf_map_type \<Rightarrow> nat) \<Rightarrow> (string \<times> c_type) list \<Rightarrow> nat \<Rightarrow> string \<Rightarrow> nat option" where
  "member_address E [] pos m = None"
| "member_address E ((n, t) # ms) pos m =
     (if n = m then Some (align_up pos (c_align t)) else member_address E ms (align_up pos (c_align t) + c_size E t) m)"

definition offsetof :: "(bpf_map_type \<Rightarrow> nat) \<Rightarrow> (string \<times> c_type) list \<Rightarrow> string \<Rightarrow> u64 option" where
  "offsetof E ms m = map_option of_nat (member_address E ms 0 m)"

subsection \<open>Map definitions\<close>

text \<open>The macros that declare the members of a map definition; the last one takes the value of \<^verbatim>\<open>__COUNTER__\<close>.\<close>

definition uint_member :: "string \<Rightarrow> c_expr \<Rightarrow> string \<times> c_type" where
  "uint_member name val = (name, CPtr (CArray CInt val))"

definition type_member :: "string \<Rightarrow> c_type \<Rightarrow> string \<times> c_type" where
  "type_member name ty = (name, CPtr ty)"

definition array_member :: "string \<Rightarrow> c_type \<Rightarrow> string \<times> c_type" where
  "array_member name ty = (name, CIncomplete (CPtr ty))"

definition ulong_member :: "nat \<Rightarrow> string \<Rightarrow> c_expr \<Rightarrow> string \<times> c_type" where
  "ulong_member counter name val = (name, CEnum (''__unique_value'' @ decimal counter) val)"

text \<open>The value a member carries in its type.\<close>

fun carried_uint :: "c_type \<Rightarrow> c_expr option" where
  "carried_uint (CPtr (CArray CInt v)) = Some v"
| "carried_uint t = None"

fun carried_type :: "c_type \<Rightarrow> c_type option" where
  "carried_type (CPtr t) = Some t"
| "carried_type t = None"

definition declared_map :: "(bpf_map_type \<Rightarrow> nat) \<Rightarrow> (string \<times> c_type) list \<Rightarrow> map_def option" where
  "declared_map E ms =
     (case (map_of ms ''type'', map_of ms ''max_entries'', map_of ms ''key'', map_of ms ''value'') of
        (Some ty, Some n, Some k, Some v) \<Rightarrow>
          (case (carried_uint ty, carried_uint n, carried_type k, carried_type v) of
             (Some (MapType mt), Some (Lit entries), Some kt, Some vt) \<Rightarrow>
               Some \<lparr>map_type = mt, max_entries = entries, key_size = c_size E kt, value_size = c_size E vt\<rparr>
           | _ \<Rightarrow> None)
      | _ \<Rightarrow> None)"

subsection \<open>The object\<close>

definition struct_task_params :: "(string \<times> c_type) list" where
  "struct_task_params = [(''weight'', CU64), (''budget_ns'', CU64)]"

definition struct_sched_stats :: "(string \<times> c_type) list" where
  "struct_sched_stats =
     [(''enqueues'', CU64), (''local_dispatches'', CU64), (''budget_capped'', CU64), (''defaults'', CU64)]"

definition cgroup_params_decl :: "(string \<times> c_type) list" where
  "cgroup_params_decl =
     [uint_member ''type'' (MapType BPF_MAP_TYPE_HASH), uint_member ''max_entries'' (Lit 16384),
      type_member ''key'' CU64, type_member ''value'' (CStruct struct_task_params)]"

definition task_params_decl :: "(string \<times> c_type) list" where
  "task_params_decl =
     [uint_member ''type'' (MapType BPF_MAP_TYPE_HASH), uint_member ''max_entries'' (Lit 65536),
      type_member ''key'' CU32, type_member ''value'' (CStruct struct_task_params)]"

definition stats_decl :: "(string \<times> c_type) list" where
  "stats_decl =
     [uint_member ''type'' (MapType BPF_MAP_TYPE_PERCPU_ARRAY), uint_member ''max_entries'' (Lit 1),
      type_member ''key'' CU32, type_member ''value'' (CStruct struct_sched_stats)]"

text \<open>The symbols with their attributes, in the order of the file.\<close>

definition sym_license :: "string \<times> c_attr list" where "sym_license = (''_license'', SEC ''license'')"

definition sym_cgroup_params :: "string \<times> c_attr list" where "sym_cgroup_params = (''cgroup_params'', SEC ''.maps'')"

definition sym_task_params :: "string \<times> c_attr list" where "sym_task_params = (''task_params'', SEC ''.maps'')"

definition sym_stats :: "string \<times> c_attr list" where "sym_stats = (''stats'', SEC ''.maps'')"

definition sym_k8s_select_cpu :: "string \<times> c_attr list" where "sym_k8s_select_cpu = (''k8s_select_cpu'', SEC (BPF_STRUCT_OPS ''k8s_select_cpu''))"

definition sym_k8s_enqueue :: "string \<times> c_attr list" where "sym_k8s_enqueue = (''k8s_enqueue'', SEC (BPF_STRUCT_OPS ''k8s_enqueue''))"

definition sym_k8s_dispatch :: "string \<times> c_attr list" where "sym_k8s_dispatch = (''k8s_dispatch'', SEC (BPF_STRUCT_OPS ''k8s_dispatch''))"

definition sym_k8s_running :: "string \<times> c_attr list" where "sym_k8s_running = (''k8s_running'', SEC (BPF_STRUCT_OPS ''k8s_running''))"

definition sym_k8s_stopping :: "string \<times> c_attr list" where "sym_k8s_stopping = (''k8s_stopping'', SEC (BPF_STRUCT_OPS ''k8s_stopping''))"

definition sym_k8s_enable :: "string \<times> c_attr list" where "sym_k8s_enable = (''k8s_enable'', SEC (BPF_STRUCT_OPS ''k8s_enable''))"

definition sym_k8s_init :: "string \<times> c_attr list" where "sym_k8s_init = (''k8s_init'', SEC (BPF_STRUCT_OPS_SLEEPABLE ''k8s_init''))"

definition sym_k8s_exit :: "string \<times> c_attr list" where "sym_k8s_exit = (''k8s_exit'', SEC (BPF_STRUCT_OPS ''k8s_exit''))"

definition sym_k8s_sched :: "string \<times> c_attr list" where "sym_k8s_sched = (''k8s_sched'', SEC SCX_OPS_SECTION)"

definition k8s_symbols :: "(string \<times> c_attr list) list" where
  "k8s_symbols =
     [sym_license, sym_cgroup_params, sym_task_params, sym_stats, sym_k8s_select_cpu, sym_k8s_enqueue,
      sym_k8s_dispatch, sym_k8s_running, sym_k8s_stopping, sym_k8s_enable, sym_k8s_init, sym_k8s_exit, sym_k8s_sched]"

lemmas symbol_defs = k8s_symbols_def sym_license_def sym_cgroup_params_def sym_task_params_def sym_stats_def sym_k8s_select_cpu_def sym_k8s_enqueue_def sym_k8s_dispatch_def sym_k8s_running_def sym_k8s_stopping_def sym_k8s_enable_def sym_k8s_init_def sym_k8s_exit_def sym_k8s_sched_def

text \<open>The names of the maps of the collection: those declared as maps and those of struct\_ops.\<close>

definition spec_maps :: "(string \<times> c_attr list) list \<Rightarrow> string list" where
  "spec_maps syms = map fst (filter (\<lambda>(name, as). section_of as \<in> {Some ''.maps'', Some ''.struct_ops.link''}) syms)"

subsection \<open>The agent's side\<close>

definition mapPinDir :: string where "mapPinDir = ''/sys/fs/bpf/k8s-sched''"

definition pinPath :: string where "pinPath = ''/sys/fs/bpf/k8s-sched/task_params''"

definition cgroupPinPath :: string where "cgroupPinPath = ''/sys/fs/bpf/k8s-sched/cgroup_params''"

definition statsPinPath :: string where "statsPinPath = ''/sys/fs/bpf/k8s-sched/stats''"

text \<open>The maps \<^verbatim>\<open>loadScheduler\<close> marks for pinning, and where \<^verbatim>\<open>PinByName\<close> puts them.\<close>

definition pinMaps :: "string list" where
  "pinMaps = [''task_params'', ''cgroup_params'', ''stats'']"

definition pinned_at :: "string list \<Rightarrow> string list" where
  "pinned_at names = map (\<lambda>name. mapPinDir @ ''/'' @ name) (filter (\<lambda>name. name \<in> set pinMaps) names)"

text \<open>The name under which the collection is searched for the scheduler, and the test for a registered scheduler of ours.\<close>

definition structOpsMap :: string where "structOpsMap = ''k8s_sched''"

definition ops_are_ours :: "string option \<Rightarrow> bool" where
  "ops_are_ours data = (case data of None \<Rightarrow> False | Some d \<Rightarrow> contains d ''k8s_sched'')"

text \<open>
  The Go structures that mirror those of the program, and the types of the keys the agent passes; Go lays out fields by
  natural alignment, too.
\<close>

definition go_TaskParams :: "(string \<times> c_type) list" where
  "go_TaskParams = [(''Weight'', CU64), (''BudgetNs'', CU64)]"

definition go_SchedStats :: "(string \<times> c_type) list" where
  "go_SchedStats = [(''Enqueues'', CU64), (''LocalDispatches'', CU64), (''BudgetCapped'', CU64), (''Defaults'', CU64)]"

definition go_cgroup_key :: c_type where "go_cgroup_key = CU64"

definition go_pid_key :: c_type where "go_pid_key = CU32"

definition go_stats_key :: c_type where "go_stats_key = CU32"

text \<open>The values of the members of a structure, by name: what the agent writes, and what the program counts.\<close>

definition go_task_values :: "task_params \<Rightarrow> string \<Rightarrow> u64" where
  "go_task_values tp f = (if f = ''Weight'' then weight tp else if f = ''BudgetNs'' then budget_ns tp else 0)"

definition c_stats_values :: "sched_stats \<Rightarrow> string \<Rightarrow> u64" where
  "c_stats_values st f =
     (if f = ''enqueues'' then enqueues st else if f = ''local_dispatches'' then local_dispatches st
      else if f = ''budget_capped'' then budget_capped st else if f = ''defaults'' then defaults st else 0)"

subsection \<open>Structures in memory\<close>

text \<open>The bytes of an integer of some size, the least significant first or last.\<close>

definition word_bytes :: "bool \<Rightarrow> nat \<Rightarrow> u64 \<Rightarrow> 8 word list" where
  "word_bytes be n w = (if be then rev else id) (map (\<lambda>i. ucast (drop_bit (8 * i) w)) [0..<n])"

fun le_word :: "8 word list \<Rightarrow> u64" where
  "le_word [] = 0"
| "le_word (b # bs) = ucast b OR push_bit 8 (le_word bs)"

definition bytes_word :: "bool \<Rightarrow> 8 word list \<Rightarrow> u64" where
  "bytes_word be bs = le_word (if be then rev bs else bs)"

text \<open>The bytes of a structure from a position on, with padding before members and, for the whole structure, at the end.\<close>

fun member_bytes :: "bool \<Rightarrow> (bpf_map_type \<Rightarrow> nat) \<Rightarrow> (string \<times> c_type) list \<Rightarrow> (string \<Rightarrow> u64) \<Rightarrow> nat \<Rightarrow> 8 word list" where
  "member_bytes be E [] v pos = []"
| "member_bytes be E ((n, t) # ms) v pos =
     replicate (align_up pos (c_align t) - pos) 0 @ word_bytes be (c_size E t) (v n) @
     member_bytes be E ms v (align_up pos (c_align t) + c_size E t)"

definition struct_bytes :: "bool \<Rightarrow> (bpf_map_type \<Rightarrow> nat) \<Rightarrow> (string \<times> c_type) list \<Rightarrow> (string \<Rightarrow> u64) \<Rightarrow> 8 word list" where
  "struct_bytes be E ms v = member_bytes be E ms v 0 @ replicate (c_size E (CStruct ms) - c_end E ms 0) 0"

text \<open>Reading a member at its offset.\<close>

definition read_member :: "bool \<Rightarrow> (bpf_map_type \<Rightarrow> nat) \<Rightarrow> (string \<times> c_type) list \<Rightarrow> string \<Rightarrow> 8 word list \<Rightarrow> u64 option" where
  "read_member be E ms m bs =
     (case (offsetof E ms m, map_of ms m) of
        (Some off, Some t) \<Rightarrow> Some (bytes_word be (take (c_size E t) (drop (unat off) bs)))
      | _ \<Rightarrow> None)"

subsection \<open>Facts\<close>

lemma align_up_le: "0 < a \<Longrightarrow> n \<le> align_up n a"
proof -
  assume a: "0 < a"
  have "(n + a - 1) mod a < a" using a by simp
  moreover have "align_up n a + (n + a - 1) mod a = n + a - 1" by (simp add: align_up_def div_mult_mod_eq)
  ultimately show "n \<le> align_up n a" using a by linarith
qed

lemma align_up_dvd: "a dvd align_up n a"
  by (simp add: align_up_def)

lemma c_aligns_pos: "0 < c_aligns ms"
  by (induction ms) (auto simp: max_def)

lemma container_of_member: "offsetof E ms m = Some off \<Longrightarrow> container_of (base + off) off = base"
  by (simp add: container_of_def)

lemma carried_values:
  "carried_uint (snd (uint_member name v)) = Some v" "carried_type (snd (type_member name ty)) = Some ty"
  by (simp_all add: uint_member_def type_member_def)

lemma c_align_pos: "0 < c_align t" "0 < c_aligns ms"
  by (induction t and ms rule: c_align_c_aligns.induct) (auto simp: max_def)

lemma c_end_ge: "pos \<le> c_end E ms pos"
proof (induction ms arbitrary: pos)
  case (Cons m ms)
  obtain n t where m: "m = (n, t)" by fastforce
  have "pos \<le> align_up pos (c_align t) + c_size E t" using align_up_le [OF c_align_pos(1), of pos t] by simp
  with Cons.IH [of "align_up pos (c_align t) + c_size E t"] show ?case by (simp add: m)
qed simp

text \<open>A member is aligned and lies inside its structure, after all members before it.\<close>

lemma member_within:
  "member_address E ms pos m = Some a \<Longrightarrow>
   \<exists>t. map_of ms m = Some t \<and> pos \<le> a \<and> a + c_size E t \<le> c_end E ms pos \<and> c_align t dvd a"
proof (induction ms arbitrary: pos)
  case (Cons nt ms)
  obtain n t where nt: "nt = (n, t)" by fastforce
  let ?pos = "align_up pos (c_align t)"
  have le: "pos \<le> ?pos" by (rule align_up_le [OF c_align_pos(1)])
  show ?case
  proof (cases "n = m")
    case True
    then show ?thesis using Cons.prems nt le c_end_ge [of "?pos + c_size E t" E ms] align_up_dvd by auto
  next
    case False
    then have "member_address E ms (?pos + c_size E t) m = Some a" using Cons.prems nt by simp
    from Cons.IH [OF this] le nt False show ?thesis by auto
  qed
qed simp

text \<open>The map definitions, read off the types the macros declare.\<close>

lemma declared_maps:
  "declared_map E cgroup_params_decl = Some cgroup_params_map"
  "declared_map E task_params_decl = Some task_params_map" "declared_map E stats_decl = Some stats_map"
  by (simp_all add: declared_map_def cgroup_params_decl_def task_params_decl_def stats_decl_def uint_member_def type_member_def
      struct_task_params_def struct_sched_stats_def cgroup_params_map_def task_params_map_def stats_map_def align_up_def)

subsubsection \<open>Round trips\<close>

lemma bit_le_word: "bit (le_word bs) n \<longleftrightarrow> n < 64 \<and> n div 8 < length bs \<and> bit (bs ! (n div 8)) (n mod 8)"
proof (induction bs arbitrary: n)
  case (Cons b bs)
  show ?case
  proof (cases "n < 8")
    case True
    then show ?thesis by (auto simp: bit_simps)
  next
    case False
    then have "n div 8 = Suc ((n - 8) div 8)" "(n - 8) mod 8 = n mod 8"
      using le_div_geq [of 8 n] le_mod_geq [of 8 n] by simp_all
    with False Cons.IH [of "n - 8"] show ?thesis by (auto simp: bit_simps dest: bit_imp_le_length)
  qed
qed simp

lemma bytes_word_bytes: "bytes_word be (word_bytes be 8 w) = w"
proof -
  have "le_word (map (\<lambda>i. ucast (drop_bit (8 * i) w)) [0..<8]) = w"
  proof (rule bit_word_eqI)
    fix n assume "n < LENGTH(64)"
    then have "n < 64" "n div 8 < 8" by simp_all
    then show "bit (le_word (map (\<lambda>i. ucast (drop_bit (8 * i) w)) [0..<8])) n = bit w n"
      by (simp add: bit_le_word bit_simps del: upt_rec_numeral)
  qed
  then show ?thesis by (simp add: bytes_word_def word_bytes_def del: upt_rec_numeral)
qed

lemma length_word_bytes [simp]: "length (word_bytes be n w) = n"
  by (simp add: word_bytes_def)

text \<open>A member lies at its offset.\<close>

lemma member_bytes_at:
  "member_address E ms pos m = Some a \<Longrightarrow> map_of ms m = Some t \<Longrightarrow>
   take (c_size E t) (drop (a - pos) (member_bytes be E ms v pos)) = word_bytes be (c_size E t) (v m)"
proof (induction ms arbitrary: pos)
  case (Cons nt ms)
  obtain n u where nt: "nt = (n, u)" by fastforce
  let ?pos = "align_up pos (c_align u)"
  have le: "pos \<le> ?pos" by (rule align_up_le [OF c_align_pos(1)])
  show ?case
  proof (cases "n = m")
    case True
    with Cons.prems nt show ?thesis by simp
  next
    case False
    then have r: "member_address E ms (?pos + c_size E u) m = Some a" "map_of ms m = Some t" using Cons.prems nt by simp_all
    then have "?pos + c_size E u \<le> a" using member_within [OF r(1)] by auto
    then have "a - pos = (?pos - pos) + c_size E u + (a - (?pos + c_size E u))" using le by simp
    with Cons.IH [OF r] nt show ?thesis by simp
  qed
qed simp

lemma length_member_bytes: "length (member_bytes be E ms v pos) = c_end E ms pos - pos"
proof (induction ms arbitrary: pos)
  case (Cons nt ms)
  obtain n t where nt: "nt = (n, t)" by fastforce
  let ?pos = "align_up pos (c_align t)"
  have "pos \<le> ?pos" by (rule align_up_le [OF c_align_pos(1)])
  moreover have "?pos + c_size E t \<le> c_end E ms (?pos + c_size E t)" by (rule c_end_ge)
  ultimately show ?case using Cons.IH [of "?pos + c_size E t"] by (simp add: nt)
qed simp

lemma length_struct_bytes: "length (struct_bytes be E ms v) = c_size E (CStruct ms)"
  using align_up_le [OF c_aligns_pos, of "c_end E ms 0" ms] by (simp add: struct_bytes_def length_member_bytes)

text \<open>Reading a 64-bit member of a structure of fewer than 2 to the 64 bytes gives what was stored under its name.\<close>

lemma read_stored:
  assumes "map_of ms m = Some CU64" "member_address E ms 0 m = Some a" "c_end E ms 0 < 2 ^ 64"
  shows "read_member be E ms m (struct_bytes be E ms v) = Some (v m)"
proof -
  have "a + 8 \<le> c_end E ms 0" using member_within [OF assms(2)] assms(1) by auto
  then have "unat (of_nat a :: u64) = a" "a + 8 \<le> length (member_bytes be E ms v 0)"
    using assms(3) by (simp_all add: length_member_bytes unat_of_nat)
  then show ?thesis
    using member_bytes_at [OF assms(2,1), of be v] assms(1,2)
    by (simp add: read_member_def offsetof_def struct_bytes_def bytes_word_bytes)
qed

text \<open>The bytes depend on the values at each place, not on the names: the Go structures and the C structures have the same.\<close>

lemma same_bytes:
  "struct_bytes be E go_TaskParams (go_task_values tp) =
     struct_bytes be E struct_task_params (\<lambda>f. if f = ''weight'' then weight tp else budget_ns tp)"
  "struct_bytes be E struct_sched_stats (c_stats_values st) =
     struct_bytes be E go_SchedStats (\<lambda>f. if f = ''Enqueues'' then enqueues st else if f = ''LocalDispatches'' then local_dispatches st
       else if f = ''BudgetCapped'' then budget_capped st else defaults st)"
  by (simp_all add: struct_bytes_def go_TaskParams_def go_task_values_def struct_task_params_def go_SchedStats_def c_stats_values_def
      struct_sched_stats_def)

text \<open>
  C34 (agent_bpf_agree). The agent and the BPF program understand each other through the maps. The parameters that the agent writes
  as a Go structure are those the program reads as a C structure, member by member of the corresponding name; the counters
  that the program keeps as a C structure are those the agent reads as a Go structure. This is so for all values and either byte order. The
  keys and values the agent passes have the sizes the program declares for its maps. The maps the loader pins are
  exactly those the agent opens afterwards, under the same paths, the scheduler it attaches is in the object, and a registered
  scheduler of this program is recognised in the kernel's list.
\<close>

theorem agent_bpf_agree:
  fixes be E tp st
  defines "params \<equiv> struct_bytes be E go_TaskParams (go_task_values tp)"
    and "counters \<equiv> struct_bytes be E struct_sched_stats (c_stats_values st)"
  shows "read_member be E struct_task_params ''weight'' params = Some (weight tp) \<and>
    read_member be E struct_task_params ''budget_ns'' params = Some (budget_ns tp) \<and>
    read_member be E go_SchedStats ''Enqueues'' counters = Some (enqueues st) \<and>
    read_member be E go_SchedStats ''LocalDispatches'' counters = Some (local_dispatches st) \<and>
    read_member be E go_SchedStats ''BudgetCapped'' counters = Some (budget_capped st) \<and>
    read_member be E go_SchedStats ''Defaults'' counters = Some (defaults st) \<and>
    map_option (\<lambda>d. (key_size d, value_size d)) (declared_map E cgroup_params_decl) = Some (c_size E go_cgroup_key, length params) \<and>
    map_option (\<lambda>d. (key_size d, value_size d)) (declared_map E task_params_decl) = Some (c_size E go_pid_key, length params) \<and>
    map_option (\<lambda>d. (key_size d, value_size d)) (declared_map E stats_decl) = Some (c_size E go_stats_key, c_size E (CStruct go_SchedStats)) \<and>
    set (pinned_at (spec_maps k8s_symbols)) = {pinPath, cgroupPinPath, statsPinPath} \<and>
    structOpsMap \<in> set (spec_maps k8s_symbols) \<and> distinct (spec_maps k8s_symbols) \<and>
    ops_are_ours (Some (pre @ op_name (k8s_sched K) @ post))"
proof (intro conjI)
  show "read_member be E struct_task_params ''weight'' params = Some (weight tp)"
    "read_member be E struct_task_params ''budget_ns'' params = Some (budget_ns tp)"
    unfolding params_def same_bytes by (subst read_stored; simp add: struct_task_params_def align_up_def)+
  show "read_member be E go_SchedStats ''Enqueues'' counters = Some (enqueues st)"
    "read_member be E go_SchedStats ''LocalDispatches'' counters = Some (local_dispatches st)"
    "read_member be E go_SchedStats ''BudgetCapped'' counters = Some (budget_capped st)"
    "read_member be E go_SchedStats ''Defaults'' counters = Some (defaults st)"
    unfolding counters_def same_bytes by (subst read_stored; simp add: go_SchedStats_def align_up_def)+
  show "map_option (\<lambda>d. (key_size d, value_size d)) (declared_map E cgroup_params_decl) = Some (c_size E go_cgroup_key, length params)"
    "map_option (\<lambda>d. (key_size d, value_size d)) (declared_map E task_params_decl) = Some (c_size E go_pid_key, length params)"
    "map_option (\<lambda>d. (key_size d, value_size d)) (declared_map E stats_decl) = Some (c_size E go_stats_key, c_size E (CStruct go_SchedStats))"
    by (simp_all add: declared_maps cgroup_params_map_def task_params_map_def stats_map_def go_cgroup_key_def go_pid_key_def go_stats_key_def
        params_def length_struct_bytes go_TaskParams_def go_SchedStats_def align_up_def)
  have names: "spec_maps k8s_symbols = [''cgroup_params'', ''task_params'', ''stats'', ''k8s_sched'']"
    by (simp add: spec_maps_def symbol_defs section_of_def SEC_def BPF_STRUCT_OPS_def BPF_STRUCT_OPS_SLEEPABLE_def
        SCX_OPS_SECTION_def List.map_filter_simps)
  show "set (pinned_at (spec_maps k8s_symbols)) = {pinPath, cgroupPinPath, statsPinPath}"
    unfolding names by (auto simp: pinned_at_def pinMaps_def mapPinDir_def pinPath_def cgroupPinPath_def statsPinPath_def)
  show "structOpsMap \<in> set (spec_maps k8s_symbols)" "distinct (spec_maps k8s_symbols)"
    unfolding names by (simp_all add: structOpsMap_def)
  show "ops_are_ours (Some (pre @ op_name (k8s_sched K) @ post))"
    unfolding ops_are_ours_def option.case contains_iff by (auto simp: k8s_sched_def)
qed

end
