(* ===== verification/Cel_Cache.thy ===== *)
theory Cel_Cache
  imports Go_Lib
begin

text \<open>
  The cache of compiled CEL expressions, \<^verbatim>\<open>internal/cel/cache.go\<close>. Compiling an expression and running
  a program are functions of the CEL library and parameters here. First the handlers of one
  goroutine running alone, then all interleavings of any number of goroutines, in which a step is
  what a goroutine does while it holds the lock, or one action outside of it.
\<close>

subsection \<open>State\<close>

text \<open>
  \<^verbatim>\<open>entries\<close> is a Go map: an association list with distinct keys, in the order an iteration happens
  to visit them. Results of compiling and running are \<open>Inl\<close> an error or \<open>Inr\<close> a value.
\<close>

record 'p cel_cache =
  cc_capacity :: int
  cc_entries :: "(string \<times> u64 \<times> 'p) list"
  cc_clock :: u64   \<comment> \<open>\<^verbatim>\<open>globalClock\<close>\<close>

definition NewCache :: "int \<Rightarrow> u64 \<Rightarrow> 'p cel_cache" where
  "NewCache capacity clk = \<lparr>cc_capacity = capacity, cc_entries = [], cc_clock = clk\<rparr>"

definition del_entry :: "string \<Rightarrow> (string \<times> 'v) list \<Rightarrow> (string \<times> 'v) list" where
  "del_entry k es = filter (\<lambda>e. fst e \<noteq> k) es"

definition set_clock :: "string \<Rightarrow> u64 \<Rightarrow> (string \<times> u64 \<times> 'p) list \<Rightarrow> (string \<times> u64 \<times> 'p) list" where
  "set_clock k c es = map (\<lambda>(x, clk, p). if x = k then (x, c, p) else (x, clk, p)) es"

subsection \<open>Eviction\<close>

definition older :: "string \<times> u64 \<times> 'p \<Rightarrow> string \<times> u64 \<Rightarrow> string \<times> u64" where
  "older e best = (case e of (k, clk, p) \<Rightarrow> if clk < snd best then (k, clk) else best)"

definition oldestKey :: "(string \<times> u64 \<times> 'p) list \<Rightarrow> string" where
  "oldestKey es = fst (fold older es ([], - 1))"

lemma fold_older: "fold older es b = b \<or> fst (fold older es b) \<in> fst ` set es"
proof (induction es arbitrary: b)
  case (Cons e es)
  have "older e b = b \<or> older e b = (fst e, fst (snd e))" by (auto simp: older_def split: prod.splits)
  then show ?case using Cons.IH [of b] Cons.IH [of "older e b"] by auto
qed simp

lemma oldestKey_in: "oldestKey es \<noteq> [] \<Longrightarrow> oldestKey es \<in> fst ` set es"
  using fold_older [of es "([], - 1)"] by (auto simp: oldestKey_def)

function evict :: "int \<Rightarrow> (string \<times> u64 \<times> 'p) list \<Rightarrow> (string \<times> u64 \<times> 'p) list" where
  "evict capacity es =
     (if int (length es) \<ge> capacity
      then if oldestKey es = [] then es else evict capacity (del_entry (oldestKey es) es)
      else es)"
  by pat_completeness auto

termination evict
proof (relation "measure (\<lambda>(c, es). length es)", goal_cases)
  case (2 capacity es)
  then obtain e where "e \<in> set es" "fst e = oldestKey es" using oldestKey_in by fastforce
  then show ?case by (auto simp: del_entry_def intro: length_filter_less)
qed simp

declare evict.simps [simp del]

definition evictIfNeeded :: "'p cel_cache \<Rightarrow> 'p cel_cache" where
  "evictIfNeeded c = c\<lparr>cc_entries := evict (cc_capacity c) (cc_entries c)\<rparr>"

subsection \<open>The CEL library\<close>

text \<open>
  What the code calls of \<^verbatim>\<open>cel-go\<close>: an environment with the two declared variables, parsing and
  checking an expression, planning a program, evaluating it, and the type assertion on its result
  (\<open>None\<close> when the value is not a \<^verbatim>\<open>bool\<close>).
\<close>

record ('x, 'env, 'ast, 'p, 'v, 'o) cel_lib =
  cel_NewEnv :: "'x + 'env"
  env_Compile :: "'env \<Rightarrow> string \<Rightarrow> 'x + 'ast"
  env_Program :: "'env \<Rightarrow> 'ast \<Rightarrow> 'x + 'p"
  prog_Eval :: "'p \<Rightarrow> 'v \<Rightarrow> 'x + 'o"
  value_bool :: "'o \<Rightarrow> bool option"

datatype 'x cel_error = CompileFailed string 'x | EvalFailed 'x | NotBool

definition compile :: "('x, 'env, 'ast, 'p, 'v, 'o) cel_lib \<Rightarrow> string \<Rightarrow> 'x + 'p" where
  "compile L expr =
     (case cel_NewEnv L of
        Inl err \<Rightarrow> Inl err
      | Inr env \<Rightarrow>
          (case env_Compile L env expr of
             Inl err \<Rightarrow> Inl err
           | Inr ast \<Rightarrow> env_Program L env ast))"

text \<open>The result a compile call publishes: the error carries the expression.\<close>

definition compileCall :: "('x, 'env, 'ast, 'p, 'v, 'o) cel_lib \<Rightarrow> string \<Rightarrow> 'x cel_error + 'p" where
  "compileCall L expr =
     (case compile L expr of Inl err \<Rightarrow> Inl (CompileFailed expr err) | Inr prog \<Rightarrow> Inr prog)"

definition runProgram :: "('x, 'env, 'ast, 'p, 'v, 'o) cel_lib \<Rightarrow> 'p \<Rightarrow> 'v \<Rightarrow> 'x cel_error + bool" where
  "runProgram L prog vars =
     (case prog_Eval L prog vars of
        Inl err \<Rightarrow> Inl (EvalFailed err)
      | Inr out \<Rightarrow> (case value_bool L out of None \<Rightarrow> Inl NotBool | Some b \<Rightarrow> Inr b))"

subsection \<open>Lookup and insertion\<close>

text \<open>A hit stores a new clock value in the entry.\<close>

definition hit_entry :: "string \<Rightarrow> 'p cel_cache \<Rightarrow> 'p cel_cache" where
  "hit_entry expr c =
     c\<lparr>cc_clock := cc_clock c + 1, cc_entries := set_clock expr (cc_clock c + 1) (cc_entries c)\<rparr>"

definition insert_entry :: "string \<Rightarrow> 'p \<Rightarrow> 'p cel_cache \<Rightarrow> 'p cel_cache" where
  "insert_entry expr prog c =
     (let c = evictIfNeeded c
      in c\<lparr>cc_clock := cc_clock c + 1, cc_entries := (expr, cc_clock c + 1, prog) # cc_entries c\<rparr>)"

text \<open>The last critical section of \<^verbatim>\<open>getOrCompile\<close>, with the result of the compilation.\<close>

definition finish_compile :: "string \<Rightarrow> 'e + 'p \<Rightarrow> 'p cel_cache \<Rightarrow> ('e + 'p) \<times> 'p cel_cache" where
  "finish_compile expr r c =
     (case r of
        Inl err \<Rightarrow> (Inl err, c)
      | Inr prog \<Rightarrow>
          (case map_of (cc_entries c) expr of
             Some (clk, p) \<Rightarrow> (Inr p, hit_entry expr c)
           | None \<Rightarrow> (Inr prog, insert_entry expr prog c)))"

definition getOrCompile ::
    "(string \<Rightarrow> 'e + 'p) \<Rightarrow> string \<Rightarrow> 'p cel_cache \<Rightarrow> ('e + 'p) \<times> 'p cel_cache" where
  "getOrCompile cmp expr c =
     (case map_of (cc_entries c) expr of
        Some (clk, p) \<Rightarrow> (Inr p, hit_entry expr c)
      | None \<Rightarrow> finish_compile expr (cmp expr) c)"

definition Evaluate ::
    "('x, 'env, 'ast, 'p, 'v, 'o) cel_lib \<Rightarrow> string \<Rightarrow> 'v \<Rightarrow> 'p cel_cache
     \<Rightarrow> ('x cel_error + bool) \<times> 'p cel_cache" where
  "Evaluate L expr vars c =
     (case getOrCompile (compileCall L) expr c of
        (Inl err, c) \<Rightarrow> (Inl err, c)
      | (Inr prog, c) \<Rightarrow> (runProgram L prog vars, c))"

text \<open>The same without a cache.\<close>

definition evaluate_direct ::
    "('x, 'env, 'ast, 'p, 'v, 'o) cel_lib \<Rightarrow> string \<Rightarrow> 'v \<Rightarrow> 'x cel_error + bool" where
  "evaluate_direct L expr vars =
     (case compileCall L expr of Inl err \<Rightarrow> Inl err | Inr prog \<Rightarrow> runProgram L prog vars)"

definition peek :: "string \<Rightarrow> 'p cel_cache \<Rightarrow> bool" where
  "peek expr c = (map_of (cc_entries c) expr \<noteq> None)"

subsection \<open>Goroutines\<close>

text \<open>
  Where a goroutine is in \<^verbatim>\<open>getOrCompile\<close>: about to look up, between the two atomic operations of a hit, past a miss, waiting for another
  goroutine's compilation, compiling, about to insert, returned. A compile call is identified by
  a number; its result is published when its channel is closed.
\<close>

datatype ('e, 'p) goroutine =
    Idle
  | Lookup string
  | Storing string u64 'p
  | Missed string
  | Waiting string nat
  | Compiling string nat
  | Inserting string nat
  | Returned string "'e + 'p"

record ('e, 'p) cel_state =
  st_cache :: "'p cel_cache"
  st_inflight :: "string \<rightharpoonup> nat"
  st_calls :: "nat \<rightharpoonup> 'e + 'p"   \<comment> \<open>results of closed calls\<close>
  st_next :: nat
  st_gos :: "nat \<Rightarrow> ('e, 'p) goroutine"

text \<open>A goroutine between its clock increment and its store holds the read lock.\<close>

definition reading :: "('e, 'p) goroutine \<Rightarrow> bool" where
  "reading g = (case g of Storing e clk p \<Rightarrow> True | _ \<Rightarrow> False)"

definition no_reader :: "('e, 'p) cel_state \<Rightarrow> bool" where
  "no_reader s \<longleftrightarrow> (\<forall>j. \<not> reading (st_gos s j))"

definition go_to :: "nat \<Rightarrow> ('e, 'p) goroutine \<Rightarrow> ('e, 'p) cel_state \<Rightarrow> ('e, 'p) cel_state" where
  "go_to i g s = s\<lparr>st_gos := (st_gos s)(i := g)\<rparr>"

inductive cel_step ::
    "(string \<Rightarrow> 'e + 'p) \<Rightarrow> ('e, 'p) cel_state \<Rightarrow> ('e, 'p) cel_state \<Rightarrow> bool"
  for cmp where
  step_call: "st_gos s i = Idle \<or> st_gos s i = Returned e' r \<Longrightarrow>
     cel_step cmp s (go_to i (Lookup e) s)"
| step_hit: "st_gos s i = Lookup e \<Longrightarrow> map_of (cc_entries (st_cache s)) e = Some (old, p) \<Longrightarrow>
     clk = cc_clock (st_cache s) + 1 \<Longrightarrow>
     cel_step cmp s (go_to i (Storing e clk p) (s\<lparr>st_cache := (st_cache s)\<lparr>cc_clock := clk\<rparr>\<rparr>))"
| step_store: "st_gos s i = Storing e clk p \<Longrightarrow> c = st_cache s \<Longrightarrow>
     cel_step cmp s (go_to i (Returned e (Inr p))
       (s\<lparr>st_cache := c\<lparr>cc_entries := set_clock e clk (cc_entries c)\<rparr>\<rparr>))"
| step_miss: "st_gos s i = Lookup e \<Longrightarrow> map_of (cc_entries (st_cache s)) e = None \<Longrightarrow>
     cel_step cmp s (go_to i (Missed e) s)"
| step_join: "st_gos s i = Missed e \<Longrightarrow> no_reader s \<Longrightarrow> st_inflight s e = Some c \<Longrightarrow>
     cel_step cmp s (go_to i (Waiting e c) s)"
| step_lead: "st_gos s i = Missed e \<Longrightarrow> no_reader s \<Longrightarrow> st_inflight s e = None \<Longrightarrow>
     c = st_next s \<Longrightarrow>
     cel_step cmp s (go_to i (Compiling e c)
       (s\<lparr>st_inflight := (st_inflight s)(e \<mapsto> c), st_next := Suc c\<rparr>))"
| step_compiled: "st_gos s i = Compiling e c \<Longrightarrow>
     cel_step cmp s (go_to i (Inserting e c) (s\<lparr>st_calls := (st_calls s)(c \<mapsto> cmp e)\<rparr>))"
| step_woken: "st_gos s i = Waiting e c \<Longrightarrow> st_calls s c = Some r \<Longrightarrow>
     cel_step cmp s (go_to i (Returned e r) s)"
| step_insert: "st_gos s i = Inserting e c \<Longrightarrow> no_reader s \<Longrightarrow> st_calls s c = Some r \<Longrightarrow>
     finish_compile e r (st_cache s) = (r', cache) \<Longrightarrow>
     cel_step cmp s (go_to i (Returned e r')
       (s\<lparr>st_cache := cache, st_inflight := (st_inflight s)(e := None)\<rparr>))"

definition cel_init :: "int \<Rightarrow> u64 \<Rightarrow> ('e, 'p) cel_state" where
  "cel_init capacity clk =
     \<lparr>st_cache = NewCache capacity clk, st_inflight = Map.empty, st_calls = Map.empty, st_next = 0,
      st_gos = (\<lambda>_. Idle)\<rparr>"

text \<open>The states after \<open>n\<close> steps.\<close>

inductive cel_reach ::
    "(string \<Rightarrow> 'e + 'p) \<Rightarrow> int \<Rightarrow> u64 \<Rightarrow> nat \<Rightarrow> ('e, 'p) cel_state \<Rightarrow> bool"
  for cmp capacity clk where
  reach_init: "cel_reach cmp capacity clk 0 (cel_init capacity clk)"
| reach_step: "cel_reach cmp capacity clk n s \<Longrightarrow> cel_step cmp s s' \<Longrightarrow>
     cel_reach cmp capacity clk (Suc n) s'"

subsection \<open>The cached programs are the compiled ones\<close>

definition cache_sound :: "(string \<Rightarrow> 'e + 'p) \<Rightarrow> 'p cel_cache \<Rightarrow> bool" where
  "cache_sound cmp c \<longleftrightarrow> (\<forall>e clk p. (e, clk, p) \<in> set (cc_entries c) \<longrightarrow> cmp e = Inr p)"

lemma evict_subset: "set (evict cap es) \<subseteq> set es"
proof (induction cap es rule: evict.induct)
  case (1 cap es)
  show ?case
  proof (cases "int (length es) \<ge> cap \<and> oldestKey es \<noteq> []")
    case True
    then show ?thesis using 1 by (subst evict.simps) (auto simp: del_entry_def)
  next
    case False
    then show ?thesis by (subst evict.simps) auto
  qed
qed

lemma sound_hit: "cache_sound cmp c \<Longrightarrow> cache_sound cmp (hit_entry e c)"
  by (auto simp: cache_sound_def hit_entry_def set_clock_def split: if_splits)

lemma sound_insert:
  "cache_sound cmp c \<Longrightarrow> cmp e = Inr p \<Longrightarrow> cache_sound cmp (insert_entry e p c)"
  using evict_subset [of "cc_capacity c" "cc_entries c"]
  by (auto simp: cache_sound_def insert_entry_def evictIfNeeded_def Let_def)

lemma sound_lookup: "cache_sound cmp c \<Longrightarrow> map_of (cc_entries c) e = Some (clk, p) \<Longrightarrow> cmp e = Inr p"
  by (auto simp: cache_sound_def dest: map_of_SomeD)

lemma finish_sound:
  assumes "cache_sound cmp c" "finish_compile e (cmp e) c = (r, c')"
  shows "r = cmp e \<and> cache_sound cmp c'"
  using assms sound_lookup [of cmp c e]
  by (auto simp: finish_compile_def sound_hit sound_insert split: sum.splits option.splits)

lemma getOrCompile_sound:
  assumes "cache_sound cmp c"
  shows "fst (getOrCompile cmp e c) = cmp e \<and> cache_sound cmp (snd (getOrCompile cmp e c))"
  using assms sound_lookup [OF assms, of e]
    finish_sound [OF assms, of e "fst (finish_compile e (cmp e) c)" "snd (finish_compile e (cmp e) c)"]
  by (auto simp: getOrCompile_def sound_hit split: option.splits)

lemma new_sound: "cache_sound cmp (NewCache cap clk)"
  by (simp add: cache_sound_def NewCache_def)

subsection \<open>Invariant of the interleavings\<close>

text \<open>A goroutine's phase is consistent with the shared state.\<close>

definition go_ok :: "(string \<Rightarrow> 'e + 'p) \<Rightarrow> ('e, 'p) cel_state \<Rightarrow> ('e, 'p) goroutine \<Rightarrow> bool" where
  "go_ok cmp s g =
     (case g of
        Storing e clk p \<Rightarrow> cmp e = Inr p
      | Waiting e c \<Rightarrow> c < st_next s \<and>
          (st_calls s c = Some (cmp e) \<or> st_calls s c = None \<and> st_inflight s e = Some c)
      | Compiling e c \<Rightarrow> st_inflight s e = Some c \<and> st_calls s c = None
      | Inserting e c \<Rightarrow> st_inflight s e = Some c \<and> st_calls s c = Some (cmp e)
      | Returned e r \<Rightarrow> r = cmp e
      | _ \<Rightarrow> True)"

definition leads :: "('e, 'p) goroutine \<Rightarrow> string \<Rightarrow> bool" where
  "leads g e = (case g of Compiling e' c \<Rightarrow> e' = e | Inserting e' c \<Rightarrow> e' = e | _ \<Rightarrow> False)"

definition flight_ok :: "('e, 'p) cel_state \<Rightarrow> bool" where
  "flight_ok s \<longleftrightarrow>
     (\<forall>e c. st_inflight s e = Some c \<longrightarrow> c < st_next s \<and> (\<exists>j. leads (st_gos s j) e)) \<and>
     (\<forall>e e' c. st_inflight s e = Some c \<longrightarrow> st_inflight s e' = Some c \<longrightarrow> e = e') \<and>
     (\<forall>i j e. leads (st_gos s i) e \<longrightarrow> leads (st_gos s j) e \<longrightarrow> i = j) \<and>
     (\<forall>c \<ge> st_next s. st_calls s c = None)"

definition cel_inv :: "(string \<Rightarrow> 'e + 'p) \<Rightarrow> ('e, 'p) cel_state \<Rightarrow> bool" where
  "cel_inv cmp s \<longleftrightarrow> cache_sound cmp (st_cache s) \<and> (\<forall>i. go_ok cmp s (st_gos s i)) \<and> flight_ok s"

lemma sound_clock [simp]: "cache_sound cmp (c\<lparr>cc_clock := clk\<rparr>) = cache_sound cmp c"
  by (simp add: cache_sound_def)

lemma sound_store [intro]:
  "cache_sound cmp c \<Longrightarrow> cache_sound cmp (c\<lparr>cc_entries := set_clock e clk (cc_entries c)\<rparr>)"
  by (auto simp: cache_sound_def set_clock_def split: if_splits)

lemma go_to_sel [simp]:
  "st_cache (go_to i g s) = st_cache s" "st_inflight (go_to i g s) = st_inflight s"
  "st_calls (go_to i g s) = st_calls s" "st_next (go_to i g s) = st_next s"
  "st_gos (go_to i g s) = (st_gos s)(i := g)"
  by (simp_all add: go_to_def)

lemma go_ok_frame [simp]:
  "go_ok cmp (go_to i g s) h = go_ok cmp s h" "go_ok cmp (s\<lparr>st_cache := c\<rparr>) h = go_ok cmp s h"
  by (simp_all add: go_ok_def split: goroutine.splits)

lemma leads_simps [simp]:
  "\<not> leads Idle e" "\<not> leads (Lookup x) e" "\<not> leads (Storing x clk p) e" "\<not> leads (Missed x) e"
  "\<not> leads (Waiting x c) e" "leads (Compiling x c) e = (x = e)" "leads (Inserting x c) e = (x = e)"
  "\<not> leads (Returned x r) e"
  by (simp_all add: leads_def)

lemma go_ok_simps [simp]:
  "go_ok cmp s Idle" "go_ok cmp s (Lookup e)" "go_ok cmp s (Missed e)"
  "go_ok cmp s (Storing e clk p) = (cmp e = Inr p)"
  "go_ok cmp s (Waiting e c) = (c < st_next s \<and>
     (st_calls s c = Some (cmp e) \<or> st_calls s c = None \<and> st_inflight s e = Some c))"
  "go_ok cmp s (Compiling e c) = (st_inflight s e = Some c \<and> st_calls s c = None)"
  "go_ok cmp s (Inserting e c) = (st_inflight s e = Some c \<and> st_calls s c = Some (cmp e))"
  "go_ok cmp s (Returned e r) = (r = cmp e)"
  by (simp_all add: go_ok_def)

lemma inv_all: "cel_inv cmp s \<Longrightarrow> go_ok cmp s (st_gos s k)"
  by (simp add: cel_inv_def)

lemma inv_go: "cel_inv cmp s \<Longrightarrow> st_gos s i = g \<Longrightarrow> go_ok cmp s g"
  by (auto simp: cel_inv_def)

lemma inv_flight:
  assumes "cel_inv cmp s"
  shows "st_inflight s e = Some c \<Longrightarrow> c < st_next s"
    and "st_inflight s e = Some c \<Longrightarrow> \<exists>j. leads (st_gos s j) e"
    and "st_inflight s e = Some c \<Longrightarrow> st_inflight s e' = Some c \<Longrightarrow> e = e'"
    and "leads (st_gos s i) e \<Longrightarrow> leads (st_gos s j) e \<Longrightarrow> i = j"
    and "st_next s \<le> c \<Longrightarrow> st_calls s c = None"
  using assms unfolding cel_inv_def flight_ok_def by blast+

lemma insert_result:
  assumes "cel_inv cmp s" "st_gos s i = Inserting e c" "st_calls s c = Some r"
    "finish_compile e r (st_cache s) = (r', cache)"
  shows "r' = cmp e \<and> cache_sound cmp cache"
  using assms inv_go [OF assms(1,2)] finish_sound [of cmp "st_cache s" e r' cache]
  by (simp add: cel_inv_def)

lemma step_sound: "cel_step cmp s s' \<Longrightarrow> cel_inv cmp s \<Longrightarrow> cache_sound cmp (st_cache s')"
proof (induction rule: cel_step.induct)
  case (step_insert s i e c r r' cache)
  then show ?case using insert_result by fastforce
qed (auto simp: cel_inv_def)

lemma join_call:
  assumes inv: "cel_inv cmp s" and fl: "st_inflight s e = Some c"
  shows "c < st_next s \<and> (st_calls s c = Some (cmp e) \<or> st_calls s c = None)"
proof -
  obtain j where "leads (st_gos s j) e" using inv_flight(2) [OF inv fl] by blast
  then show ?thesis
    using inv_all [OF inv, of j] fl inv_flight(1) [OF inv fl] by (cases "st_gos s j") auto
qed

lemma compiled_go_ok:
  assumes inv: "cel_inv cmp s" and i: "st_gos s i = Compiling e c" and "k \<noteq> i"
  shows "go_ok cmp (s\<lparr>st_calls := (st_calls s)(c \<mapsto> cmp e)\<rparr>) (st_gos s k)"
proof -
  have fl: "st_inflight s e = Some c" "st_calls s c = None" using inv_go [OF inv i] by simp_all
  have k: "\<not> leads (st_gos s k) e" using inv_flight(4) [OF inv, of k e i] i \<open>k \<noteq> i\<close> by auto
  have inj: "e' = e" if "st_inflight s e' = Some c" for e'
    using inv_flight(3) [OF inv that fl(1)] .
  show ?thesis
    using inv_all [OF inv, of k] k fl by (cases "st_gos s k") (auto dest: inj)
qed

lemma insert_go_ok:
  assumes inv: "cel_inv cmp s" and i: "st_gos s i = Inserting e c" and "k \<noteq> i"
  shows "go_ok cmp (s\<lparr>st_inflight := (st_inflight s)(e := None)\<rparr>) (st_gos s k)"
proof -
  have fl: "st_inflight s e = Some c" "st_calls s c \<noteq> None" using inv_go [OF inv i] by simp_all
  have k: "\<not> leads (st_gos s k) e" using inv_flight(4) [OF inv, of k e i] i \<open>k \<noteq> i\<close> by auto
  show ?thesis
    using inv_go [OF inv refl, of k] k fl by (cases "st_gos s k") auto
qed

lemma lead_go_ok:
  assumes inv: "cel_inv cmp s" and "st_inflight s e = None"
  shows "go_ok cmp (s\<lparr>st_inflight := (st_inflight s)(e \<mapsto> c), st_next := Suc (st_next s)\<rparr>) (st_gos s k)"
  using inv_go [OF inv refl, of k] assms(2) by (cases "st_gos s k") auto

lemma go_ok_cache [simp]:
  "go_ok cmp (s\<lparr>st_cache := c, st_inflight := f\<rparr>) h = go_ok cmp (s\<lparr>st_inflight := f\<rparr>) h"
  by (cases h) simp_all

lemma step_go_ok: "cel_step cmp s s' \<Longrightarrow> cel_inv cmp s \<Longrightarrow> go_ok cmp s' (st_gos s' k)"
proof (induction rule: cel_step.induct)
  case (step_hit s i e old p clk)
  then have "cmp e = Inr p" by (auto simp: cel_inv_def intro: sound_lookup)
  with step_hit show ?case by (cases "k = i") (simp_all add: inv_all)
next
  case (step_store s i e clk p c)
  then show ?case using inv_go [OF step_store(3,1)] by (cases "k = i") (simp_all add: inv_all)
next
  case (step_join s i e c)
  then show ?case using join_call [OF step_join(4,3)] by (cases "k = i") (simp_all add: inv_all)
next
  case (step_lead s i e c)
  then show ?case using inv_flight(5) [OF step_lead(5)] by (cases "k = i") (simp_all add: lead_go_ok)
next
  case (step_compiled s i e c)
  then show ?case using inv_go [OF step_compiled(2,1)] by (cases "k = i") (simp_all add: compiled_go_ok)
next
  case (step_woken s i e c r)
  then show ?case using inv_go [OF step_woken(3,1)] by (cases "k = i") (simp_all add: inv_all)
next
  case (step_insert s i e c r r' cache)
  then show ?case using insert_result [OF step_insert(5,1,3,4)] by (cases "k = i") (simp_all add: insert_go_ok)
next
  case (step_call s i e' r e)
  then show ?case by (cases "k = i") (simp_all add: inv_all)
next
  case (step_miss s i e)
  then show ?case by (cases "k = i") (simp_all add: inv_all)
qed

lemma flight_cache [simp]: "flight_ok (s\<lparr>st_cache := c\<rparr>) = flight_ok s"
  by (simp add: flight_ok_def)

lemma flight_frame:
  assumes "flight_ok s" "\<And>e. leads g e = leads (st_gos s i) e"
  shows "flight_ok (go_to i g (s\<lparr>st_cache := c\<rparr>))" "flight_ok (go_to i g s)"
proof -
  have eq: "leads (((st_gos s)(i := g)) j) e = leads (st_gos s j) e" for j e using assms(2) by simp
  show "flight_ok (go_to i g (s\<lparr>st_cache := c\<rparr>))" "flight_ok (go_to i g s)"
    using assms(1) by (simp_all add: flight_ok_def eq del: fun_upd_apply)
qed

lemma lead_flight:
  assumes inv: "cel_inv cmp s" and e: "st_inflight s e = None" and c: "c = st_next s"
    and i: "st_gos s i = Missed e"
  shows "flight_ok (go_to i (Compiling e c) (s\<lparr>st_inflight := (st_inflight s)(e \<mapsto> c), st_next := Suc c\<rparr>))"
proof -
  have no: "\<not> leads (st_gos s j) e" for j
    using inv_all [OF inv, of j] e by (cases "st_gos s j") auto
  have fresh: "st_inflight s e' \<noteq> Some c" for e' using inv_flight(1) [OF inv, of e'] c by blast
  have old: "\<exists>j. j \<noteq> i \<and> leads (st_gos s j) e'" if "st_inflight s e' = Some c'" for e' c'
    using inv_flight(2) [OF inv that] i by (metis leads_simps(4))
  show ?thesis
    unfolding flight_ok_def
  proof (intro conjI allI impI, goal_cases)
    case (1 e' c')
    then show ?case using inv_flight(1) [OF inv, of e' c'] c by (auto split: if_splits)
  next
    case (2 e' c')
    then show ?case using old [of e' c'] by (cases "e' = e") auto
  next
    case (3 e1 e2 c')
    then show ?case using fresh inv_flight(3) [OF inv, of e1 c' e2] by (auto split: if_splits)
  next
    case (4 k j e')
    then show ?case using no inv_flight(4) [OF inv, of k e' j] by (auto split: if_splits)
  next
    case (5 c')
    then show ?case using inv_flight(5) [OF inv, of c'] c by simp
  qed
qed

lemma insert_flight:
  assumes inv: "cel_inv cmp s" and i: "st_gos s i = Inserting e c"
  shows "flight_ok (go_to i (Returned e r)
    (s\<lparr>st_cache := cache, st_inflight := (st_inflight s)(e := None)\<rparr>))"
proof -
  have old: "\<exists>j. j \<noteq> i \<and> leads (st_gos s j) e'" if "st_inflight s e' = Some c'" "e' \<noteq> e" for e' c'
    using inv_flight(2) [OF inv that(1)] i that(2) by (metis leads_simps(7))
  show ?thesis
    unfolding flight_ok_def
  proof (intro conjI allI impI, goal_cases)
    case (1 e' c')
    then show ?case using inv_flight(1) [OF inv, of e' c'] by (auto split: if_splits)
  next
    case (2 e' c')
    then show ?case using old [of e' c'] by (auto split: if_splits)
  next
    case (3 e1 e2 c')
    then show ?case using inv_flight(3) [OF inv, of e1 c' e2] by (auto split: if_splits)
  next
    case (4 k j e')
    then show ?case using inv_flight(4) [OF inv, of k e' j] by (auto split: if_splits)
  next
    case (5 c')
    then show ?case using inv_flight(5) [OF inv, of c'] by simp
  qed
qed

lemma compiled_flight:
  assumes inv: "cel_inv cmp s" and i: "st_gos s i = Compiling e c"
  shows "flight_ok (go_to i (Inserting e c) (s\<lparr>st_calls := (st_calls s)(c \<mapsto> r)\<rparr>))"
proof (rule flight_frame(2))
  have "st_inflight s e = Some c" using inv_go [OF inv i] by simp
  then have c: "c < st_next s" by (rule inv_flight(1) [OF inv])
  show "flight_ok (s\<lparr>st_calls := (st_calls s)(c \<mapsto> r)\<rparr>)"
    unfolding flight_ok_def cel_state.simps
  proof (intro conjI allI impI, goal_cases)
    case (5 c')
    then show ?case using inv_flight(5) [OF inv, of c'] c by simp
  qed (auto intro: inv_flight(1-2) [OF inv] dest: inv_flight(3-4) [OF inv])
qed (use i in simp)

lemma step_flight: "cel_step cmp s s' \<Longrightarrow> cel_inv cmp s \<Longrightarrow> flight_ok s'"
proof (induction rule: cel_step.induct)
  case (step_lead s i e c)
  then show ?case by (intro lead_flight)
next
  case (step_compiled s i e c)
  then show ?case by (intro compiled_flight)
next
  case (step_insert s i e c r r' cache)
  then show ?case by (intro insert_flight)
qed (auto simp: cel_inv_def intro!: flight_frame)

lemma cel_step_inv: "cel_step cmp s s' \<Longrightarrow> cel_inv cmp s \<Longrightarrow> cel_inv cmp s'"
  by (simp add: cel_inv_def [of _ s'] step_sound step_go_ok step_flight)

lemma cel_init_inv: "cel_inv cmp (cel_init capacity clk)"
  by (simp add: cel_inv_def cel_init_def new_sound flight_ok_def)

lemma cel_reach_inv: "cel_reach cmp capacity clk n s \<Longrightarrow> cel_inv cmp s"
  by (induction rule: cel_reach.induct) (rule cel_init_inv, rule cel_step_inv)

subsection \<open>Eviction and capacity\<close>

lemma fold_older_min:
  "snd (fold older es b) \<le> snd b \<and> (\<forall>e \<in> set es. snd (fold older es b) \<le> fst (snd e)) \<and>
   (fold older es b = b \<or> (\<exists>e \<in> set es. fold older es b = (fst e, fst (snd e))))"
proof (induction es arbitrary: b)
  case (Cons e es)
  have "snd (older e b) \<le> snd b \<and> snd (older e b) \<le> fst (snd e)"
    "older e b = b \<or> older e b = (fst e, fst (snd e))"
    by (auto simp: older_def split: prod.splits)
  with Cons.IH [of "older e b"] show ?case by fastforce
qed simp

definition evictable :: "(string \<times> u64 \<times> 'p) list \<Rightarrow> bool" where
  "evictable es \<longleftrightarrow> distinct (map fst es) \<and> (\<forall>e \<in> set es. fst e \<noteq> [] \<and> fst (snd e) < - 1)"

lemma oldestKey_min:
  assumes "evictable es" "es \<noteq> []"
  shows "\<exists>e \<in> set es. oldestKey es = fst e \<and> (\<forall>e' \<in> set es. fst (snd e) \<le> fst (snd e'))"
proof -
  obtain e0 where "e0 \<in> set es" using assms(2) by (cases es) auto
  then have "snd (fold older es ([], - 1)) \<noteq> - 1"
    using fold_older_min [of es "([], - 1)"] assms(1) by (fastforce simp: evictable_def)
  then obtain e where e: "e \<in> set es" "fold older es ([], - 1) = (fst e, fst (snd e))"
    using fold_older_min [of es "([], - 1)"] by auto
  then have "\<forall>e' \<in> set es. fst (snd e) \<le> fst (snd e')" using fold_older_min [of es "([], - 1)"] by simp
  with e show ?thesis by (intro bexI [of _ e]) (simp_all add: oldestKey_def)
qed

lemma evictable_del: "evictable es \<Longrightarrow> evictable (del_entry k es)"
  by (auto simp: evictable_def del_entry_def distinct_map_filter)

lemma length_del:
  assumes "distinct (map fst es)" "e \<in> set es"
  shows "length es = Suc (length (del_entry (fst e) es))"
  using assms
proof (induction es)
  case (Cons x es)
  show ?case
  proof (cases "x = e")
    case True
    with Cons.prems have "\<forall>y \<in> set es. fst y \<noteq> fst e" by (auto simp: rev_image_eqI)
    then have "del_entry (fst e) es = es" unfolding del_entry_def by (rule filter_True)
    with True show ?thesis by (simp add: del_entry_def)
  next
    case False
    with Cons.prems have "fst x \<noteq> fst e" by force
    with False Cons show ?thesis by (simp add: del_entry_def)
  qed
qed simp

lemma evict_length: "evictable es \<Longrightarrow> int (length (evict cap es)) < max 1 cap \<and> evictable (evict cap es)"
proof (induction cap es rule: evict.induct)
  case (1 cap es)
  show ?case
  proof (cases "int (length es) \<ge> cap \<and> es \<noteq> []")
    case True
    then obtain e where "e \<in> set es" "oldestKey es = fst e" using oldestKey_min [OF 1(2)] by blast
    then have "oldestKey es \<noteq> []" using 1(2) by (auto simp: evictable_def)
    with 1 True evictable_del show ?thesis by (subst (1 2) evict.simps) auto
  next
    case False
    with 1 show ?thesis by (subst (1 2) evict.simps) (auto simp: oldestKey_def)
  qed
qed

lemma evict_one:
  assumes "evictable es" "int (length es) = cap" "0 < cap"
  shows "\<exists>e \<in> set es. (\<forall>e' \<in> set es. fst (snd e) \<le> fst (snd e')) \<and> evict cap es = del_entry (fst e) es"
proof -
  have "es \<noteq> []" using assms(2,3) by auto
  then obtain e where e: "e \<in> set es" "oldestKey es = fst e" "\<forall>e' \<in> set es. fst (snd e) \<le> fst (snd e')"
    using oldestKey_min [OF assms(1)] by blast
  have "oldestKey es \<noteq> []" using e(1,2) assms(1) by (auto simp: evictable_def)
  then have "evict cap es = evict cap (del_entry (fst e) es)" using assms(2) e(2) by (subst evict.simps) simp
  also have "\<dots> = del_entry (fst e) es"
    using length_del [of es e] e(1) assms(1,2) by (subst evict.simps) (simp add: evictable_def)
  finally show ?thesis using e by blast
qed

lemma evict_room: "int (length es) < cap \<Longrightarrow> evict cap es = es"
  by (subst evict.simps) simp

definition cache_bounded :: "int \<Rightarrow> int \<Rightarrow> 'p cel_cache \<Rightarrow> bool" where
  "cache_bounded cap b c \<longleftrightarrow>
     cc_capacity c = cap \<and> uint (cc_clock c) \<le> b \<and> distinct (map fst (cc_entries c)) \<and>
     (\<forall>e \<in> set (cc_entries c). fst e \<noteq> [] \<and> fst (snd e) \<le> cc_clock c) \<and>
     int (length (cc_entries c)) \<le> max 1 cap"

lemma clock_suc:
  assumes "uint (c :: u64) \<le> b" "b + 1 < 2 ^ 64"
  shows "uint (c + 1) = uint c + 1" "c \<le> c + 1"
  using assms uint_ge_0 [of c]
  by (simp_all add: uint_word_ariths word_le_def)

lemma bounded_evictable:
  assumes "cache_bounded cap b c" "b + 1 < 2 ^ 64"
  shows "evictable (cc_entries c)"
proof -
  have "cc_clock c < - 1" using assms by (simp add: cache_bounded_def word_less_alt unsigned_minus_1_eq_mask mask_eq_exp_minus_1)
  with assms(1) show ?thesis by (fastforce simp: evictable_def cache_bounded_def)
qed

lemma keys_set_clock [simp]: "map fst (set_clock k c es) = map fst es"
  by (simp add: set_clock_def case_prod_unfold comp_def if_distrib [of fst] cong: if_cong)

lemma bounded_store:
  assumes "cache_bounded cap b c" "clk \<le> cc_clock c"
  shows "cache_bounded cap b (c\<lparr>cc_entries := set_clock e clk (cc_entries c)\<rparr>)"
proof -
  have "length (set_clock e clk (cc_entries c)) = length (cc_entries c)" by (simp add: set_clock_def)
  with assms show ?thesis by (auto simp: cache_bounded_def) (auto simp: set_clock_def split: if_splits)
qed

lemma bounded_tick:
  assumes "cache_bounded cap b c" "b + 1 < 2 ^ 64"
  shows "cache_bounded cap (b + 1) (c\<lparr>cc_clock := cc_clock c + 1\<rparr>)"
proof -
  have "uint (cc_clock c) \<le> b" using assms(1) by (simp add: cache_bounded_def)
  from clock_suc [OF this assms(2)] assms(1) show ?thesis by (force simp: cache_bounded_def)
qed

lemma bounded_hit:
  assumes "cache_bounded cap b c" "b + 1 < 2 ^ 64"
  shows "cache_bounded cap (b + 1) (hit_entry e c)"
  using bounded_store [OF bounded_tick [OF assms], of "cc_clock c + 1" e] by (simp add: hit_entry_def)

lemma bounded_insert:
  assumes c: "cache_bounded cap b c" "b + 1 < 2 ^ 64" and e: "e \<noteq> []" "map_of (cc_entries c) e = None"
  shows "cache_bounded cap (b + 1) (insert_entry e p c)"
proof -
  let ?es = "evict cap (cc_entries c)"
  have cap: "cc_capacity c = cap" and clk: "uint (cc_clock c) \<le> b" using c(1) by (simp_all add: cache_bounded_def)
  have ev: "int (length ?es) < max 1 cap" "distinct (map fst ?es)"
    using evict_length [OF bounded_evictable [OF c]] by (simp_all add: evictable_def)
  have old: "fst x \<noteq> [] \<and> fst (snd x) \<le> cc_clock c + 1 \<and> fst x \<noteq> e" if "x \<in> set ?es" for x
  proof -
    have "x \<in> set (cc_entries c)" using that evict_subset by blast
    then show ?thesis using c(1) clock_suc(2) [OF clk c(2)] e(2)
      by (auto simp: cache_bounded_def map_of_eq_None_iff intro: order_trans)
  qed
  have "e \<notin> fst ` set ?es" using old by auto
  then show ?thesis
    using ev old e(1) cap clk clock_suc [OF clk c(2)]
    by (auto simp: cache_bounded_def insert_entry_def evictIfNeeded_def Let_def)
qed

lemma bounded_mono: "cache_bounded cap b c \<Longrightarrow> b \<le> b' \<Longrightarrow> cache_bounded cap b' c"
  by (auto simp: cache_bounded_def)

lemma bounded_finish:
  assumes "cache_bounded cap b c" "b + 1 < 2 ^ 64" "finish_compile e r c = (r', c')" "\<And>p. r = Inr p \<Longrightarrow> e \<noteq> []"
  shows "cache_bounded cap (b + 1) c'"
  using assms bounded_mono [OF assms(1)] bounded_hit [OF assms(1,2)] bounded_insert [OF assms(1,2)]
  by (auto simp: finish_compile_def split: sum.splits option.splits)

definition state_bounded :: "int \<Rightarrow> int \<Rightarrow> ('e, 'p) cel_state \<Rightarrow> bool" where
  "state_bounded cap b s \<longleftrightarrow> cache_bounded cap b (st_cache s) \<and>
     (\<forall>i e clk p. st_gos s i = Storing e clk p \<longrightarrow> clk \<le> cc_clock (st_cache s))"

lemma clock_finish:
  assumes "uint (cc_clock c) \<le> b" "b + 1 < 2 ^ 64" "finish_compile e r c = (r', c')"
  shows "cc_clock c \<le> cc_clock c'"
  using assms(3) clock_suc(2) [OF assms(1,2)]
  by (auto simp: finish_compile_def hit_entry_def insert_entry_def evictIfNeeded_def Let_def
      split: sum.splits option.splits)

lemma step_bounded:
  assumes "cel_step cmp s s'" "cel_inv cmp s" "state_bounded cap b s" "b + 1 < 2 ^ 64" "\<And>p. cmp [] \<noteq> Inr p"
  shows "state_bounded cap (b + 1) s'"
  using assms
proof (induction rule: cel_step.induct)
  case (step_hit s i e old p clk)
  then have b: "cache_bounded cap b (st_cache s)" "uint (cc_clock (st_cache s)) \<le> b"
    by (simp_all add: state_bounded_def cache_bounded_def)
  have "clk' \<le> clk" if "st_gos s j = Storing e' clk' p'" for j e' clk' p'
  proof -
    have "clk' \<le> cc_clock (st_cache s)" using that step_hit(5) by (simp add: state_bounded_def) blast
    then show ?thesis using step_hit(3) clock_suc(2) [OF b(2) step_hit(6)] by simp
  qed
  then show ?case
    using bounded_tick [OF b(1) step_hit(6)] step_hit(3) by (simp add: state_bounded_def) blast
next
  case (step_store s i e clk p c)
  then have "cache_bounded cap b c" "clk \<le> cc_clock c" unfolding state_bounded_def by blast+
  from bounded_mono [OF bounded_store [OF this], of "b + 1" e]
  have "cache_bounded cap (b + 1) (c\<lparr>cc_entries := set_clock e clk (cc_entries c)\<rparr>)" by simp
  with step_store show ?case by (auto simp: state_bounded_def)
next
  case (step_insert s i e c r r' cache)
  then have b: "cache_bounded cap b (st_cache s)" "uint (cc_clock (st_cache s)) \<le> b"
    by (simp_all add: state_bounded_def cache_bounded_def)
  have "r = cmp e" using inv_go [OF step_insert(5,1)] step_insert(3) by simp
  then have "e \<noteq> []" if "r = Inr p" for p using that step_insert(8) [of p] by auto
  then have "cache_bounded cap (b + 1) cache" by (rule bounded_finish [OF b(1) step_insert(7,4)])
  moreover have "clk \<le> cc_clock cache" if "st_gos s j = Storing e' clk p" for j e' clk p
  proof -
    have "clk \<le> cc_clock (st_cache s)" using that step_insert(6) by (simp add: state_bounded_def) blast
    then show ?thesis using clock_finish [OF b(2) step_insert(7,4)] by simp
  qed
  ultimately show ?case by (simp add: state_bounded_def) blast
qed (auto simp: state_bounded_def intro: bounded_mono split: if_splits)

lemma reach_bounded:
  assumes "cel_reach cmp capacity clk n s" "uint clk + int n + 1 < 2 ^ 64" "\<And>p. cmp [] \<noteq> Inr p"
  shows "state_bounded capacity (uint clk + int n) s"
  using assms
proof (induction rule: cel_reach.induct)
  case reach_init
  show ?case by (simp add: state_bounded_def cel_init_def NewCache_def cache_bounded_def)
next
  case (reach_step n s s')
  then have "state_bounded capacity (uint clk + int n) s" by simp
  from step_bounded [OF reach_step(2) cel_reach_inv [OF reach_step(1)] this] reach_step(4,5)
  show ?case by (simp add: ac_simps)
qed

subsection \<open>Progress\<close>

abbreviation cel_steps where "cel_steps cmp \<equiv> (cel_step cmp)\<^sup>*\<^sup>*"

lemma cel_steps_inv: "cel_steps cmp s s' \<Longrightarrow> cel_inv cmp s \<Longrightarrow> cel_inv cmp s'"
  by (induction rule: rtranclp_induct) (assumption, rule cel_step_inv)

lemma finite_upd: "finite {j. f j \<noteq> Idle} \<Longrightarrow> finite {j. (f(i := g)) j \<noteq> Idle}"
  by (rule finite_subset [of _ "insert i {j. f j \<noteq> Idle}"]) auto

lemma cel_step_finite: "cel_step cmp s s' \<Longrightarrow> finite {j. st_gos s j \<noteq> Idle} \<Longrightarrow> finite {j. st_gos s' j \<noteq> Idle}"
  by (induction rule: cel_step.induct) (simp_all add: finite_upd del: fun_upd_apply)

lemma cel_reach_finite: "cel_reach cmp capacity clk n s \<Longrightarrow> finite {j. st_gos s j \<noteq> Idle}"
proof (induction rule: cel_reach.induct)
  case (reach_step n s s')
  show ?case by (rule cel_step_finite [OF reach_step(2,3)])
qed (simp add: cel_init_def)

text \<open>Readers never wait, so the lock becomes free.\<close>

lemma drain_readers:
  assumes "finite {j. st_gos s j \<noteq> Idle}"
  shows "\<exists>s'. cel_steps cmp s s' \<and> no_reader s' \<and> st_inflight s' = st_inflight s \<and> st_calls s' = st_calls s \<and>
    finite {j. st_gos s' j \<noteq> Idle} \<and> (\<forall>k. \<not> reading (st_gos s k) \<longrightarrow> st_gos s' k = st_gos s k)"
  using assms
proof (induction "card {j. reading (st_gos s j)}" arbitrary: s rule: less_induct)
  case less
  have fin: "finite {j. reading (st_gos s j)}"
    by (rule finite_subset [OF _ less.prems]) (auto simp: reading_def)
  show ?case
  proof (cases "no_reader s")
    case True
    with less.prems show ?thesis by blast
  next
    case False
    then obtain i where ri: "reading (st_gos s i)" by (auto simp: no_reader_def)
    then obtain e clk p where i: "st_gos s i = Storing e clk p"
      by (auto simp: reading_def split: goroutine.splits)
    define t where "t = go_to i (Returned e (Inr p))
      (s\<lparr>st_cache := (st_cache s)\<lparr>cc_entries := set_clock e clk (cc_entries (st_cache s))\<rparr>\<rparr>)"
    have st: "cel_step cmp s t" unfolding t_def by (rule step_store [OF i refl])
    have "{j. reading (st_gos t j)} = {j. reading (st_gos s j)} - {i}"
      by (auto simp: t_def reading_def)
    then have "card {j. reading (st_gos t j)} < card {j. reading (st_gos s j)}"
      using card_Diff1_less [OF fin, of i] ri by simp
    from less.hyps [OF this cel_step_finite [OF st less.prems]] obtain s' where
      s': "cel_steps cmp t s'" "no_reader s'" "st_inflight s' = st_inflight t" "st_calls s' = st_calls t"
        "finite {j. st_gos s' j \<noteq> Idle}" "\<forall>k. \<not> reading (st_gos t k) \<longrightarrow> st_gos s' k = st_gos t k"
      by blast
    have "st_gos s' k = st_gos s k" if "\<not> reading (st_gos s k)" for k
      using s'(6) [rule_format, of k] ri that by (cases "k = i") (simp_all add: t_def)
    moreover have "cel_steps cmp s s'" using st s'(1) by (rule converse_rtranclp_into_rtranclp)
    ultimately show ?thesis using s'(2-5) by (intro exI [of _ s']) (simp add: t_def)
  qed
qed

text \<open>The expression a goroutine works on.\<close>

definition working :: "('e, 'p) goroutine \<Rightarrow> string option" where
  "working g = (case g of Idle \<Rightarrow> None | Lookup e \<Rightarrow> Some e | Storing e clk p \<Rightarrow> Some e | Missed e \<Rightarrow> Some e
     | Waiting e c \<Rightarrow> Some e | Compiling e c \<Rightarrow> Some e | Inserting e c \<Rightarrow> Some e | Returned e r \<Rightarrow> Some e)"

definition can_return :: "(string \<Rightarrow> 'e + 'p) \<Rightarrow> nat \<Rightarrow> string \<Rightarrow> ('e, 'p) cel_state \<Rightarrow> bool" where
  "can_return cmp i e s \<longleftrightarrow> (\<exists>s'. cel_steps cmp s s' \<and> st_gos s' i = Returned e (cmp e))"

lemma can_return_step: "cel_steps cmp s t \<Longrightarrow> can_return cmp i e t \<Longrightarrow> can_return cmp i e s"
  unfolding can_return_def by (meson rtranclp_trans)

lemma can_return_step1: "cel_step cmp s t \<Longrightarrow> can_return cmp i e t \<Longrightarrow> can_return cmp i e s"
  by (rule can_return_step [OF r_into_rtranclp [of "cel_step cmp"]])

lemma can_return_now: "cel_inv cmp s \<Longrightarrow> cel_step cmp s s' \<Longrightarrow> st_gos s' i = Returned e r \<Longrightarrow> can_return cmp i e s"
  using inv_go [OF cel_step_inv, of cmp s s' i "Returned e r"] unfolding can_return_def
  by (intro exI [of _ s']) (simp add: r_into_rtranclp [of "cel_step cmp"])

lemma insert_returns:
  assumes inv: "cel_inv cmp s" and fin: "finite {j. st_gos s j \<noteq> Idle}" and i: "st_gos s i = Inserting e c"
  shows "can_return cmp i e s"
proof -
  obtain t where t: "cel_steps cmp s t" "no_reader t" "st_calls t = st_calls s"
      "\<forall>k. \<not> reading (st_gos s k) \<longrightarrow> st_gos t k = st_gos s k"
    using drain_readers [OF fin] by blast
  have ti: "st_gos t i = Inserting e c" using t(4) i by (simp add: reading_def)
  have calls: "st_calls t c = Some (cmp e)" using inv_go [OF inv i] t(3) by simp
  obtain r' cache where "finish_compile e (cmp e) (st_cache t) = (r', cache)" by fastforce
  from step_insert [OF ti t(2) calls this] have "can_return cmp i e t"
    by (rule can_return_now [OF cel_steps_inv [OF t(1) inv]]) simp
  with t(1) show ?thesis by (rule can_return_step)
qed

lemma compiling_returns:
  assumes inv: "cel_inv cmp s" and fin: "finite {j. st_gos s j \<noteq> Idle}" and i: "st_gos s i = Compiling e c"
  shows "can_return cmp i e s"
proof -
  note st = step_compiled [OF i, of cmp]
  have "can_return cmp i e (go_to i (Inserting e c) (s\<lparr>st_calls := (st_calls s)(c \<mapsto> cmp e)\<rparr>))"
    by (rule insert_returns [OF cel_step_inv [OF st inv] cel_step_finite [OF st fin]]) simp
  with st show ?thesis by (rule can_return_step1)
qed

lemma waiting_returns:
  assumes inv: "cel_inv cmp s" and i: "st_gos s i = Waiting e c"
  shows "can_return cmp i e s"
proof (cases "st_calls s c")
  case (Some r)
  show ?thesis by (rule can_return_now [OF inv step_woken [OF i Some]]) simp
next
  case None
  then have fl: "st_inflight s e = Some c" using inv_go [OF inv i] by simp
  then obtain j where "leads (st_gos s j) e" using inv_flight(2) [OF inv fl] by blast
  then have j: "st_gos s j = Compiling e c"
    using inv_all [OF inv, of j] fl None by (cases "st_gos s j") auto
  let ?t = "go_to j (Inserting e c) (s\<lparr>st_calls := (st_calls s)(c \<mapsto> cmp e)\<rparr>)"
  note st = step_compiled [OF j, of cmp]
  have t: "st_gos ?t i = Waiting e c" "st_calls ?t c = Some (cmp e)" using i j by auto
  have "can_return cmp i e ?t"
    by (rule can_return_now [OF cel_step_inv [OF st inv] step_woken [OF t]]) simp
  with st show ?thesis by (rule can_return_step1)
qed

lemma missed_returns:
  assumes inv: "cel_inv cmp s" and fin: "finite {j. st_gos s j \<noteq> Idle}" and i: "st_gos s i = Missed e"
  shows "can_return cmp i e s"
proof -
  obtain t where t: "cel_steps cmp s t" "no_reader t" "finite {j. st_gos t j \<noteq> Idle}"
      "\<forall>k. \<not> reading (st_gos s k) \<longrightarrow> st_gos t k = st_gos s k"
    using drain_readers [OF fin] by blast
  have ti: "st_gos t i = Missed e" using t(4) i by (simp add: reading_def)
  have tinv: "cel_inv cmp t" using cel_steps_inv [OF t(1) inv] .
  have "can_return cmp i e t"
  proof (cases "st_inflight t e")
    case (Some c)
    note st = step_join [OF ti t(2) Some, of cmp]
    show ?thesis
      by (rule can_return_step1 [OF st], rule waiting_returns [OF cel_step_inv [OF st tinv]]) simp
  next
    case None
    note st = step_lead [OF ti t(2) None refl, of cmp]
    show ?thesis
      by (rule can_return_step1 [OF st],
          rule compiling_returns [OF cel_step_inv [OF st tinv] cel_step_finite [OF st t(3)]]) simp
  qed
  with t(1) show ?thesis by (rule can_return_step)
qed

lemma storing_returns:
  assumes inv: "cel_inv cmp s" and i: "st_gos s i = Storing e clk p"
  shows "can_return cmp i e s"
  by (rule can_return_now [OF inv step_store [OF i refl]]) simp

lemma lookup_returns:
  assumes inv: "cel_inv cmp s" and fin: "finite {j. st_gos s j \<noteq> Idle}" and i: "st_gos s i = Lookup e"
  shows "can_return cmp i e s"
proof (cases "map_of (cc_entries (st_cache s)) e")
  case (Some cp)
  then obtain old p where hit: "map_of (cc_entries (st_cache s)) e = Some (old, p)" by (cases cp) simp
  note st = step_hit [OF i hit refl, of cmp]
  show ?thesis
    by (rule can_return_step1 [OF st], rule storing_returns [OF cel_step_inv [OF st inv]]) simp
next
  case None
  note st = step_miss [OF i None, of cmp]
  show ?thesis
    by (rule can_return_step1 [OF st],
        rule missed_returns [OF cel_step_inv [OF st inv] cel_step_finite [OF st fin]]) simp
qed

lemma working_returns:
  assumes inv: "cel_inv cmp s" and fin: "finite {j. st_gos s j \<noteq> Idle}" and w: "working (st_gos s i) = Some e"
  shows "can_return cmp i e s"
proof (cases "st_gos s i")
  case (Returned e' r)
  with w inv_go [OF inv Returned] show ?thesis by (auto simp: can_return_def working_def)
qed (use w in \<open>auto simp: working_def intro: lookup_returns [OF inv fin] storing_returns [OF inv]
    missed_returns [OF inv fin] waiting_returns [OF inv] compiling_returns [OF inv fin] insert_returns [OF inv fin]\<close>)

subsection \<open>The interface the policy resolver relies on\<close>

text \<open>
  Evaluating a condition through a state that only remembers what was compiled: the answers are
  those of a direct evaluation, in whatever order the conditions are evaluated.
\<close>

locale condition_evaluator =
  fixes evaluate :: "string \<Rightarrow> 'v \<Rightarrow> 'c \<Rightarrow> 'r \<times> 'c"
    and sound :: "'c \<Rightarrow> bool"
    and direct :: "string \<Rightarrow> 'v \<Rightarrow> 'r"
  assumes evaluate_result: "sound c \<Longrightarrow> fst (evaluate e v c) = direct e v"
    and evaluate_sound: "sound c \<Longrightarrow> sound (snd (evaluate e v c))"
begin

lemma evaluate_pair: "sound c \<Longrightarrow> evaluate e v c = (r, c') \<Longrightarrow> r = direct e v \<and> sound c'"
  using evaluate_result [of c e v] evaluate_sound [of c e v] by auto

end

lemma Evaluate_direct:
  assumes "cache_sound (compileCall L) c"
  shows "fst (Evaluate L e v c) = evaluate_direct L e v" "cache_sound (compileCall L) (snd (Evaluate L e v c))"
  using getOrCompile_sound [OF assms, of e]
  by (auto simp: Evaluate_def evaluate_direct_def split: prod.splits sum.splits)

interpretation celc: condition_evaluator "Evaluate L" "cache_sound (compileCall L)" "evaluate_direct L" for L
  by unfold_locales (simp_all add: Evaluate_direct)

subsection \<open>Properties\<close>

definition evaluate_all ::
    "('x, 'env, 'ast, 'p, 'v, 'o) cel_lib \<Rightarrow> (string \<times> 'v) list \<Rightarrow> 'p cel_cache \<Rightarrow> ('x cel_error + bool) list" where
  "evaluate_all L qs c =
     rev (fst (fold (\<lambda>(e, v) (rs, c). case Evaluate L e v c of (r, c) \<Rightarrow> (r # rs, c)) qs ([], c)))"

lemma evaluate_fold:
  "cache_sound (compileCall L) c \<Longrightarrow>
   fst (fold (\<lambda>(e, v) (rs, c). case Evaluate L e v c of (r, c) \<Rightarrow> (r # rs, c)) qs (rs, c))
     = rev (map (\<lambda>(e, v). evaluate_direct L e v) qs) @ rs"
proof (induction qs arbitrary: rs c)
  case (Cons q qs)
  obtain e v where q: "q = (e, v)" by fastforce
  obtain r c' where r: "Evaluate L e v c = (r, c')" by fastforce
  from celc.evaluate_pair [OF Cons.prems r] Cons.IH [of c' "r # rs"] show ?case by (simp add: q r)
qed simp

text \<open>
  C19 (cache_transparent). From a new cache, any sequence of evaluations gives exactly the answers
  and errors that compiling each expression afresh and running it would give, whatever the capacity,
  and so whatever was evicted in between.
\<close>

theorem cache_transparent:
  "evaluate_all L qs (NewCache capacity clk) = map (\<lambda>(e, v). evaluate_direct L e v) qs"
  by (simp add: evaluate_all_def evaluate_fold new_sound)

text \<open>
  C17 (single_flight). Under every interleaving of any number of goroutines, two goroutines never
  compile the same expression at the same time, and every \<^verbatim>\<open>getOrCompile\<close> that returned has returned
  what compiling its own expression gives.
\<close>

theorem single_flight:
  assumes "cel_reach (compileCall L) capacity clk n s"
  shows "(\<forall>i j e c c'. st_gos s i = Compiling e c \<and> st_gos s j = Compiling e c' \<longrightarrow> i = j) \<and>
    (\<forall>i e r. st_gos s i = Returned e r \<longrightarrow> r = compileCall L e)"
proof (intro conjI allI impI)
  note inv = cel_reach_inv [OF assms]
  show "i = j" if "st_gos s i = Compiling e c \<and> st_gos s j = Compiling e c'" for i j e c c'
    using inv_flight(4) [OF inv, of i e j] that by simp
  show "r = compileCall L e" if "st_gos s i = Returned e r" for i e r
    using inv_go [OF inv that] by simp
qed

text \<open>
  C21 (call_returns). A goroutine inside \<^verbatim>\<open>getOrCompile\<close> is never stuck. From every reachable state, in
  whatever phase it is, the system can run on to a state in which that goroutine has returned what
  compiling its expression gives: no waiter outlives its compile call and no lock stays held.
\<close>

theorem call_returns:
  assumes "cel_reach (compileCall L) capacity clk n s" "working (st_gos s i) = Some e"
  shows "\<exists>s'. cel_steps (compileCall L) s s' \<and> st_gos s' i = Returned e (compileCall L e)"
  using working_returns [OF cel_reach_inv [OF assms(1)] cel_reach_finite [OF assms(1)] assms(2)]
  by (simp add: can_return_def)

text \<open>
  C29 (lru_bound). As long as the clock has not wrapped around, the cache holds at most its capacity
  (one entry when the capacity is not positive), one entry for an expression, and inserting into a
  full cache removes exactly one entry, one whose clock no other entry's is below. The hypothesis on
  the library is that the empty string does not compile: the code uses it for "no key found".
\<close>

theorem lru_bound:
  fixes s :: "('x cel_error, 'p) cel_state"
  assumes "cel_reach (compileCall L) capacity clk n s" "uint clk + int n + 1 < 2 ^ 64"
    and "\<And>env. \<exists>err. env_Compile L env [] = Inl err"
  defines "es \<equiv> cc_entries (st_cache s)"
  shows "int (length es) \<le> max 1 capacity \<and> distinct (map fst es) \<and>
    (0 < capacity \<and> int (length es) = capacity \<longrightarrow>
       (\<exists>old \<in> set es. (\<forall>x \<in> set es. fst (snd old) \<le> fst (snd x)) \<and>
          cc_entries (insert_entry e p (st_cache s)) =
            (e, cc_clock (st_cache s) + 1, p) # del_entry (fst old) es))"
proof -
  have "compileCall L [] \<noteq> Inr q" for q
  proof (cases "cel_NewEnv L")
    case (Inr env)
    obtain err where "env_Compile L env [] = Inl err" using assms(3) by blast
    with Inr show ?thesis by (simp add: compileCall_def compile_def)
  qed (simp add: compileCall_def compile_def)
  then have b: "cache_bounded capacity (uint clk + int n) (st_cache s)"
    using reach_bounded [OF assms(1,2)] by (simp add: state_bounded_def)
  have ev: "evictable es" unfolding es_def by (rule bounded_evictable [OF b assms(2)])
  have cap: "cc_capacity (st_cache s) = capacity" using b by (simp add: cache_bounded_def)
  have "cc_entries (insert_entry e p (st_cache s)) = (e, cc_clock (st_cache s) + 1, p) # evict capacity es"
    by (simp add: insert_entry_def evictIfNeeded_def Let_def cap es_def)
  with evict_one [OF ev, of capacity] b show ?thesis by (auto simp: cache_bounded_def es_def)
qed

subsection \<open>Witnesses\<close>

text \<open>A library in which every non-empty expression compiles to itself.\<close>

definition demo_cel :: "(string, unit, string, string, bool, bool) cel_lib" where
  "demo_cel = \<lparr>cel_NewEnv = Inr (),
     env_Compile = (\<lambda>_ e. if e = [] then Inl ''syntax error'' else Inr e),
     env_Program = (\<lambda>_ a. Inr a), prog_Eval = (\<lambda>p v. Inr (v \<and> p = ''ok'')), value_bool = Some\<rparr>"

text \<open>Two goroutines ask for the same expression: one compiles, the other waits.\<close>

definition demo_race :: "int \<Rightarrow> (string cel_error, string) cel_state" where
  "demo_race cap = go_to 1 (Waiting ''ok'' 0) (go_to 0 (Compiling ''ok'' 0) ((go_to 1 (Missed ''ok'')
     (go_to 0 (Missed ''ok'') (go_to 1 (Lookup ''ok'') (go_to 0 (Lookup ''ok'') (cel_init cap 0)))))
      \<lparr>st_inflight := [''ok'' \<mapsto> 0], st_next := 1\<rparr>))"

lemma demo_race_reach: "cel_reach (compileCall demo_cel) cap 0 6 (demo_race cap)"
proof -
  let ?R = "cel_reach (compileCall demo_cel) cap 0"
  let ?s1 = "go_to 0 (Lookup ''ok'') (cel_init cap 0) :: (string cel_error, string) cel_state"
  let ?s2 = "go_to 1 (Lookup ''ok'') ?s1" let ?s3 = "go_to 0 (Missed ''ok'') ?s2"
  let ?s4 = "go_to 1 (Missed ''ok'') ?s3"
  let ?s5 = "go_to 0 (Compiling ''ok'' 0) (?s4\<lparr>st_inflight := [''ok'' \<mapsto> 0], st_next := 1\<rparr>)"
  have "?R (Suc 0) ?s1" by (rule reach_step [OF reach_init step_call]) (simp add: cel_init_def)
  then have "?R (Suc (Suc 0)) ?s2" by (rule reach_step [OF _ step_call]) (simp add: cel_init_def)
  then have "?R (Suc (Suc (Suc 0))) ?s3"
    by (rule reach_step [OF _ step_miss]) (simp_all add: cel_init_def NewCache_def)
  then have "?R (Suc (Suc (Suc (Suc 0)))) ?s4"
    by (rule reach_step [OF _ step_miss]) (simp_all add: cel_init_def NewCache_def)
  moreover have "cel_step (compileCall demo_cel) ?s4 ?s5"
    using step_lead [of ?s4 0 "''ok''" 0 "compileCall demo_cel"]
    by (simp add: cel_init_def no_reader_def reading_def)
  ultimately have "?R (Suc (Suc (Suc (Suc (Suc 0))))) ?s5" by (rule reach_step)
  then have "?R (Suc (Suc (Suc (Suc (Suc (Suc 0)))))) (go_to 1 (Waiting ''ok'' 0) ?s5)"
    by (rule reach_step [OF _ step_join]) (simp_all add: cel_init_def no_reader_def reading_def)
  then show ?thesis by (simp add: demo_race_def eval_nat_numeral)
qed

lemma demo_race_gos:
  "st_gos (demo_race cap) 0 = Compiling ''ok'' 0" "st_gos (demo_race cap) 1 = Waiting ''ok'' 0"
  by (simp_all add: demo_race_def)

theorem single_flight_witness:
  "cel_reach (compileCall demo_cel) 4 0 6 (demo_race 4) \<and> {j. \<exists>c. st_gos (demo_race 4) j = Compiling ''ok'' c} = {0}"
  using single_flight [OF demo_race_reach [of 4]] demo_race_reach [of 4] demo_race_gos(1) [of 4] by blast

lemma demo_ok: "compileCall demo_cel ''ok'' = Inr ''ok''"
  by (simp add: compileCall_def compile_def demo_cel_def)

theorem call_returns_witness:
  "cel_reach (compileCall demo_cel) 4 0 6 (demo_race 4) \<and> working (st_gos (demo_race 4) 1) = Some ''ok'' \<and>
   (\<exists>s'. cel_steps (compileCall demo_cel) (demo_race 4) s' \<and> st_gos s' 1 = Returned ''ok'' (Inr ''ok''))"
proof -
  have w: "working (st_gos (demo_race 4) 1) = Some ''ok''" unfolding demo_race_gos(2) working_def by simp
  from call_returns [OF demo_race_reach [of 4] w] w demo_race_reach [of 4] show ?thesis unfolding demo_ok by blast
qed

lemma demo_full:
  "\<exists>s. cel_reach (compileCall demo_cel) 1 0 8 s \<and> cc_entries (st_cache s) = [(''ok'', 1, ''ok'')]"
proof -
  let ?t = "go_to 0 (Inserting ''ok'' 0)
    ((demo_race 1)\<lparr>st_calls := (st_calls (demo_race 1))(0 \<mapsto> compileCall demo_cel ''ok'')\<rparr>)"
  have t: "cel_reach (compileCall demo_cel) 1 0 (Suc 6) ?t"
    by (rule reach_step [OF demo_race_reach step_compiled [OF demo_race_gos(1)]])
  have cache: "st_cache ?t = NewCache 1 0" by (simp add: demo_race_def cel_init_def)
  have free: "no_reader ?t" by (simp add: no_reader_def demo_race_def cel_init_def reading_def)
  have fin: "finish_compile ''ok'' (Inr ''ok'') (NewCache 1 0)
      = (Inr ''ok'', \<lparr>cc_capacity = 1, cc_entries = [(''ok'', 1, ''ok'')], cc_clock = 1\<rparr>)"
    by (simp add: finish_compile_def NewCache_def insert_entry_def evictIfNeeded_def Let_def evict.simps)
  have "\<exists>s. cel_step (compileCall demo_cel) ?t s \<and> cc_entries (st_cache s) = [(''ok'', 1, ''ok'')]"
    using step_insert [of ?t 0 "''ok''" 0 "Inr ''ok''", OF _ free _ fin [folded cache]] by (force simp: demo_ok)
  then obtain s where "cel_step (compileCall demo_cel) ?t s" "cc_entries (st_cache s) = [(''ok'', 1, ''ok'')]" by blast
  with reach_step [OF t] show ?thesis by (intro exI [of _ s]) (simp add: eval_nat_numeral)
qed

theorem lru_bound_witness:
  "(\<exists>err. env_Compile demo_cel () [] = Inl err) \<and> uint (0 :: u64) + int 8 + 1 < 2 ^ 64 \<and>
   (\<exists>s. cel_reach (compileCall demo_cel) 1 0 8 s \<and> cc_entries (st_cache s) = [(''ok'', 1, ''ok'')] \<and>
     cc_entries (insert_entry ''new'' ''new'' (st_cache s)) = [(''new'', cc_clock (st_cache s) + 1, ''new'')])"
proof -
  have lib: "\<exists>err. env_Compile demo_cel env [] = Inl err" for env by (simp add: demo_cel_def)
  have n: "uint (0 :: u64) + int 8 + 1 < 2 ^ 64" by simp
  obtain s where s: "cel_reach (compileCall demo_cel) 1 0 8 s" "cc_entries (st_cache s) = [(''ok'', 1, ''ok'')]"
    using demo_full by blast
  have "cc_entries (insert_entry ''new'' ''new'' (st_cache s)) = [(''new'', cc_clock (st_cache s) + 1, ''new'')]"
    using lru_bound [OF s(1) n lib, of "''new''" "''new''"] by (simp add: s(2) del_entry_def)
  with s n lib show ?thesis by blast
qed

end
