(* ===== verification/Policy_Resolver.thy ===== *)
theory Policy_Resolver
  imports Annotations Cel_Cache "HOL-Library.Log_Nat"
begin

text \<open>
  The policy resolver, \<^verbatim>\<open>internal/policy/resolver.go\<close>: the cache of \<^verbatim>\<open>SchedulingPolicy\<close> objects, the
  parameters it resolves for a pod, and the record of which pods match which policy. Label selectors,
  the conversion of unstructured objects and CEL are libraries and parameters. A \<^verbatim>\<open>range\<close> over a Go map
  visits the keys in an arbitrary order: an operation that ranges over the policies takes the order.
\<close>

subsection \<open>Doubles\<close>

text \<open>
  \<^verbatim>\<open>float64\<close> values as rationals: every operation rounds its exact result to 53 significant bits, ties
  to even, down to the smallest subnormal exponent. The values here are far below the overflow
  threshold, and no operation the source performs on them gives a NaN.
\<close>

definition round_even :: "rat \<Rightarrow> int" where
  "round_even x =
     (let f = \<lfloor>x\<rfloor>; d = x - of_int f
      in if d < 1 / 2 then f else if 1 / 2 < d then f + 1 else if even f then f else f + 1)"

definition float64 :: "rat \<Rightarrow> rat" where
  "float64 x =
     (let e = bitlen \<lfloor>\<bar>x\<bar> * 2 ^ 1074\<rfloor> - 1074;
          s = max (e - 53) (- 1074)
      in of_int (round_even (x / power_int 2 s)) * power_int 2 s)"

text \<open>Integers of up to 53 bits are exact.\<close>

lemma round_even_int [simp]: "round_even (of_int n) = n"
  by (simp add: round_even_def)

lemma floor_scaled: "\<lfloor>\<bar>of_int n\<bar> * 2 ^ k :: rat\<rfloor> = \<bar>n\<bar> * 2 ^ k"
proof -
  have "\<bar>of_int n\<bar> * 2 ^ k = (of_int (\<bar>n\<bar> * 2 ^ k) :: rat)" by simp
  then show ?thesis by (simp only: floor_of_int)
qed

lemma power_int_neg: "s \<le> 0 \<Longrightarrow> power_int 2 s = (1 :: rat) / 2 ^ nat (- s)"
  by (cases "s = 0") (simp, simp only: power_int_def power_inverse inverse_eq_divide, simp add: power_one_over)

lemma bitlen_scaled: "bitlen \<bar>n\<bar> \<le> 53 \<Longrightarrow> bitlen (\<bar>n\<bar> * 2 ^ k) \<le> 53 + int k"
  by (cases "n = 0") simp_all

text \<open>The exponent range does not matter for integers of up to 53 bits.\<close>

lemma round_scaled:
  fixes k :: nat
  assumes "\<bar>n\<bar> < 2 ^ 53"
  defines "s \<equiv> max (bitlen \<lfloor>\<bar>of_int n\<bar> * 2 ^ k :: rat\<rfloor> - int k - 53) (- int k)"
  shows "of_int (round_even (of_int n / power_int 2 s)) * power_int 2 s = (of_int n :: rat)"
proof -
  have "bitlen \<bar>n\<bar> \<le> 53" using assms(1) by (simp add: bitlen_le_iff_power)
  then have s: "s \<le> 0" unfolding s_def floor_scaled using bitlen_scaled [of n k] by simp
  have d: "of_int n / power_int 2 s = (of_int (n * 2 ^ nat (- s)) :: rat)" by (simp add: power_int_neg [OF s])
  have "round_even (of_int n / power_int 2 s) = n * 2 ^ nat (- s)" by (simp only: d round_even_int)
  then show ?thesis by (simp add: power_int_neg [OF s])
qed

lemma float64_int: "\<bar>n\<bar> < 2 ^ 53 \<Longrightarrow> float64 (of_int n) = of_int n"
  unfolding float64_def Let_def by (rule round_scaled [of n 1074, unfolded of_nat_numeral])

subsection \<open>Policies\<close>

record 'sel policy =
  pol_Name :: string
  pol_ResourceVersion :: string
  pol_Generation :: s64
  PodSelector :: "'sel option"
  Weight :: s32
  BudgetMicroseconds :: s64
  CELCondition :: string

datatype celval = CString string | CInt int | CDouble rat

type_synonym cel_vars = "(string \<times> (string \<times> celval) list) list"

text \<open>
  The libraries: \<^verbatim>\<open>metav1.LabelSelectorAsSelector\<close> (\<open>None\<close> an invalid selector) with \<^verbatim>\<open>Matches\<close>, and CEL.
\<close>

record ('sel, 'x, 'env, 'ast, 'p, 'o) policy_libs =
  LabelSelectorAsSelector :: "'sel \<Rightarrow> (string_map \<Rightarrow> bool) option"
  lib_cel :: "('x, 'env, 'ast, 'p, cel_vars, 'o) cel_lib"

text \<open>
  \<^verbatim>\<open>matchedPods\<close> maps a policy name to a set of pod UIDs, kept as a map to the constant 1: here the list
  of its keys. \<open>rs_errors\<close> is the sequence of calls of the registered error handler.
\<close>

record ('sel, 'x, 'p) resolver =
  rs_policies :: "string \<rightharpoonup> 'sel policy"
  matchedPods :: "string \<rightharpoonup> string list"
  celCache :: "'p cel_cache"
  onPolicyError :: bool
  rs_errors :: "(string \<times> 'x cel_error) list"

definition NewResolver :: "u64 \<Rightarrow> ('sel, 'x, 'p) resolver" where
  "NewResolver clk = \<lparr>rs_policies = Map.empty, matchedPods = Map.empty, celCache = NewCache 256 clk,
     onPolicyError = False, rs_errors = []\<rparr>"

definition SetPolicyErrorHandler :: "('sel, 'x, 'p) resolver \<Rightarrow> ('sel, 'x, 'p) resolver" where
  "SetPolicyErrorHandler r = r\<lparr>onPolicyError := True\<rparr>"

subsection \<open>Policy events\<close>

datatype 'u watch_obj = Unstructured 'u | Tombstone "'u option" | OtherObj

definition unstructuredToPolicy :: "('u \<Rightarrow> 'sel policy option) \<Rightarrow> 'u watch_obj \<Rightarrow> 'sel policy option" where
  "unstructuredToPolicy conv obj =
     (case obj of
        Unstructured u \<Rightarrow> conv u
      | Tombstone (Some u) \<Rightarrow> conv u
      | Tombstone None \<Rightarrow> None
      | OtherObj \<Rightarrow> None)"

definition put_policy :: "'sel policy \<Rightarrow> (string \<rightharpoonup> 'sel policy) \<Rightarrow> (string \<rightharpoonup> 'sel policy)" where
  "put_policy p m =
     (case m (pol_Name p) of
        Some existing \<Rightarrow> (if pol_ResourceVersion existing = pol_ResourceVersion p then m else m(pol_Name p \<mapsto> p))
      | None \<Rightarrow> m(pol_Name p \<mapsto> p))"

definition addPolicy :: "'sel policy \<Rightarrow> ('sel, 'x, 'p) resolver \<Rightarrow> ('sel, 'x, 'p) resolver" where
  "addPolicy p r = r\<lparr>rs_policies := put_policy p (rs_policies r)\<rparr>"

definition removePolicy :: "string \<Rightarrow> ('sel, 'x, 'p) resolver \<Rightarrow> ('sel, 'x, 'p) resolver" where
  "removePolicy name r =
     r\<lparr>rs_policies := (rs_policies r)(name := None), matchedPods := (matchedPods r)(name := None)\<rparr>"

text \<open>The list request of the polling fallback: \<open>None\<close> when it fails.\<close>

definition refreshPolicies :: "'sel policy list option \<Rightarrow> ('sel, 'x, 'p) resolver \<Rightarrow> ('sel, 'x, 'p) resolver" where
  "refreshPolicies result r =
     (case result of
        None \<Rightarrow> r
      | Some items \<Rightarrow>
          (let m = fold put_policy items (rs_policies r); seen = map pol_Name items
           in r\<lparr>rs_policies := (\<lambda>key. if key \<in> set seen then m key else None)\<rparr>))"

datatype ('u, 'sel) policy_event =
    PolicyAdd "'u watch_obj"
  | PolicyUpdate "'u watch_obj"
  | PolicyDelete "'u watch_obj"
  | PolicyPoll "'sel policy list option"

text \<open>The event handlers of \<^verbatim>\<open>Start\<close> and a tick of \<^verbatim>\<open>pollPolicies\<close>.\<close>

definition handlePolicy ::
    "('u \<Rightarrow> 'sel policy option) \<Rightarrow> ('u, 'sel) policy_event \<Rightarrow> ('sel, 'x, 'p) resolver \<Rightarrow> ('sel, 'x, 'p) resolver" where
  "handlePolicy conv ev r =
     (case ev of
        PolicyAdd obj \<Rightarrow> (case unstructuredToPolicy conv obj of None \<Rightarrow> r | Some p \<Rightarrow> addPolicy p r)
      | PolicyUpdate obj \<Rightarrow> (case unstructuredToPolicy conv obj of None \<Rightarrow> r | Some p \<Rightarrow> addPolicy p r)
      | PolicyDelete obj \<Rightarrow>
          (case unstructuredToPolicy conv obj of None \<Rightarrow> r | Some p \<Rightarrow> removePolicy (pol_Name p) r)
      | PolicyPoll result \<Rightarrow> refreshPolicies result r)"

subsection \<open>Matching\<close>

definition qosDefaultWeight :: "string \<Rightarrow> u64" where
  "qosDefaultWeight qos =
     (if qos = ''Guaranteed'' then 1000
      else if qos = ''Burstable'' then 800
      else if qos = ''BestEffort'' then 200
      else 1000)"

definition podSelectorMatches :: "('sel, 'x, 'env, 'ast, 'p, 'o) policy_libs \<Rightarrow> 'sel policy \<Rightarrow> pod \<Rightarrow> bool" where
  "podSelectorMatches L policy pod =
     (case PodSelector policy of
        None \<Rightarrow> True
      | Some sel \<Rightarrow>
          (case LabelSelectorAsSelector L sel of
             None \<Rightarrow> False
           | Some matches \<Rightarrow> matches (pod_labels pod)))"

text \<open>An \<^verbatim>\<open>int64\<close> sum, which wraps.\<close>

definition totalRestarts :: "pod \<Rightarrow> s64" where
  "totalRestarts pod = fold (\<lambda>st n. n + word_of_int (restart_count st)) (pod_statuses pod) 0"

definition aggregatePodCPU :: "pod \<Rightarrow> rat \<times> rat" where
  "aggregatePodCPU pod =
     fold (\<lambda>c (request, limit).
        (float64 (request + float64 (float64 (of_int (cpu_request_milli c)) / 1000)),
         float64 (limit + float64 (float64 (of_int (cpu_limit_milli c)) / 1000))))
      (pod_containers pod) (0, 0)"

definition cel_variables :: "'sel policy \<Rightarrow> pod \<Rightarrow> cel_vars" where
  "cel_variables policy pod =
     (case aggregatePodCPU pod of
        (cpuRequest, cpuLimit) \<Rightarrow>
          [(''signal'',
             [(''podName'', CString (pod_name pod)),
              (''podNamespace'', CString (pod_namespace pod)),
              (''podUID'', CString (pod_uid pod)),
              (''podQOSClass'', CString (pod_qos pod)),
              (''podPriorityClass'', CString (pod_priority_class pod)),
              (''podRestartCount'', CInt (sint (totalRestarts pod))),
              (''podCPURequest'', CDouble cpuRequest),
              (''podCPULimit'', CDouble cpuLimit),
              (''nodeName'', CString (pod_node pod))]),
           (''context'',
             [(''policyName'', CString (pol_Name policy)),
              (''weight'', CDouble (float64 (of_int (sint (Weight policy))))),
              (''budgetUs'', CDouble (float64 (of_int (sint (BudgetMicroseconds policy)))))])])"

definition celConditionPasses ::
    "('sel, 'x, 'env, 'ast, 'p, 'o) policy_libs \<Rightarrow> 'sel policy \<Rightarrow> pod \<Rightarrow> ('sel, 'x, 'p) resolver
     \<Rightarrow> bool \<times> ('sel, 'x, 'p) resolver" where
  "celConditionPasses L policy pod r =
     (if CELCondition policy = [] then (True, r)
      else case Evaluate (lib_cel L) (CELCondition policy) (cel_variables policy pod) (celCache r) of
             (Inl err, cache) \<Rightarrow>
               (let r = r\<lparr>celCache := cache\<rparr>
                in (False, if onPolicyError r then r\<lparr>rs_errors := rs_errors r @ [(pol_Name policy, err)]\<rparr> else r))
           | (Inr ok, cache) \<Rightarrow> (ok, r\<lparr>celCache := cache\<rparr>))"

text \<open>One policy of the loop of \<^verbatim>\<open>getMatchingPolicies\<close>: does it match?\<close>

definition policyMatches ::
    "('sel, 'x, 'env, 'ast, 'p, 'o) policy_libs \<Rightarrow> pod \<Rightarrow> 'sel policy \<Rightarrow> ('sel, 'x, 'p) resolver
     \<Rightarrow> bool \<times> ('sel, 'x, 'p) resolver" where
  "policyMatches L pod policy r =
     (if \<not> podSelectorMatches L policy pod then (False, r) else celConditionPasses L policy pod r)"

fun getMatchingPolicies ::
    "('sel, 'x, 'env, 'ast, 'p, 'o) policy_libs \<Rightarrow> pod \<Rightarrow> 'sel policy list \<Rightarrow> ('sel, 'x, 'p) resolver
     \<Rightarrow> 'sel policy list \<times> ('sel, 'x, 'p) resolver" where
  "getMatchingPolicies L pod [] r = ([], r)"
| "getMatchingPolicies L pod (policy # ps) r =
     (case policyMatches L pod policy r of
        (ok, r) \<Rightarrow>
          (case getMatchingPolicies L pod ps r of
             (matched, r) \<Rightarrow> (if ok then policy # matched else matched, r)))"

subsection \<open>Resolution\<close>

definition forget_pod :: "(string \<rightharpoonup> 'sel policy) \<Rightarrow> string \<Rightarrow> (string \<rightharpoonup> string list) \<Rightarrow> (string \<rightharpoonup> string list)" where
  "forget_pod policies podUID m =
     (\<lambda>name. case m name of
        None \<Rightarrow> None
      | Some pids \<Rightarrow>
          (if policies name = None then None
           else let pids = removeAll podUID pids in if pids = [] then None else Some pids))"

definition record_pod :: "string \<Rightarrow> string \<Rightarrow> (string \<rightharpoonup> string list) \<Rightarrow> (string \<rightharpoonup> string list)" where
  "record_pod podUID name m =
     m(name \<mapsto> List.insert podUID (case m name of None \<Rightarrow> [] | Some pids \<Rightarrow> pids))"

definition trackMatchedPods :: "string list \<Rightarrow> string \<Rightarrow> ('sel, 'x, 'p) resolver \<Rightarrow> ('sel, 'x, 'p) resolver" where
  "trackMatchedPods names podUID r =
     (if podUID = [] then r
      else r\<lparr>matchedPods :=
        fold (record_pod podUID) names (forget_pod (rs_policies r) podUID (matchedPods r))\<rparr>)"

text \<open>The loop over the matching policies, on the policy weight and the budget.\<close>

definition merge_policy :: "'sel policy \<Rightarrow> u64 \<times> u64 \<Rightarrow> u64 \<times> u64" where
  "merge_policy policy acc =
     (case acc of
        (policyWeight, budget) \<Rightarrow>
          ((if 0 < sint (Weight policy) \<and> policyWeight < scast (Weight policy)
            then scast (Weight policy) else policyWeight),
           (if 0 < sint (BudgetMicroseconds policy) \<and> budget < BudgetMicroseconds policy * 1000
            then BudgetMicroseconds policy * 1000 else budget)))"

definition resolve_params :: "pod \<Rightarrow> 'sel policy list \<Rightarrow> sched_params" where
  "resolve_params pod matched =
     (let (policyWeight, budget) = fold merge_policy matched (0, 0);
          weight = (if 0 < policyWeight then policyWeight else qosDefaultWeight (pod_qos pod));
          w = ParseAnnotationWeight (pod_annotations pod);
          b = ParseAnnotationBudget (pod_annotations pod)
      in if pod_annotations pod \<noteq> None
         then \<lparr>sp_weight = (if 0 < w then w else weight), sp_budget_ns = (if 0 < b then b else budget)\<rparr>
         else \<lparr>sp_weight = weight, sp_budget_ns = budget\<rparr>)"

text \<open>\<open>order\<close> is the order in which \<^verbatim>\<open>range r.policies\<close> visits the names.\<close>

definition Resolve ::
    "('sel, 'x, 'env, 'ast, 'p, 'o) policy_libs \<Rightarrow> string list \<Rightarrow> pod \<Rightarrow> ('sel, 'x, 'p) resolver
     \<Rightarrow> sched_params \<times> ('sel, 'x, 'p) resolver" where
  "Resolve L order pod r =
     (case getMatchingPolicies L pod (List.map_filter (rs_policies r) order) r of
        (matched, r) \<Rightarrow>
          (resolve_params pod matched, trackMatchedPods (map pol_Name matched) (pod_uid pod) r))"

definition ActivePodCount :: "string \<Rightarrow> ('sel, 'x, 'p) resolver \<Rightarrow> s32" where
  "ActivePodCount name r =
     (case matchedPods r name of Some pids \<Rightarrow> of_nat (length pids) | None \<Rightarrow> 0)"

definition PolicyNames :: "string list \<Rightarrow> ('sel, 'x, 'p) resolver \<Rightarrow> string list" where
  "PolicyNames order r = filter (\<lambda>name. rs_policies r name \<noteq> None) order"

definition PolicyGeneration :: "string \<Rightarrow> ('sel, 'x, 'p) resolver \<Rightarrow> s64 \<times> bool" where
  "PolicyGeneration name r =
     (case rs_policies r name of None \<Rightarrow> (0, False) | Some p \<Rightarrow> (pol_Generation p, True))"

subsection \<open>Invariant\<close>

definition order_of :: "('sel, 'x, 'p) resolver \<Rightarrow> string list \<Rightarrow> bool" where
  "order_of r order \<longleftrightarrow> distinct order \<and> set order = dom (rs_policies r)"

definition resolver_ok :: "('sel, 'x, 'env, 'ast, 'p, 'o) policy_libs \<Rightarrow> ('sel, 'x, 'p) resolver \<Rightarrow> bool" where
  "resolver_ok L r \<longleftrightarrow>
     finite (dom (rs_policies r)) \<and>
     (\<forall>name p. rs_policies r name = Some p \<longrightarrow> pol_Name p = name) \<and>
     (\<forall>name pids. matchedPods r name = Some pids \<longrightarrow> pids \<noteq> [] \<and> distinct pids) \<and>
     cache_sound (compileCall (lib_cel L)) (celCache r)"

inductive resolver_reach ::
    "('sel, 'x, 'env, 'ast, 'p, 'o) policy_libs \<Rightarrow> ('u \<Rightarrow> 'sel policy option) \<Rightarrow> u64 \<Rightarrow> ('sel, 'x, 'p) resolver \<Rightarrow> bool"
  for L conv clk where
  reach_new: "resolver_reach L conv clk (NewResolver clk)"
| reach_handler: "resolver_reach L conv clk r \<Longrightarrow> resolver_reach L conv clk (SetPolicyErrorHandler r)"
| reach_event: "resolver_reach L conv clk r \<Longrightarrow> resolver_reach L conv clk (handlePolicy conv ev r)"
| reach_resolve: "resolver_reach L conv clk r \<Longrightarrow> order_of r order \<Longrightarrow>
     resolver_reach L conv clk (snd (Resolve L order pod r))"

lemma put_policy_apply:
  "put_policy p m name =
     (if name = pol_Name p \<and> (\<forall>q. m name = Some q \<longrightarrow> pol_ResourceVersion q \<noteq> pol_ResourceVersion p)
      then Some p else m name)"
  by (auto simp: put_policy_def split: option.splits)

lemma put_policy_keyed:
  "(\<forall>name q. m name = Some q \<longrightarrow> pol_Name q = name) \<Longrightarrow> put_policy p m name = Some q \<Longrightarrow> pol_Name q = name"
  by (auto simp: put_policy_apply split: if_splits)

lemma put_policy_finite: "finite (dom m) \<Longrightarrow> finite (dom (put_policy p m))"
  by (auto simp: put_policy_def split: option.splits)

lemma put_policies:
  assumes "finite (dom m)" "\<forall>name q. m name = Some q \<longrightarrow> pol_Name q = name"
  shows "finite (dom (fold put_policy ps m)) \<and> (\<forall>name q. fold put_policy ps m name = Some q \<longrightarrow> pol_Name q = name)"
  using assms
proof (induction ps arbitrary: m)
  case (Cons p ps)
  have "\<forall>name q. put_policy p m name = Some q \<longrightarrow> pol_Name q = name"
    using put_policy_keyed [OF Cons.prems(2)] by blast
  with Cons.IH [of "put_policy p m"] put_policy_finite [OF Cons.prems(1)] show ?case by simp
qed simp

lemma addPolicy_ok: "resolver_ok L r \<Longrightarrow> resolver_ok L (addPolicy p r)"
  using put_policies [of "rs_policies r" "[p]"] by (simp add: resolver_ok_def addPolicy_def)

lemma removePolicy_ok: "resolver_ok L r \<Longrightarrow> resolver_ok L (removePolicy name r)"
  by (simp add: resolver_ok_def removePolicy_def)

lemma refreshPolicies_ok:
  assumes ok: "resolver_ok L r"
  shows "resolver_ok L (refreshPolicies result r)"
proof (cases result)
  case (Some items)
  have "\<forall>name q. fold put_policy items (rs_policies r) name = Some q \<longrightarrow> pol_Name q = name"
    using put_policies [of "rs_policies r" items] ok by (simp add: resolver_ok_def)
  moreover have "finite (dom (\<lambda>key. if key \<in> pol_Name ` set items then fold put_policy items (rs_policies r) key else None))"
    by (rule finite_subset [of _ "pol_Name ` set items"]) (auto split: if_splits)
  ultimately show ?thesis using ok Some
    by (simp add: resolver_ok_def refreshPolicies_def Let_def)
qed (use ok in \<open>simp add: refreshPolicies_def\<close>)

lemma handlePolicy_ok: "resolver_ok L r \<Longrightarrow> resolver_ok L (handlePolicy conv ev r)"
  by (simp add: handlePolicy_def addPolicy_ok removePolicy_ok refreshPolicies_ok
      split: policy_event.splits option.splits)

subsection \<open>Matching is independent of the cache\<close>

definition policy_applies :: "('sel, 'x, 'env, 'ast, 'p, 'o) policy_libs \<Rightarrow> pod \<Rightarrow> 'sel policy \<Rightarrow> bool" where
  "policy_applies L pod policy \<longleftrightarrow> podSelectorMatches L policy pod \<and>
     (CELCondition policy = [] \<or>
      evaluate_direct (lib_cel L) (CELCondition policy) (cel_variables policy pod) = Inr True)"

definition same_tables :: "('sel, 'x, 'p) resolver \<Rightarrow> ('sel, 'x, 'p) resolver \<Rightarrow> bool" where
  "same_tables r r' \<longleftrightarrow> rs_policies r' = rs_policies r \<and> matchedPods r' = matchedPods r"

lemma policyMatches_spec:
  assumes "cache_sound (compileCall (lib_cel L)) (celCache r)" "policyMatches L pod policy r = (ok, r')"
  shows "ok = policy_applies L pod policy \<and> cache_sound (compileCall (lib_cel L)) (celCache r') \<and> same_tables r r'"
proof -
  obtain res cache where ev: "Evaluate (lib_cel L) (CELCondition policy) (cel_variables policy pod) (celCache r) = (res, cache)"
    by fastforce
  from celc.evaluate_pair [OF assms(1) ev] assms ev show ?thesis
    by (auto simp: policyMatches_def celConditionPasses_def policy_applies_def same_tables_def Let_def
        split: if_splits sum.splits)
qed

lemma getMatchingPolicies_spec:
  assumes "cache_sound (compileCall (lib_cel L)) (celCache r)" "getMatchingPolicies L pod ps r = (matched, r')"
  shows "matched = filter (policy_applies L pod) ps \<and> cache_sound (compileCall (lib_cel L)) (celCache r') \<and>
    same_tables r r'"
  using assms
proof (induction ps arbitrary: r matched r')
  case (Cons p ps)
  obtain ok r1 where m: "policyMatches L pod p r = (ok, r1)" by fastforce
  obtain ms r2 where g: "getMatchingPolicies L pod ps r1 = (ms, r2)" by fastforce
  note one = policyMatches_spec [OF Cons.prems(1) m]
  have "ms = filter (policy_applies L pod) ps \<and> cache_sound (compileCall (lib_cel L)) (celCache r2) \<and> same_tables r1 r2"
    using one Cons.IH [OF _ g] by blast
  with one Cons.prems(2) show ?case by (simp add: m g same_tables_def split: if_splits)
qed (simp add: same_tables_def)

subsection \<open>Tracking\<close>

definition pods_of :: "(string \<rightharpoonup> string list) \<Rightarrow> string \<Rightarrow> string set" where
  "pods_of m name = (case m name of None \<Rightarrow> {} | Some pids \<Rightarrow> set pids)"

lemma forget_pod_pods:
  "pods_of (forget_pod policies u m) name = (if policies name = None then {} else pods_of m name - {u})"
proof (cases "m name")
  case (Some pids)
  have "removeAll u pids = [] \<longleftrightarrow> set pids \<subseteq> {u}" by (metis Diff_eq_empty_iff set_empty set_removeAll)
  with Some show ?thesis by (auto simp: pods_of_def forget_pod_def Let_def)
qed (simp add: pods_of_def forget_pod_def)

lemma record_pods:
  "pods_of (fold (record_pod u) names m) name = pods_of m name \<union> (if name \<in> set names then {u} else {})"
  by (induction names arbitrary: m) (auto simp: pods_of_def record_pod_def split: option.splits)

definition tracked_ok :: "(string \<rightharpoonup> string list) \<Rightarrow> bool" where
  "tracked_ok m \<longleftrightarrow> (\<forall>name pids. m name = Some pids \<longrightarrow> pids \<noteq> [] \<and> distinct pids)"

lemma forget_pod_ok: "tracked_ok m \<Longrightarrow> tracked_ok (forget_pod policies u m)"
  unfolding tracked_ok_def forget_pod_def Let_def by (auto simp: distinct_removeAll split: option.splits if_splits)

lemma record_pod_ok: "tracked_ok m \<Longrightarrow> tracked_ok (fold (record_pod u) names m)"
proof (induction names arbitrary: m)
  case (Cons n names)
  have "tracked_ok (record_pod u n m)"
    using Cons.prems unfolding tracked_ok_def record_pod_def
    by (auto simp: List.insert_def split: option.splits if_splits)
  then show ?case using Cons.IH by simp
qed simp

lemma Resolve_spec:
  assumes ok: "resolver_ok L r" and order: "order_of r order" and res: "Resolve L order pod r = (sp, r')"
  defines "ps \<equiv> filter (policy_applies L pod) (List.map_filter (rs_policies r) order)"
  shows "sp = resolve_params pod ps \<and> rs_policies r' = rs_policies r \<and>
    cache_sound (compileCall (lib_cel L)) (celCache r') \<and>
    matchedPods r' = (if pod_uid pod = [] then matchedPods r
      else fold (record_pod (pod_uid pod)) (map pol_Name ps) (forget_pod (rs_policies r) (pod_uid pod) (matchedPods r)))"
proof -
  obtain matched r1 where g: "getMatchingPolicies L pod (List.map_filter (rs_policies r) order) r = (matched, r1)"
    by fastforce
  from getMatchingPolicies_spec [OF _ g] ok
  have "matched = ps" "cache_sound (compileCall (lib_cel L)) (celCache r1)" "same_tables r r1"
    by (simp_all add: resolver_ok_def ps_def)
  with res show ?thesis by (auto simp: Resolve_def g trackMatchedPods_def same_tables_def)
qed

lemma Resolve_ok:
  assumes "resolver_ok L r" "order_of r order"
  shows "resolver_ok L (snd (Resolve L order pod r))"
proof -
  obtain sp r' where res: "Resolve L order pod r = (sp, r')" by fastforce
  have t: "tracked_ok (matchedPods r)" using assms(1) by (simp add: resolver_ok_def tracked_ok_def)
  have "tracked_ok (matchedPods r')"
    using Resolve_spec [OF assms res] t by (simp add: record_pod_ok forget_pod_ok del: fold_map)
  then show ?thesis
    using Resolve_spec [OF assms res] assms(1) by (simp add: res resolver_ok_def tracked_ok_def)
qed

lemma NewResolver_ok: "resolver_ok L (NewResolver clk)"
  by (simp add: resolver_ok_def NewResolver_def new_sound)

lemma resolver_reach_ok: "resolver_reach L conv clk r \<Longrightarrow> resolver_ok L r"
  by (induction rule: resolver_reach.induct)
    (simp_all add: NewResolver_ok handlePolicy_ok Resolve_ok, simp add: SetPolicyErrorHandler_def resolver_ok_def)

subsection \<open>What a pod gets\<close>

text \<open>The policies that apply to a pod, and what they ask for: nothing counts as 0.\<close>

definition applying :: "('sel, 'x, 'env, 'ast, 'p, 'o) policy_libs \<Rightarrow> pod \<Rightarrow> ('sel, 'x, 'p) resolver \<Rightarrow> 'sel policy set" where
  "applying L pod r = {p. p \<in> ran (rs_policies r) \<and> policy_applies L pod p}"

definition asked_weight :: "'sel policy \<Rightarrow> int" where
  "asked_weight p = max 0 (sint (Weight p))"

definition asked_budget :: "'sel policy \<Rightarrow> int" where
  "asked_budget p = (if 0 < sint (BudgetMicroseconds p) then sint (BudgetMicroseconds p) * 1000 mod 2 ^ 64 else 0)"

lemma set_map_filter: "set (List.map_filter f xs) = {y. \<exists>x \<in> set xs. f x = Some y}"
  by (induction xs) (auto simp: List.map_filter_simps split: option.splits)

lemma order_policies:
  assumes "order_of r order"
  shows "set (List.map_filter (rs_policies r) order) = ran (rs_policies r)"
  using assms by (auto simp: order_of_def set_map_filter ran_def)

lemma scast_pos:
  assumes "0 < sint (w :: s32)"
  shows "uint (scast w :: u64) = sint w"
proof -
  have "sint w < 2 ^ 31" using sint_lt [of w] by simp
  moreover have "(scast w :: u64) = word_of_int (sint w)" by (rule scast_eq)
  ultimately show ?thesis using assms by (simp only: uint_word_of_int) simp
qed

lemma sint_pos:
  assumes "0 < sint (w :: s64)"
  shows "sint w = uint w"
proof -
  have "sint w < 2 ^ 63" using sint_lt [of w] by simp
  with assms show ?thesis by (simp add: uint_sint take_bit_eq_mod)
qed

lemma Max_insert_max: "finite A \<Longrightarrow> Max (insert (max a b) A) = Max (insert a (insert b A))" for a b :: int
  by (cases "A = {}") (simp_all add: max.assoc)

lemma budget_ns:
  "0 < sint (BudgetMicroseconds p) \<Longrightarrow>
   uint (BudgetMicroseconds p * 1000) = sint (BudgetMicroseconds p) * 1000 mod 2 ^ 64"
  using sint_pos [of "BudgetMicroseconds p"] by (simp only: uint_word_ariths) simp

lemma merge_weight: "uint (fst (merge_policy p (w, b))) = max (uint w) (asked_weight p)"
proof (cases "0 < sint (Weight p)")
  case True
  then have "w < scast (Weight p) \<longleftrightarrow> uint w < sint (Weight p)"
    by (simp only: word_less_alt scast_pos)
  with True scast_pos [OF True] show ?thesis by (simp add: merge_policy_def asked_weight_def)
qed (simp add: merge_policy_def asked_weight_def)

lemma merge_budget: "uint (snd (merge_policy p (w, b))) = max (uint b) (asked_budget p)"
proof (cases "0 < sint (BudgetMicroseconds p)")
  case True
  have "b < BudgetMicroseconds p * 1000 \<longleftrightarrow> uint b < asked_budget p"
    using True by (simp only: word_less_alt budget_ns asked_budget_def if_True)
  moreover have "uint (BudgetMicroseconds p * 1000) = asked_budget p"
    using True by (simp only: budget_ns asked_budget_def if_True)
  ultimately show ?thesis using True by (auto simp: merge_policy_def)
qed (simp add: merge_policy_def asked_budget_def)

lemma merge_fold:
  "uint (fst (fold merge_policy ps acc)) = Max (insert (uint (fst acc)) (asked_weight ` set ps))"
  "uint (snd (fold merge_policy ps acc)) = Max (insert (uint (snd acc)) (asked_budget ` set ps))"
  by (induction ps arbitrary: acc)
    (simp_all add: merge_weight [of _ "fst a" "snd a" for a, simplified] merge_budget [of _ "fst a" "snd a" for a, simplified]
      Max_insert_max insert_commute)

text \<open>
  The rule of the comment on \<^verbatim>\<open>Resolve\<close>: an annotation wins; else the largest value a policy asks for; else the default of the
  QoS class, 1000, 800 or 200 (1000 when the class is not known).
\<close>

definition resolve_spec :: "('sel, 'x, 'env, 'ast, 'p, 'o) policy_libs \<Rightarrow> pod \<Rightarrow> ('sel, 'x, 'p) resolver \<Rightarrow> int \<times> int" where
  "resolve_spec L pod r =
     (let w = uint (ParseAnnotationWeight (pod_annotations pod));
          b = uint (ParseAnnotationBudget (pod_annotations pod));
          pw = Max (insert 0 (asked_weight ` applying L pod r));
          pb = Max (insert 0 (asked_budget ` applying L pod r))
      in (if 0 < w then w else if 0 < pw then pw else uint (qosDefaultWeight (pod_qos pod)),
          if 0 < b then b else pb))"

lemma applying_order:
  "order_of r order \<Longrightarrow>
   set (filter (policy_applies L pod) (List.map_filter (rs_policies r) order)) = applying L pod r"
  by (auto simp: applying_def order_policies)

lemma uint_pos: "(0 :: u64) < w \<longleftrightarrow> 0 < uint w"
  by (simp add: word_less_alt)

lemma no_annotations: "ParseAnnotationWeight None = 0" "ParseAnnotationBudget None = 0"
  by (simp_all add: ParseAnnotationWeight_def ParseAnnotationBudget_def)

lemma resolve_params_spec:
  assumes "set ps = applying L pod r"
  shows "(uint (sp_weight (resolve_params pod ps)), uint (sp_budget_ns (resolve_params pod ps))) = resolve_spec L pod r"
  using merge_fold [of ps "(0, 0)"] assms
  by (cases "pod_annotations pod = None")
    (simp_all add: resolve_params_def resolve_spec_def Let_def case_prod_unfold uint_pos no_annotations)

lemma Resolve_params_spec:
  assumes "resolver_ok L r" "order_of r order"
  shows "(uint (sp_weight (fst (Resolve L order pod r))), uint (sp_budget_ns (fst (Resolve L order pod r)))) =
    resolve_spec L pod r"
proof -
  obtain sp' r' where res: "Resolve L order pod r = (sp', r')" by fastforce
  have "sp' = resolve_params pod (filter (policy_applies L pod) (List.map_filter (rs_policies r) order))"
    using Resolve_spec [OF assms res] by blast
  then show ?thesis using resolve_params_spec [OF applying_order [OF assms(2)]] by (simp add: res)
qed

text \<open>
  C10 (resolve_merges). Whatever events the resolver has handled and in whatever order the policies
  are visited, \<^verbatim>\<open>Resolve\<close> gives the pod the parameters of the rule in the comment on it and in the README's
  paragraph on QoS classes: an annotation wins, else the largest weight and budget of the policies whose selector and CEL condition
  accept the pod, else the weight of its QoS class, 1000, 800 or 200 (the API types, the CRD and the README's table say 1000 for
  every pod). The cache of compiled conditions has no influence.
\<close>

theorem resolve_merges:
  fixes pod :: pod
  assumes "resolver_reach L conv clk r" "order_of r order"
  defines "sp \<equiv> fst (Resolve L order pod r)"
  shows "(uint (sp_weight sp), uint (sp_budget_ns sp)) = resolve_spec L pod r"
  unfolding sp_def by (rule Resolve_params_spec [OF resolver_reach_ok [OF assms(1)] assms(2)])

lemma Resolve_pods:
  assumes ok: "resolver_ok L r" and order: "order_of r order" and uid: "pod_uid pod \<noteq> []"
  shows "pods_of (matchedPods (snd (Resolve L order pod r))) name =
    (case rs_policies r name of
       None \<Rightarrow> {}
     | Some p \<Rightarrow> pods_of (matchedPods r) name - {pod_uid pod} \<union>
         (if policy_applies L pod p then {pod_uid pod} else {}))"
proof -
  obtain sp r' where res: "Resolve L order pod r = (sp, r')" by fastforce
  have "name \<in> pol_Name ` applying L pod r \<longleftrightarrow> (\<exists>p. rs_policies r name = Some p \<and> policy_applies L pod p)"
    using ok by (auto simp: applying_def ran_def resolver_ok_def image_iff)
  with Resolve_spec [OF ok order res] uid show ?thesis
    using applying_order [OF order, of L pod]
    by (auto simp: res record_pods forget_pod_pods simp del: fold_map split: option.splits)
qed

lemma ActivePodCount_card:
  "resolver_ok L r \<Longrightarrow> ActivePodCount name r = of_nat (card (pods_of (matchedPods r) name))"
  by (auto simp: ActivePodCount_def pods_of_def resolver_ok_def distinct_card split: option.splits)

text \<open>
  C28 (matched_exact). After \<^verbatim>\<open>Resolve\<close> the pod is recorded under exactly the cached policies that apply
  to it, every other pod keeps its place under the cached policies, policies no longer cached have
  no pods, and \<^verbatim>\<open>ActivePodCount\<close> is the number of pods recorded.
\<close>

theorem matched_exact:
  assumes "resolver_reach L conv clk r" "order_of r order" "pod_uid pod \<noteq> []"
  defines "r' \<equiv> snd (Resolve L order pod r)"
  shows "pods_of (matchedPods r') name =
      (case rs_policies r name of
         None \<Rightarrow> {}
       | Some p \<Rightarrow> pods_of (matchedPods r) name - {pod_uid pod} \<union>
           (if policy_applies L pod p then {pod_uid pod} else {})) \<and>
    ActivePodCount name r' = of_nat (card (pods_of (matchedPods r') name))"
  unfolding r'_def using resolver_reach_ok [OF assms(1)] assms(2,3)
  by (simp add: Resolve_pods ActivePodCount_card [OF Resolve_ok])

text \<open>
  \<^verbatim>\<open>Resolve\<close> releases the lock between matching and recording. If policy events are handled in between,
  the pod is recorded under all policies it matched before, also under one removed since; such a
  record goes away with the next pod that is resolved.
\<close>

lemma late_track:
  assumes "uid \<noteq> []"
  shows "pods_of (matchedPods (trackMatchedPods names uid r)) name =
    (if rs_policies r name = None then {} else pods_of (matchedPods r) name - {uid}) \<union>
    (if name \<in> set names then {uid} else {})"
  using assms by (simp add: trackMatchedPods_def record_pods forget_pod_pods)

lemma late_track_swept:
  assumes "resolver_ok L r" "order_of r order" "pod_uid pod \<noteq> []" "rs_policies r name = None"
  shows "pods_of (matchedPods (snd (Resolve L order pod r))) name = {}"
  using Resolve_pods [OF assms(1-3), of name] assms(4) by simp

lemma fold_put:
  "distinct (map pol_Name items) \<Longrightarrow>
   fold put_policy items m name =
     (case map_of (map (\<lambda>p. (pol_Name p, p)) items) name of None \<Rightarrow> m name | Some p \<Rightarrow> put_policy p m name)"
proof (induction items arbitrary: m)
  case (Cons p items)
  then have "map_of (map (\<lambda>p. (pol_Name p, p)) items) (pol_Name p) = None"
    by (auto simp: map_of_eq_None_iff)
  with Cons show ?case
    by (cases "name = pol_Name p") (simp_all add: put_policy_apply split: option.splits)
qed simp

text \<open>
  A successful poll leaves exactly the policies the server lists, provided two
  versions of an object with equal resource versions are equal; a failed poll changes nothing.
\<close>

theorem refresh_exact:
  assumes "distinct (map pol_Name items)"
    and "\<And>p q. p \<in> set items \<Longrightarrow> rs_policies r (pol_Name p) = Some q \<Longrightarrow>
           pol_ResourceVersion q = pol_ResourceVersion p \<Longrightarrow> q = p"
  shows "rs_policies (refreshPolicies (Some items) r) = map_of (map (\<lambda>p. (pol_Name p, p)) items) \<and>
    refreshPolicies None r = r"
proof (intro conjI ext)
  fix name
  show "rs_policies (refreshPolicies (Some items) r) name = map_of (map (\<lambda>p. (pol_Name p, p)) items) name"
  proof (cases "map_of (map (\<lambda>p. (pol_Name p, p)) items) name")
    case None
    then have "name \<notin> pol_Name ` set items" by (simp add: map_of_eq_None_iff image_image)
    with None show ?thesis by (simp add: refreshPolicies_def Let_def)
  next
    case (Some p)
    then have p: "p \<in> set items" "pol_Name p = name" by (auto dest!: map_of_SomeD)
    have "put_policy p (rs_policies r) name = Some p"
      using assms(2) [OF p(1)] p(2) by (auto simp: put_policy_apply)
    with Some p show ?thesis by (auto simp: refreshPolicies_def Let_def fold_put [OF assms(1)])
  qed
qed (simp add: refreshPolicies_def)

subsection \<open>Bounds\<close>

text \<open>What the CRD schema admits: weights from 1 to 10000, or none.\<close>

definition policies_valid :: "('sel, 'x, 'p) resolver \<Rightarrow> bool" where
  "policies_valid r \<longleftrightarrow>
     (\<forall>p \<in> ran (rs_policies r). 0 \<le> sint (Weight p) \<and> sint (Weight p) \<le> 10000)"

lemma resolve_spec_weight:
  assumes "resolver_ok L r" "policies_valid r"
  shows "1 \<le> fst (resolve_spec L pod r) \<and> fst (resolve_spec L pod r) \<le> 10000"
proof -
  let ?A = "asked_weight ` applying L pod r"
  have fin: "finite ?A"
    using assms(1) finite_ran [of "rs_policies r"] by (simp add: resolver_ok_def applying_def)
  have "Max (insert 0 ?A) \<le> 10000"
    using fin assms(2) by (auto simp: policies_valid_def asked_weight_def applying_def)
  moreover have "1 \<le> uint (qosDefaultWeight q) \<and> uint (qosDefaultWeight q) \<le> 10000" for q
    by (simp add: qosDefaultWeight_def)
  ultimately show ?thesis
    using annotation_weight_range [of "pod_annotations pod"] by (auto simp: resolve_spec_def Let_def)
qed

subsection \<open>Witnesses\<close>

definition demo_libs :: "(string \<times> string, string, unit, string, string, bool) policy_libs" where
  "demo_libs = \<lparr>LabelSelectorAsSelector = (\<lambda>(k, v). Some (\<lambda>ls. go_get ls k = v)),
     lib_cel = \<lparr>cel_NewEnv = Inr (),
       env_Compile = (\<lambda>_ e. if e = [] then Inl ''syntax error'' else Inr e),
       env_Program = (\<lambda>_ a. Inr a), prog_Eval = (\<lambda>p v. Inr (p = ''true'')), value_bool = Some\<rparr>\<rparr>"

definition demo_policy :: "string \<Rightarrow> s32 \<Rightarrow> string \<Rightarrow> (string \<times> string) policy" where
  "demo_policy name w cel = \<lparr>pol_Name = name, pol_ResourceVersion = ''1'', pol_Generation = 1,
     PodSelector = Some (''app'', ''web''), Weight = w, BudgetMicroseconds = 2000, CELCondition = cel\<rparr>"

definition web_pod :: pod where
  "web_pod = \<lparr>pod_uid = ''u1'', pod_name = ''web-0'', pod_namespace = ''shop'',
     pod_labels = Some [''app'' \<mapsto> ''web''], pod_annotations = None, pod_node = ''n1'',
     pod_priority_class = [], pod_containers = [], pod_phase = ''Running'', pod_qos = ''Burstable'',
     pod_statuses = []\<rparr>"

definition demo_resolver :: "(string \<times> string, string, string) resolver" where
  "demo_resolver = addPolicy (demo_policy ''b'' 3000 ''true'') (addPolicy (demo_policy ''a'' 200 [])
     (NewResolver 0))"

lemma demo_policies:
  "rs_policies demo_resolver = [''a'' \<mapsto> demo_policy ''a'' 200 [], ''b'' \<mapsto> demo_policy ''b'' 3000 ''true'']"
  by (auto simp: demo_resolver_def addPolicy_def NewResolver_def put_policy_def demo_policy_def)

lemma demo_resolver_reach: "resolver_reach demo_libs Some 0 demo_resolver"
proof -
  have "demo_resolver = handlePolicy Some (PolicyAdd (Unstructured (demo_policy ''b'' 3000 ''true'')))
      (handlePolicy Some (PolicyAdd (Unstructured (demo_policy ''a'' 200 []))) (NewResolver 0))"
    by (simp add: demo_resolver_def handlePolicy_def unstructuredToPolicy_def)
  then show ?thesis by (metis reach_new reach_event)
qed

lemma demo_order: "order_of demo_resolver [''b'', ''a'']"
  by (simp add: order_of_def demo_policies)

lemma demo_applies: "policy_applies demo_libs web_pod (demo_policy n w []) \<and>
    policy_applies demo_libs web_pod (demo_policy n w ''true'')"
  by (simp add: policy_applies_def podSelectorMatches_def demo_policy_def demo_libs_def web_pod_def
      go_get_def evaluate_direct_def compileCall_def compile_def runProgram_def)

lemma demo_applying:
  "applying demo_libs web_pod demo_resolver = {demo_policy ''a'' 200 [], demo_policy ''b'' 3000 ''true''}"
  by (auto simp: applying_def demo_policies demo_applies)

lemma demo_asked:
  "asked_weight (demo_policy n w e) = max 0 (sint w)" "asked_budget (demo_policy n w e) = 2000000"
  "pod_annotations web_pod = None"
  by (simp_all add: asked_weight_def asked_budget_def demo_policy_def web_pod_def)

theorem resolve_merges_witness:
  "resolver_reach demo_libs Some 0 demo_resolver \<and> order_of demo_resolver [''b'', ''a''] \<and>
   uint (sp_weight (fst (Resolve demo_libs [''b'', ''a''] web_pod demo_resolver))) = 3000 \<and>
   uint (sp_budget_ns (fst (Resolve demo_libs [''b'', ''a''] web_pod demo_resolver))) = 2000000"
proof -
  have "resolve_spec demo_libs web_pod demo_resolver = (3000, 2000000)"
    by (simp add: resolve_spec_def demo_applying demo_asked no_annotations Let_def)
  with resolve_merges [OF demo_resolver_reach demo_order, of web_pod] demo_resolver_reach demo_order
  show ?thesis by simp
qed

theorem matched_exact_witness:
  "resolver_reach demo_libs Some 0 demo_resolver \<and> order_of demo_resolver [''b'', ''a''] \<and> pod_uid web_pod \<noteq> [] \<and>
   pods_of (matchedPods (snd (Resolve demo_libs [''b'', ''a''] web_pod demo_resolver))) ''a'' = {''u1''} \<and>
   ActivePodCount ''a'' (snd (Resolve demo_libs [''b'', ''a''] web_pod demo_resolver)) = 1"
proof -
  have uid: "pod_uid web_pod \<noteq> []" "pod_uid web_pod = ''u1''" by (simp_all add: web_pod_def)
  have "pods_of (matchedPods demo_resolver) ''a'' = {}"
    by (simp add: pods_of_def demo_resolver_def addPolicy_def NewResolver_def)
  then show ?thesis
    using matched_exact [OF demo_resolver_reach demo_order uid(1), of "''a''"] demo_resolver_reach demo_order uid
    by (simp add: demo_policies demo_applies)
qed

theorem refresh_exact_witness:
  "rs_policies (refreshPolicies (Some [demo_policy ''b'' 3000 ''true'', demo_policy ''c'' 50 []]) demo_resolver) =
     [''b'' \<mapsto> demo_policy ''b'' 3000 ''true'', ''c'' \<mapsto> demo_policy ''c'' 50 []]"
proof -
  let ?items = "[demo_policy ''b'' 3000 ''true'', demo_policy ''c'' 50 []]"
  have names: "pol_Name (demo_policy n w e) = n" for n w e by (simp add: demo_policy_def)
  have "distinct (map pol_Name ?items)" by (simp add: names)
  moreover have "q = p" if "p \<in> set ?items" "rs_policies demo_resolver (pol_Name p) = Some q"
      "pol_ResourceVersion q = pol_ResourceVersion p" for p q
    using that by (auto simp: demo_policies names)
  ultimately show ?thesis using refresh_exact [of ?items demo_resolver] by (auto simp: names fun_upd_twist)
qed

end
