(* ===== verification/Agent.thy ===== *)
theory Agent
  imports Policy_Resolver Pod_Maps
begin

text \<open>
  The agent around the maps and the resolver: the pod watcher (\<^verbatim>\<open>internal/k8s/watcher.go\<close>), the pod
  callbacks, the statistics exporter, the policy status write-back and the HTTP handlers
  (\<^verbatim>\<open>internal/sched/agent.go\<close>). Informers, the event recorder, Prometheus and the API server are libraries:
  what they deliver is the input of a handler, what they are given is recorded in the state.
\<close>

subsection \<open>Pod watcher\<close>

definition containerIDs :: "pod \<Rightarrow> string list" where
  "containerIDs pod = map container_id (pod_statuses pod)"

definition podRelevantFieldsChanged :: "pod \<Rightarrow> pod \<Rightarrow> bool" where
  "podRelevantFieldsChanged oldPod newPod =
     (if pod_phase oldPod \<noteq> pod_phase newPod then True
      else if pod_labels oldPod \<noteq> pod_labels newPod then True
      else if pod_annotations oldPod \<noteq> pod_annotations newPod then True
      else containerIDs oldPod \<noteq> containerIDs newPod)"

text \<open>The callback an event leads to; the agent sets both.\<close>

datatype callback = OnAdd pod | OnDelete pod

definition handlePodUpdate :: "pod \<Rightarrow> callback option" where
  "handlePodUpdate pod =
     (if pod_phase pod = ''Running'' then Some (OnAdd pod)
      else if pod_phase pod = ''Succeeded'' \<or> pod_phase pod = ''Failed'' then Some (OnDelete pod)
      else None)"

datatype pod_obj = PodObj pod | PodTombstone "pod option" | NotAPod

datatype pod_event = PodAdded pod_obj | PodUpdated pod_obj pod_obj | PodDeleted pod_obj

definition watch_event :: "pod_event \<Rightarrow> callback option" where
  "watch_event ev =
     (case ev of
        PodAdded (PodObj pod) \<Rightarrow> handlePodUpdate pod
      | PodUpdated (PodObj oldPod) (PodObj pod) \<Rightarrow>
          (if podRelevantFieldsChanged oldPod pod then handlePodUpdate pod else None)
      | PodDeleted (PodObj pod) \<Rightarrow> Some (OnDelete pod)
      | PodDeleted (PodTombstone (Some pod)) \<Rightarrow> Some (OnDelete pod)
      | _ \<Rightarrow> None)"

subsection \<open>Pod callbacks\<close>

datatype 'x agent_event = PodResolveError string map_error | PolicyCelError string "'x cel_error"

record ('sel, 'x, 'p) agent =
  mapOps :: agent_maps
  ag_resolver :: "('sel, 'x, 'p) resolver"
  ag_recorder :: bool    \<comment> \<open>an event recorder is present\<close>
  ag_events :: "'x agent_event list"
  ActivePolicies :: nat
  ParamsMapped :: nat

text \<open>What one callback finds around it: map operations, node, time, iteration order of the policies.\<close>

record surroundings =
  cx_cgio :: "u64 map_io"
  cx_pidio :: "u32 map_io"
  cx_env :: node_env
  cx_time :: int
  cx_order :: "string list"

definition emitEvent :: "'x agent_event \<Rightarrow> ('sel, 'x, 'p) agent \<Rightarrow> ('sel, 'x, 'p) agent" where
  "emitEvent ev a = (if ag_recorder a then a\<lparr>ag_events := ag_events a @ [ev]\<rparr> else a)"

text \<open>
  Resolving may call the policy error handler the agent has registered, which emits an event.
\<close>

definition resolve_pod ::
    "('sel, 'x, 'env, 'ast, 'p, 'o) policy_libs \<Rightarrow> string list \<Rightarrow> pod \<Rightarrow> ('sel, 'x, 'p) agent
     \<Rightarrow> sched_params \<times> ('sel, 'x, 'p) agent" where
  "resolve_pod L order pod a =
     (case Resolve L order pod (ag_resolver a) of
        (sp, r) \<Rightarrow>
          (sp, fold (\<lambda>(name, err). emitEvent (PolicyCelError name err))
                 (drop (length (rs_errors (ag_resolver a))) (rs_errors r)) (a\<lparr>ag_resolver := r\<rparr>)))"

definition onPodUpdate ::
    "('sel, 'x, 'env, 'ast, 'p, 'o) policy_libs \<Rightarrow> surroundings \<Rightarrow> pod \<Rightarrow> ('sel, 'x, 'p) agent
     \<Rightarrow> ('sel, 'x, 'p) agent" where
  "onPodUpdate L cx pod a =
     (let (sp, a) = resolve_pod L (cx_order cx) pod a;
          (err, s) = UpdatePodParams (cx_cgio cx) (cx_pidio cx) (cx_env cx) (cx_time cx) (Some pod) [sp] (mapOps a);
          a = a\<lparr>mapOps := s\<rparr>;
          a = (case err of None \<Rightarrow> a | Some e \<Rightarrow> emitEvent (PodResolveError (pod_uid pod) e) a)
      in a\<lparr>ActivePolicies := length (PolicyNames (cx_order cx) (ag_resolver a)),
           ParamsMapped := TrackedPods (mapOps a)\<rparr>)"

definition onPodDelete :: "surroundings \<Rightarrow> pod \<Rightarrow> ('sel, 'x, 'p) agent \<Rightarrow> ('sel, 'x, 'p) agent" where
  "onPodDelete cx pod a =
     (let a = a\<lparr>mapOps := RemovePodParams (cx_cgio cx) (cx_pidio cx) (cx_env cx) (cx_time cx) (Some pod) (mapOps a)\<rparr>
      in a\<lparr>ParamsMapped := TrackedPods (mapOps a)\<rparr>)"

definition handle_pod_event ::
    "('sel, 'x, 'env, 'ast, 'p, 'o) policy_libs \<Rightarrow> surroundings \<Rightarrow> pod_event \<Rightarrow> ('sel, 'x, 'p) agent
     \<Rightarrow> ('sel, 'x, 'p) agent" where
  "handle_pod_event L cx ev a =
     (case watch_event ev of
        None \<Rightarrow> a
      | Some (OnAdd pod) \<Rightarrow> onPodUpdate L cx pod a
      | Some (OnDelete pod) \<Rightarrow> onPodDelete cx pod a)"

text \<open>One tick of \<^verbatim>\<open>periodicPIDCleanup\<close>.\<close>

definition pid_cleanup_tick :: "surroundings \<Rightarrow> ('sel, 'x, 'p) agent \<Rightarrow> ('sel, 'x, 'p) agent" where
  "pid_cleanup_tick cx a =
     a\<lparr>mapOps := snd (CleanStaleCgroupIDs (cx_cgio cx) (cx_env cx) (cleanStalePIDs (cx_pidio cx) (cx_env cx) (mapOps a)))\<rparr>"

subsection \<open>HTTP handlers\<close>

datatype http_response = HttpText nat string | HttpError nat | HttpDump "(u64 \<rightharpoonup> task_params) \<times> (u32 \<rightharpoonup> task_params)"
  | HttpPods "string \<rightharpoonup> pod_detail"

text \<open>
  Requests to the health and debug paths, given the readiness flag, the maps and whether iterating
  them fails; \<open>None\<close> for the paths other handlers serve.
\<close>

definition serve :: "string \<Rightarrow> bool \<Rightarrow> bool \<Rightarrow> bool \<Rightarrow> agent_maps option \<Rightarrow> http_response option" where
  "serve path ready cgErr pidErr maps =
     (if path = ''/healthz'' then Some (HttpText 200 ''ok'')
      else if path = ''/readyz'' then
        Some (if ready then HttpText 200 ''ready'' else HttpText 503 ''not ready'')
      else if path = ''/debug/params'' then
        Some (case maps of
                None \<Rightarrow> HttpText 503 ''maps not open''
              | Some s \<Rightarrow> (case DumpParams cgErr pidErr s of
                              None \<Rightarrow> HttpError 500 | Some dump \<Rightarrow> HttpDump dump))
      else if path = ''/debug/pods'' then
        Some (case maps of None \<Rightarrow> HttpText 503 ''maps not open'' | Some s \<Rightarrow> HttpPods (PodDetails s))
      else None)"

subsection \<open>Statistics export\<close>

record exported =
  EnqueueCount :: rat
  BudgetCapped :: rat
  LocalDispatches :: rat

text \<open>A counter is given a \<^verbatim>\<open>float64\<close> to add.\<close>

definition counter_add :: "u64 \<Rightarrow> u64 \<Rightarrow> rat \<Rightarrow> rat" where
  "counter_add now prev c = (if prev \<le> now then c + float64 (of_int (uint (now - prev))) else c)"

text \<open>One tick of \<^verbatim>\<open>periodicStatsExport\<close>, on the last statistics read and the counters.\<close>

definition export_tick :: "agent_maps \<Rightarrow> sched_stats \<times> exported \<Rightarrow> sched_stats \<times> exported" where
  "export_tick s st =
     (case st of (prev, m) \<Rightarrow>
        (case ReadStats s of
           None \<Rightarrow> (prev, m)
         | Some now \<Rightarrow>
             (now, m\<lparr>EnqueueCount := counter_add (enqueues now) (enqueues prev) (EnqueueCount m),
                     BudgetCapped := counter_add (budget_capped now) (budget_capped prev) (BudgetCapped m),
                     LocalDispatches := counter_add (local_dispatches now) (local_dispatches prev) (LocalDispatches m)\<rparr>)))"

definition export_start :: "sched_stats \<times> exported" where
  "export_start = (zero_stats, \<lparr>EnqueueCount = 0, BudgetCapped = 0, LocalDispatches = 0\<rparr>)"

subsection \<open>Policy status write-back\<close>

datatype json = JNull | JNum int | JString string | JObject "(string \<times> json) list"

definition buildStatusPatch :: "string \<Rightarrow> (string \<times> s32) list \<Rightarrow> json" where
  "buildStatusPatch nodeName policyCounts =
     JObject [(''status'', JObject [(''nodeStatuses'', JObject [(nodeName,
       JObject (map (\<lambda>(name, n). (name, JNum (sint n))) policyCounts))])])]"

text \<open>
  The objects the patches are sent to are kept by the API server, which applies a merge patch to
  the status of the named policy; \<open>merge\<close> stands for that, \<open>None\<close> for a request that fails. The
  counter is increased by the number of policies, failed requests included.
\<close>

definition writebackPolicyStatus ::
    "(string \<Rightarrow> json \<Rightarrow> json \<Rightarrow> json option) \<Rightarrow> string \<Rightarrow> string list \<Rightarrow> ('sel, 'x, 'p) resolver
     \<Rightarrow> (string \<Rightarrow> json) \<times> nat \<Rightarrow> (string \<Rightarrow> json) \<times> nat" where
  "writebackPolicyStatus merge nodeName order r st =
     (let names = PolicyNames order r
      in if names = [] then st
         else let patch = buildStatusPatch nodeName (map (\<lambda>name. (name, ActivePodCount name r)) names)
              in (fold (\<lambda>name objs. case merge name (objs name) patch of
                          None \<Rightarrow> objs | Some obj \<Rightarrow> objs(name := obj)) names (fst st),
                  snd st + length names))"

subsection \<open>Skipped updates\<close>

text \<open>
  C30 (update_skip_sound). An update of a running pod that the watcher does not act on could not have
  changed anything: the same policies apply to the pod before and after, and it would be given the
  same parameters, provided its QoS class is the same and, for policies with a CEL condition, the
  values the condition can see. The watcher compares only phase, labels, annotations and container
  IDs, so a restart count or a CPU request that changes alone is not acted on.
\<close>

theorem update_skip_sound:
  assumes "watch_event (PodUpdated (PodObj oldPod) (PodObj newPod)) = None" "pod_phase newPod = ''Running''"
    and "pod_qos oldPod = pod_qos newPod"
    and "\<And>p. p \<in> ran (rs_policies r) \<Longrightarrow> CELCondition p \<noteq> [] \<Longrightarrow> cel_variables p oldPod = cel_variables p newPod"
  shows "applying L newPod r = applying L oldPod r \<and> resolve_spec L newPod r = resolve_spec L oldPod r"
proof -
  have same: "pod_labels oldPod = pod_labels newPod" "pod_annotations oldPod = pod_annotations newPod"
    using assms(1,2) by (auto simp: watch_event_def handlePodUpdate_def podRelevantFieldsChanged_def split: if_splits)
  have "policy_applies L newPod p = policy_applies L oldPod p" if "p \<in> ran (rs_policies r)" for p
    using assms(4) [OF that] same(1)
    by (cases "CELCondition p = []") (simp_all add: policy_applies_def podSelectorMatches_def split: option.splits)
  then have "applying L newPod r = applying L oldPod r" by (auto simp: applying_def)
  then show ?thesis using same(2) assms(3) by (simp add: resolve_spec_def Let_def)
qed

definition restarted_pod :: pod where
  "restarted_pod = web_pod\<lparr>pod_statuses := [\<lparr>restart_count = 3, container_id = ''c1''\<rparr>]\<rparr>"

definition plain_resolver :: "(string \<times> string, string, string) resolver" where
  "plain_resolver = addPolicy (demo_policy ''a'' 200 []) (NewResolver 0)"

theorem update_skip_sound_witness:
  "watch_event (PodUpdated (PodObj (restarted_pod\<lparr>pod_statuses := [\<lparr>restart_count = 2, container_id = ''c1''\<rparr>]\<rparr>))
     (PodObj restarted_pod)) = None \<and>
   applying demo_libs restarted_pod plain_resolver =
     applying demo_libs (restarted_pod\<lparr>pod_statuses := [\<lparr>restart_count = 2, container_id = ''c1''\<rparr>]\<rparr>) plain_resolver"
proof -
  let ?old = "restarted_pod\<lparr>pod_statuses := [\<lparr>restart_count = 2, container_id = ''c1''\<rparr>]\<rparr>"
  have w: "watch_event (PodUpdated (PodObj ?old) (PodObj restarted_pod)) = None"
    by (simp add: watch_event_def podRelevantFieldsChanged_def containerIDs_def restarted_pod_def)
  have run: "pod_phase restarted_pod = ''Running''" "pod_qos ?old = pod_qos restarted_pod"
    by (simp_all add: restarted_pod_def web_pod_def)
  have "CELCondition p = []" if "p \<in> ran (rs_policies plain_resolver)" for p
    using that by (auto simp: plain_resolver_def addPolicy_def NewResolver_def put_policy_def demo_policy_def)
  then show ?thesis using update_skip_sound [OF w run, of plain_resolver demo_libs] w by blast
qed

subsection \<open>Export\<close>

lemma counter_add_exact:
  assumes "prev \<le> now" "uint now < 2 ^ 53"
  shows "counter_add now prev c = c + of_int (uint now - uint prev)"
proof -
  have d: "uint (now - prev) = uint now - uint prev" using assms(1) by (simp add: uint_sub_if' word_le_def)
  then have "\<bar>uint (now - prev)\<bar> < 2 ^ 53" using assms(2) uint_ge_0 [of prev] uint_ge_0 [of "now - prev"] by linarith
  then show ?thesis using assms(1) by (simp only: counter_add_def if_True float64_int d)
qed

text \<open>Readings of a counter that never decrease and stay exact as doubles.\<close>

fun rises :: "u64 \<Rightarrow> u64 list \<Rightarrow> bool" where
  "rises prev [] = True"
| "rises prev (now # rest) = (prev \<le> now \<and> uint now < 2 ^ 53 \<and> rises now rest)"

lemma export_enqueues:
  assumes "EnqueueCount m = of_int (uint (enqueues prev))"
    and "rises (enqueues prev) (map enqueues (List.map_filter ReadStats reads))"
  shows "EnqueueCount (snd (fold export_tick reads (prev, m))) =
    of_int (uint (last (enqueues prev # map enqueues (List.map_filter ReadStats reads))))"
  using assms
proof (induction reads arbitrary: prev m)
  case (Cons s reads)
  show ?case
  proof (cases "ReadStats s")
    case None
    then have "export_tick s (prev, m) = (prev, m)" by (simp add: export_tick_def)
    with Cons None show ?thesis by (simp add: List.map_filter_simps)
  next
    case (Some now)
    then obtain m' where m': "export_tick s (prev, m) = (now, m')"
        "EnqueueCount m' = counter_add (enqueues now) (enqueues prev) (EnqueueCount m)"
      by (simp add: export_tick_def)
    have g: "enqueues prev \<le> enqueues now" "uint (enqueues now) < 2 ^ 53"
        "rises (enqueues now) (map enqueues (List.map_filter ReadStats reads))"
      using Cons.prems(2) Some by (simp_all add: List.map_filter_simps)
    then have "EnqueueCount m' = of_int (uint (enqueues now))"
      using counter_add_exact [OF g(1,2)] Cons.prems(1) by (simp add: m'(2))
    from Cons.IH [OF this g(3)] Some show ?thesis by (simp add: List.map_filter_simps m'(1))
  qed
qed (simp add: List.map_filter_simps)

subsection \<open>Status patches\<close>

definition jfield :: "string \<Rightarrow> json \<Rightarrow> json option" where
  "jfield k j = (case j of JObject fs \<Rightarrow> map_of fs k | _ \<Rightarrow> None)"

fun jpath :: "string list \<Rightarrow> json \<Rightarrow> json option" where
  "jpath [] j = Some j"
| "jpath (k # ks) j = (case jfield k j of None \<Rightarrow> None | Some j' \<Rightarrow> jpath ks j')"

text \<open>
  JSON merge patch (RFC 7386): an object in the patch is merged field by field, a \<^verbatim>\<open>null\<close> removes a
  field, everything else replaces what is there.
\<close>

locale merge_patch =
  fixes mp :: "json \<Rightarrow> json \<Rightarrow> json"
  assumes merge_field: "jfield k (mp target (JObject ps)) =
      (case map_of ps k of
         None \<Rightarrow> jfield k target
       | Some JNull \<Rightarrow> None
       | Some v \<Rightarrow> Some (mp (case jfield k target of None \<Rightarrow> JNull | Some u \<Rightarrow> u) v))"
    and merge_num: "mp target (JNum n) = JNum n"
begin

lemma jpath_null [simp]: "jpath (k # ks) JNull = None"
  by (simp add: jfield_def)

lemma merge_object:
  "jpath (k # ks) (mp target (JObject [(k', JObject ps)])) =
     (if k = k' then jpath ks (mp (case jfield k target of None \<Rightarrow> JNull | Some u \<Rightarrow> u) (JObject ps))
      else jpath (k # ks) target)"
  by (simp add: merge_field)

lemma jpath_default: "jpath (k' # ks) (case jfield k t of None \<Rightarrow> JNull | Some u \<Rightarrow> u) = jpath (k # k' # ks) t"
  by (simp add: jfield_def [of _ JNull] split: option.splits)

lemma merge_status:
  "jpath [''status'', ''nodeStatuses'', n, k] (mp obj (buildStatusPatch node counts)) =
     (if n = node then
        (case map_of counts k of
           Some c \<Rightarrow> Some (JNum (sint c))
         | None \<Rightarrow> jpath [''status'', ''nodeStatuses'', n, k] obj)
      else jpath [''status'', ''nodeStatuses'', n, k] obj)"
proof -
  let ?ps = "map (\<lambda>(name, c). (name, JNum (sint c))) counts"
  have "map_of ?ps k = map_option (\<lambda>c. JNum (sint c)) (map_of counts k)"
    by (induction counts) auto
  then have leaf: "jpath [k] (mp t (JObject ?ps)) =
      (case map_of counts k of Some c \<Rightarrow> Some (JNum (sint c)) | None \<Rightarrow> jpath [k] t)" for t
    by (simp add: merge_field merge_num split: option.splits)
  show ?thesis
    unfolding buildStatusPatch_def merge_object leaf jpath_default by (simp only: simp_thms if_True split: option.splits)
qed

end

text \<open>The algorithm of the RFC.\<close>

fun rfc_merge :: "json \<Rightarrow> json \<Rightarrow> json"
  and rfc_fields :: "(string \<times> json) list \<Rightarrow> (string \<times> json) list \<Rightarrow> (string \<times> json) list" where
  "rfc_merge target (JObject ps) = JObject (rfc_fields (case target of JObject fs \<Rightarrow> fs | _ \<Rightarrow> []) ps)"
| "rfc_merge target JNull = JNull"
| "rfc_merge target (JNum n) = JNum n"
| "rfc_merge target (JString s) = JString s"
| "rfc_fields fs [] = fs"
| "rfc_fields fs ((k, v) # ps) =
     (if v = JNull then filter (\<lambda>f. fst f \<noteq> k) (rfc_fields fs ps)
      else (k, rfc_merge (case map_of fs k of None \<Rightarrow> JNull | Some u \<Rightarrow> u) v)
             # filter (\<lambda>f. fst f \<noteq> k) (rfc_fields fs ps))"

lemma map_of_drop: "map_of (filter (\<lambda>f. fst f \<noteq> k) fs) x = (if x = k then None else map_of fs x)"
  by (induction fs) auto

lemma rfc_fields_lookup:
  "map_of (rfc_fields fs ps) k =
     (case map_of ps k of
        None \<Rightarrow> map_of fs k
      | Some JNull \<Rightarrow> None
      | Some v \<Rightarrow> Some (rfc_merge (case map_of fs k of None \<Rightarrow> JNull | Some u \<Rightarrow> u) v))"
  by (induction ps) (auto simp: map_of_drop split: json.splits)

interpretation rfc: merge_patch rfc_merge
proof unfold_locales
  fix k target ps n
  show "jfield k (rfc_merge target (JObject ps)) =
      (case map_of ps k of None \<Rightarrow> jfield k target | Some JNull \<Rightarrow> None
       | Some v \<Rightarrow> Some (rfc_merge (case jfield k target of None \<Rightarrow> JNull | Some u \<Rightarrow> u) v))"
    by (cases target) (simp_all add: jfield_def rfc_fields_lookup split: option.splits json.splits)
  show "rfc_merge target (JNum n) = JNum n" by simp
qed

lemma writeback_fold:
  "fold (\<lambda>name objs. case Some (mp (objs name) patch) of None \<Rightarrow> objs | Some obj \<Rightarrow> objs(name := obj)) names objs name =
     (if name \<in> set names then mp (objs name) patch else objs name)" if "distinct names"
  using that by (induction names arbitrary: objs) auto

lemma PolicyNames_order: "order_of r order \<Longrightarrow> PolicyNames order r = order"
  by (auto simp: PolicyNames_def order_of_def filter_id_conv)

lemma map_of_pairs: "map_of (map (\<lambda>x. (x, f x)) xs) k = (if k \<in> set xs then Some (f k) else None)"
  by (induction xs) auto

text \<open>
  C33 (writeback_counts). When the API server accepts the patches and applies them as JSON merge patches,
  every cached policy's status afterwards has, under this node, the number of matching pods for every
  cached policy, and under every other node what it had before. A count under this node for a
  policy that is no longer cached also stays as it was: a merge patch merges the map of the node, it
  does not replace it.
\<close>

theorem writeback_counts:
  fixes c :: nat and node objs
  assumes "merge_patch mp" "order_of r order" "name \<in> set order"
  defines "objs' \<equiv> fst (writebackPolicyStatus (\<lambda>_ obj patch. Some (mp obj patch)) node order r (objs, c))"
  shows "jpath [''status'', ''nodeStatuses'', n, k] (objs' name) =
    (if n = node \<and> rs_policies r k \<noteq> None then Some (JNum (sint (ActivePodCount k r)))
     else jpath [''status'', ''nodeStatuses'', n, k] (objs name))"
proof -
  have d: "distinct order" and k: "k \<in> set order \<longleftrightarrow> rs_policies r k \<noteq> None"
    using assms(2) by (auto simp: order_of_def)
  have "order \<noteq> []" using assms(3) by auto
  then have "objs' name = mp (objs name) (buildStatusPatch node (map (\<lambda>name. (name, ActivePodCount name r)) order))"
    using writeback_fold [OF d, of mp] assms(3)
    by (simp add: objs'_def writebackPolicyStatus_def PolicyNames_order [OF assms(2)] Let_def)
  then show ?thesis
    using merge_patch.merge_status [OF assms(1), of n k "objs name" node] k
    by (simp del: jpath.simps add: map_of_pairs)
qed

theorem writeback_counts_witness:
  "\<exists>objs' :: string \<Rightarrow> json. objs' = fst (writebackPolicyStatus (\<lambda>_ obj patch. Some (rfc_merge obj patch)) ''n1''
      [''b'', ''a''] demo_resolver (\<lambda>_. JObject [(''status'', JObject [(''nodeStatuses'', JObject [(''n1'',
        JObject [(''gone'', JNum 4)])])])], 0)) \<and>
     jpath [''status'', ''nodeStatuses'', ''n1'', ''a''] (objs' ''a'') = Some (JNum 0) \<and>
     jpath [''status'', ''nodeStatuses'', ''n1'', ''gone''] (objs' ''a'') = Some (JNum 4)"
proof -
  have m: "''a'' \<in> set [''b'', ''a'']" by simp
  have c: "ActivePodCount ''a'' demo_resolver = 0"
    by (simp add: ActivePodCount_def demo_resolver_def addPolicy_def NewResolver_def)
  let ?objs = "\<lambda>_ :: string. JObject [(''status'', JObject [(''nodeStatuses'', JObject [(''n1'', JObject [(''gone'', JNum 4)])])])]"
  note w = writeback_counts [OF rfc.merge_patch_axioms demo_order m, where node = "''n1''" and n = "''n1''" and c = 0
    and objs = ?objs]
  show ?thesis
    using w [where k = "''a''"] w [where k = "''gone''"] by (simp add: demo_policies c jfield_def)
qed

subsection \<open>From a pod event to the scheduler\<close>

lemma emitEvent_sel [simp]: "mapOps (emitEvent ev a) = mapOps a" "ag_resolver (emitEvent ev a) = ag_resolver a"
  by (simp_all add: emitEvent_def)

lemma emit_fold [simp]:
  "mapOps (fold (\<lambda>(name, err). emitEvent (PolicyCelError name err)) es a) = mapOps a"
  "ag_resolver (fold (\<lambda>(name, err). emitEvent (PolicyCelError name err)) es a) = ag_resolver a"
  by (induction es arbitrary: a) auto

lemma resolve_pod_sel:
  "fst (resolve_pod L order pod a) = fst (Resolve L order pod (ag_resolver a))"
  "mapOps (snd (resolve_pod L order pod a)) = mapOps a"
  by (simp_all add: resolve_pod_def split: prod.split)

lemma onPodUpdate_maps:
  "mapOps (onPodUpdate L cx pod a) = snd (UpdatePodParams (cx_cgio cx) (cx_pidio cx) (cx_env cx) (cx_time cx)
     (Some pod) [fst (Resolve L (cx_order cx) pod (ag_resolver a))] (mapOps a))"
  by (simp add: onPodUpdate_def Let_def case_prod_unfold resolve_pod_sel split: option.splits)

lemma task_slice_budget:
  "uint (task_slice tp) = (if 0 < uint (budget_ns tp) \<and> uint (budget_ns tp) < 5000000 then uint (budget_ns tp) else 5000000)"
proof -
  have "budget_ns tp \<noteq> 0 \<longleftrightarrow> 0 < uint (budget_ns tp)" by (metis order_less_le uint_0_iff uint_ge_0)
  then show ?thesis by (simp add: task_slice_def sched_consts word_less_alt)
qed

text \<open>
  C4 (pod_pipeline). Once the watcher has delivered a running pod whose cgroups exist and its
  parameters were written, \<^verbatim>\<open>lookup_task_params\<close> of the in-kernel scheduler, on the maps as the agent has left them, finds for every
  task in those cgroups exactly the weight and the budget of the rule in the comment on \<^verbatim>\<open>Resolve\<close>: an annotation, else the largest a
  matching policy asks for, else the default of the QoS class. Its slice is the budget capped at 5 ms, and a full
  slice is charged to its virtual time as slice times 10000 divided by that weight. Policies that
  pass the CRD schema keep the weight between 1 and 10000, so the charge neither divides by
  zero nor overflows. Tasks of a process with an entry of its own in the process map are excepted.
\<close>

theorem pod_pipeline:
  fixes L and pod :: pod
  assumes "kernel_map (cx_cgio cx)" "am_task (mapOps a) = Some tm" "am_cgroup (mapOps a) = Some cm"
    and "resolver_reach L conv clk (ag_resolver a)" "order_of (ag_resolver a) (cx_order cx)" "policies_valid (ag_resolver a)"
    and "pod_phase pod = ''Running''" "cg \<in> set (resolvePodCgroupIDs (cx_env cx) (pod_uid pod))" "cg \<noteq> 0" "tm pid = None"
    and "fst (UpdatePodParams (cx_cgio cx) (cx_pidio cx) (cx_env cx) (cx_time cx) (Some pod)
      [fst (Resolve L (cx_order cx) pod (ag_resolver a))] (mapOps a)) = None"
    and "stable_cgroup_contract K cg_of dsq"
  defines "a' \<equiv> handle_pod_event L cx (PodAdded (PodObj pod)) a"
    and "w \<equiv> fst (resolve_spec L pod (ag_resolver a))" and "b \<equiv> snd (resolve_spec L pod (ag_resolver a))"
  shows "\<exists>tm' cm' tp. am_task (mapOps a') = Some tm' \<and> am_cgroup (mapOps a') = Some cm' \<and>
    (\<forall>s p. task_params s = tm' \<and> cgroup_params s = cm' \<and> tgid (tasks (kst s) p) = pid \<and> cg_of p = cg \<longrightarrow>
       fst (lookup_task_params K p s) = (True, tp)) \<and>
    uint (weight tp) = w \<and> uint (budget_ns tp) = b \<and>
    1 \<le> w \<and> w \<le> 10000 \<and>
    uint (task_slice tp) = (if 0 < b \<and> b < 5000000 then b else 5000000) \<and>
    uint (vtime_charge (task_slice tp) (weight tp)) = uint (task_slice tp) * 10000 div w"
proof -
  let ?sp = "fst (Resolve L (cx_order cx) pod (ag_resolver a))"
  have ok: "resolver_ok L (ag_resolver a)" by (rule resolver_reach_ok [OF assms(4)])
  have "a' = onPodUpdate L cx pod a"
    using assms(7) by (simp add: a'_def handle_pod_event_def watch_event_def handlePodUpdate_def)
  then have upd: "UpdatePodParams (cx_cgio cx) (cx_pidio cx) (cx_env cx) (cx_time cx) (Some pod) [?sp] (mapOps a) = (None, mapOps a')"
    using assms(11) by (metis onPodUpdate_maps prod.collapse)
  have "resolvePodCgroupIDs (cx_env cx) (pod_uid pod) \<noteq> []" using assms(8) by auto
  from update_via_cgroups [OF assms(1-3) this upd] assms(2,8-10)
  obtain cm' where maps: "am_task (mapOps a') = Some tm" "am_cgroup (mapOps a') = Some cm'"
      and eff: "effective_params tm cm' pid cg = (True, to_task_params ?sp)"
    by (auto simp: effective_params_def)
  have look: "\<forall>s p. task_params s = tm \<and> cgroup_params s = cm' \<and> tgid (tasks (kst s) p) = pid \<and> cg_of p = cg \<longrightarrow>
      fst (lookup_task_params K p s) = (True, to_task_params ?sp)"
    using eff by (auto simp: lookup_effective [OF assms(12)])
  have spec: "(uint (sp_weight ?sp), uint (sp_budget_ns ?sp)) = resolve_spec L pod (ag_resolver a)"
    by (rule Resolve_params_spec [OF ok assms(5)])
  then have wb: "uint (weight (to_task_params ?sp)) = w" "uint (budget_ns (to_task_params ?sp)) = b"
    by (simp_all add: to_task_params_def w_def b_def) (metis fst_conv, metis snd_conv)
  have w: "1 \<le> w" "w \<le> 10000" using resolve_spec_weight [OF ok assms(6)] by (simp_all add: w_def)
  have sl: "uint (task_slice (to_task_params ?sp)) \<le> 5000000" by (simp add: task_slice_budget)
  have "uint (vtime_charge (task_slice (to_task_params ?sp)) (weight (to_task_params ?sp))) =
      uint (task_slice (to_task_params ?sp)) * 10000 div w"
    using uint_vtime_charge [of "task_slice (to_task_params ?sp)" "weight (to_task_params ?sp)"] sl w
    by (simp add: wb spec_charge_def)
  with maps look wb w show ?thesis by (auto simp: task_slice_budget)
qed

definition demo_cx :: surroundings where
  "demo_cx = \<lparr>cx_cgio = hash_io cgroup_params_map, cx_pidio = hash_io task_params_map, cx_env = demo_env,
     cx_time = 0, cx_order = [''b'', ''a'']\<rparr>"

definition demo_agent :: "(string \<times> string, string, string) agent" where
  "demo_agent = \<lparr>mapOps = demo_maps, ag_resolver = demo_resolver, ag_recorder = True, ag_events = [],
     ActivePolicies = 0, ParamsMapped = 0\<rparr>"

lemma demo_pipeline_pre:
  "kernel_map (cx_cgio demo_cx)" "am_task (mapOps demo_agent) = Some [70 \<mapsto> \<lparr>weight = 200, budget_ns = 0\<rparr>]"
  "am_cgroup (mapOps demo_agent) = Some Map.empty" "resolver_reach demo_libs Some 0 (ag_resolver demo_agent)"
  "order_of (ag_resolver demo_agent) (cx_order demo_cx)" "policies_valid (ag_resolver demo_agent)"
  using cgroup_map.kernel_map_axioms demo_resolver_reach demo_order
  by (simp_all add: demo_cx_def demo_agent_def demo_maps_def policies_valid_def demo_policies demo_policy_def)

lemma demo_update_any:
  "fst (UpdatePodParams (cx_cgio demo_cx) (cx_pidio demo_cx) (cx_env demo_cx) (cx_time demo_cx)
     (Some (web_pod\<lparr>pod_uid := ''u''\<rparr>)) [sp] (mapOps demo_agent)) = None"
  by (simp add: UpdatePodParams_def demo_cx_def demo_agent_def demo_maps_def New_maps_def demo_ids writeCgroupParams_def
      put_loop_def put_step_def hash_io_def cgroup_params_map_def Let_def)

lemma demo_web_spec: "resolve_spec demo_libs (web_pod\<lparr>pod_uid := ''u''\<rparr>) demo_resolver = (3000, 2000000)"
proof -
  have "policy_applies demo_libs (web_pod\<lparr>pod_uid := ''u''\<rparr>) (demo_policy n w []) \<and>
      policy_applies demo_libs (web_pod\<lparr>pod_uid := ''u''\<rparr>) (demo_policy n w ''true'')" for n w
    by (simp add: policy_applies_def podSelectorMatches_def demo_policy_def demo_libs_def web_pod_def
        go_get_def evaluate_direct_def compileCall_def compile_def runProgram_def)
  then have "applying demo_libs (web_pod\<lparr>pod_uid := ''u''\<rparr>) demo_resolver =
      {demo_policy ''a'' 200 [], demo_policy ''b'' 3000 ''true''}"
    by (auto simp: applying_def demo_policies)
  then show ?thesis by (simp add: resolve_spec_def demo_asked no_annotations Let_def)
qed

text \<open>A scheduler on these maps, all of whose tasks belong to process 71.\<close>

definition demo_sched :: "(u32 \<rightharpoonup> task_params) \<Rightarrow> (u64 \<rightharpoonup> task_params) \<Rightarrow> ref_kern sched" where
  "demo_sched tm cm = ref_sched\<lparr>kst := ref_kstate\<lparr>tasks := (\<lambda>_. \<lparr>tgid = 71, scx = \<lparr>dsq_vtime = 0, slice = 0\<rparr>\<rparr>)\<rparr>,
     task_params := tm, cgroup_params := cm\<rparr>"

theorem pod_pipeline_witness:
  "\<exists>tm cm tp. am_task (mapOps (handle_pod_event demo_libs demo_cx (PodAdded (PodObj (web_pod\<lparr>pod_uid := ''u''\<rparr>))) demo_agent)) = Some tm \<and>
     am_cgroup (mapOps (handle_pod_event demo_libs demo_cx (PodAdded (PodObj (web_pod\<lparr>pod_uid := ''u''\<rparr>))) demo_agent)) = Some cm \<and>
     fst (lookup_task_params pinned_env 56 (demo_sched tm cm)) = (True, tp) \<and> uint (weight tp) = 3000 \<and> uint (task_slice tp) = 2000000 \<and>
     uint (vtime_charge (task_slice tp) (weight tp)) = 6666666"
proof -
  let ?pod = "web_pod\<lparr>pod_uid := ''u''\<rparr>"
  have pod: "pod_phase ?pod = ''Running''" "56 \<in> set (resolvePodCgroupIDs (cx_env demo_cx) (pod_uid ?pod))"
    "(56 :: u64) \<noteq> 0" "[70 \<mapsto> \<lparr>weight = 200, budget_ns = 0\<rparr>] (71 :: u32) = None"
    by (simp_all add: web_pod_def demo_cx_def demo_ids)
  have spec: "resolve_spec demo_libs ?pod (ag_resolver demo_agent) = (3000, 2000000)"
    using demo_web_spec by (simp add: demo_agent_def)
  obtain tm cm tp where r:
      "am_task (mapOps (handle_pod_event demo_libs demo_cx (PodAdded (PodObj ?pod)) demo_agent)) = Some tm"
      "am_cgroup (mapOps (handle_pod_event demo_libs demo_cx (PodAdded (PodObj ?pod)) demo_agent)) = Some cm"
      "\<forall>s p. task_params s = tm \<and> cgroup_params s = cm \<and> tgid (tasks (kst s) p) = 71 \<and> of_nat p = (56 :: u64) \<longrightarrow>
         fst (lookup_task_params pinned_env p s) = (True, tp)"
      "uint (weight tp) = 3000" "uint (task_slice tp) = (if (0 :: int) < 2000000 \<and> (2000000 :: int) < 5000000 then 2000000 else 5000000)"
      "uint (vtime_charge (task_slice tp) (weight tp)) = uint (task_slice tp) * 10000 div 3000"
    using pod_pipeline [OF demo_pipeline_pre pod demo_update_any pinned_contracts(2), unfolded spec fst_conv snd_conv] by blast
  from r(3) [rule_format, of "demo_sched tm cm" 56] r(1,2,4-6) show ?thesis
    by (intro exI [of _ tm] exI [of _ cm] exI [of _ tp]) (simp add: demo_sched_def)
qed

end
