(* ===== verification/Agent_Run.thy ===== *)
theory Agent_Run
  imports Agent
begin

text \<open>
  The running agent (\<^verbatim>\<open>internal/sched/agent.go\<close>, \<^verbatim>\<open>Run\<close>): the goroutine of the pod informer, which runs one
  callback at a time, the goroutine of the policy informer, and the goroutine of the periodic sweep,
  interleaved over the same maps and the same resolver. The steps of a callback are the sections between
  which another goroutine can run: the two critical sections of \<^verbatim>\<open>Resolve\<close>, each put of
  \<^verbatim>\<open>writeCgroupParams\<close>, and the end of the callback. The sweep reads the cgroups that exist, then the keys of the map,
  then deletes one key at a time. The file system of the node changes in between.
\<close>

subsection \<open>State\<close>

datatype 'sel callback_state =
    CIdle
  | CResolve pod                                                  \<comment> \<open>\<^verbatim>\<open>onPodUpdate\<close> has been called\<close>
  | CTrack pod "'sel policy list"                                 \<comment> \<open>in \<^verbatim>\<open>Resolve\<close>, the read lock is released\<close>
  | CUpdate pod sched_params                                      \<comment> \<open>about to call \<^verbatim>\<open>UpdatePodParams\<close>\<close>
  | CWrite pod task_params "u64 list" "u64 list" "u64 option"     \<comment> \<open>in \<^verbatim>\<open>writeCgroupParams\<close>: keys left, written, first error\<close>
  | CFinish pod "map_error option"                                \<comment> \<open>\<^verbatim>\<open>UpdatePodParams\<close> has returned\<close>
  | CRemove pod                                                   \<comment> \<open>\<^verbatim>\<open>onPodDelete\<close> has been called\<close>

datatype sweep_state =
    SIdle
  | SPidsDone            \<comment> \<open>\<^verbatim>\<open>cleanStalePIDs\<close> has returned\<close>
  | SLive "u64 set"      \<comment> \<open>the cgroups that existed when the tree was walked\<close>
  | SStale "u64 list"    \<comment> \<open>the keys still to be deleted\<close>

record ('sel, 'x, 'p) running =
  rn_agent :: "('sel, 'x, 'p) agent"
  rn_env :: node_env
  rn_cb :: "'sel callback_state"
  rn_sweep :: sweep_state

definition run_start :: "('sel, 'x, 'p) agent \<Rightarrow> node_env \<Rightarrow> ('sel, 'x, 'p) running" where
  "run_start a env = \<lparr>rn_agent = a, rn_env = env, rn_cb = CIdle, rn_sweep = SIdle\<rparr>"

subsection \<open>The pod informer\<close>

text \<open>The informer delivers the next event when the callback for the last one has returned.\<close>

definition deliver :: "pod_event \<Rightarrow> ('sel, 'x, 'p) running \<Rightarrow> ('sel, 'x, 'p) running" where
  "deliver ev rn =
     (case rn_cb rn of
        CIdle \<Rightarrow>
          (case watch_event ev of
             None \<Rightarrow> rn
           | Some (OnAdd pod) \<Rightarrow> rn\<lparr>rn_cb := CResolve pod\<rparr>
           | Some (OnDelete pod) \<Rightarrow> rn\<lparr>rn_cb := CRemove pod\<rparr>)
      | _ \<Rightarrow> rn)"

text \<open>The first critical section of \<^verbatim>\<open>Resolve\<close>, with the calls of the policy error handler.\<close>

definition match_pod ::
    "('sel, 'x, 'env, 'ast, 'p, 'o) policy_libs \<Rightarrow> string list \<Rightarrow> pod \<Rightarrow> ('sel, 'x, 'p) agent
     \<Rightarrow> 'sel policy list \<times> ('sel, 'x, 'p) agent" where
  "match_pod L order pod a =
     (case getMatchingPolicies L pod (List.map_filter (rs_policies (ag_resolver a)) order) (ag_resolver a) of
        (matched, r) \<Rightarrow>
          (matched, fold (\<lambda>(name, err). emitEvent (PolicyCelError name err))
                      (drop (length (rs_errors (ag_resolver a))) (rs_errors r)) (a\<lparr>ag_resolver := r\<rparr>)))"

text \<open>\<^verbatim>\<open>UpdatePodParams\<close> up to the loop of \<^verbatim>\<open>writeCgroupParams\<close>, or all of it when there is no such loop.\<close>

definition begin_update ::
    "u32 map_io \<Rightarrow> node_env \<Rightarrow> int \<Rightarrow> pod \<Rightarrow> sched_params \<Rightarrow> agent_maps \<Rightarrow> 'sel callback_state \<times> agent_maps" where
  "begin_update pidio env t pod sp s =
     (case am_task s of
        None \<Rightarrow> (CFinish pod None, s)
      | Some tm \<Rightarrow>
          (let tp = to_task_params sp; cgids = resolvePodCgroupIDs env (pod_uid pod)
           in if am_cgroup s \<noteq> None \<and> cgids \<noteq> [] then (CWrite pod tp cgids [] None, s)
              else (case pid_fallback pidio env t (pod_uid pod) tp tm s of (err, s) \<Rightarrow> (CFinish pod err, s))))"

definition write_one ::
    "u64 map_io \<Rightarrow> pod \<Rightarrow> task_params \<Rightarrow> u64 list \<Rightarrow> u64 list \<Rightarrow> u64 option \<Rightarrow> agent_maps
     \<Rightarrow> 'sel callback_state \<times> agent_maps" where
  "write_one cgio pod tp todo written err s =
     (case (todo, am_cgroup s) of
        (k # ks, Some cm) \<Rightarrow>
          (case put_step cgio tp k (written, err, cm) of
             (written, err, cm) \<Rightarrow> (CWrite pod tp ks written err, s\<lparr>am_cgroup := Some cm\<rparr>))
      | _ \<Rightarrow>
          (CFinish pod (map_option PutCgroup err),
           if pod_uid pod \<noteq> [] then s\<lparr>podCgroupIDs := (podCgroupIDs s)(pod_uid pod \<mapsto> written)\<rparr> else s))"

text \<open>The end of \<^verbatim>\<open>onPodUpdate\<close>.\<close>

definition end_update :: "string list \<Rightarrow> pod \<Rightarrow> map_error option \<Rightarrow> ('sel, 'x, 'p) agent \<Rightarrow> ('sel, 'x, 'p) agent" where
  "end_update order pod err a =
     (let a = (case err of None \<Rightarrow> a | Some e \<Rightarrow> emitEvent (PodResolveError (pod_uid pod) e) a)
      in a\<lparr>ActivePolicies := length (PolicyNames order (ag_resolver a)), ParamsMapped := TrackedPods (mapOps a)\<rparr>)"

text \<open>One step of the callback, given the order of a map iteration and the time.\<close>

definition callback_step ::
    "('sel, 'x, 'env, 'ast, 'p, 'o) policy_libs \<Rightarrow> u64 map_io \<Rightarrow> u32 map_io \<Rightarrow> string list \<Rightarrow> int
     \<Rightarrow> ('sel, 'x, 'p) running \<Rightarrow> ('sel, 'x, 'p) running" where
  "callback_step L cgio pidio order t rn =
     (let a = rn_agent rn
      in case rn_cb rn of
           CIdle \<Rightarrow> rn
         | CResolve pod \<Rightarrow>
             (case match_pod L order pod a of (matched, a) \<Rightarrow> rn\<lparr>rn_agent := a, rn_cb := CTrack pod matched\<rparr>)
         | CTrack pod matched \<Rightarrow>
             rn\<lparr>rn_agent := a\<lparr>ag_resolver := trackMatchedPods (map pol_Name matched) (pod_uid pod) (ag_resolver a)\<rparr>,
                rn_cb := CUpdate pod (resolve_params pod matched)\<rparr>
         | CUpdate pod sp \<Rightarrow>
             (case begin_update pidio (rn_env rn) t pod sp (mapOps a) of
                (cb, s) \<Rightarrow> rn\<lparr>rn_agent := a\<lparr>mapOps := s\<rparr>, rn_cb := cb\<rparr>)
         | CWrite pod tp todo written err \<Rightarrow>
             (case write_one cgio pod tp todo written err (mapOps a) of
                (cb, s) \<Rightarrow> rn\<lparr>rn_agent := a\<lparr>mapOps := s\<rparr>, rn_cb := cb\<rparr>)
         | CFinish pod err \<Rightarrow> rn\<lparr>rn_agent := end_update order pod err a, rn_cb := CIdle\<rparr>
         | CRemove pod \<Rightarrow>
             rn\<lparr>rn_agent := onPodDelete \<lparr>cx_cgio = cgio, cx_pidio = pidio, cx_env = rn_env rn, cx_time = t,
                              cx_order = order\<rparr> pod a,
                rn_cb := CIdle\<rparr>)"

subsection \<open>The sweep\<close>

definition sweep_step :: "u64 map_io \<Rightarrow> u32 map_io \<Rightarrow> ('sel, 'x, 'p) running \<Rightarrow> ('sel, 'x, 'p) running" where
  "sweep_step cgio pidio rn =
     (let a = rn_agent rn; s = mapOps a
      in case rn_sweep rn of
           SIdle \<Rightarrow> rn\<lparr>rn_agent := a\<lparr>mapOps := cleanStalePIDs pidio (rn_env rn) s\<rparr>, rn_sweep := SPidsDone\<rparr>
         | SPidsDone \<Rightarrow>
             (case am_cgroup s of
                None \<Rightarrow> rn\<lparr>rn_sweep := SIdle\<rparr>
              | Some cm \<Rightarrow>
                  (let live = liveKubepodsCgroupIDs (rn_env rn)
                   in rn\<lparr>rn_sweep := (if live = {} then SIdle else SLive live)\<rparr>))
         | SLive live \<Rightarrow>
             (case am_cgroup s of
                None \<Rightarrow> rn\<lparr>rn_sweep := SIdle\<rparr>
              | Some cm \<Rightarrow> rn\<lparr>rn_sweep := SStale (filter (\<lambda>k. k \<notin> live) (miter cgio cm))\<rparr>)
         | SStale [] \<Rightarrow> rn\<lparr>rn_sweep := SIdle\<rparr>
         | SStale (k # ks) \<Rightarrow>
             rn\<lparr>rn_agent := a\<lparr>mapOps := s\<lparr>am_cgroup := map_option (del_loop cgio [k]) (am_cgroup s)\<rparr>\<rparr>,
                rn_sweep := SStale ks\<rparr>)"

subsection \<open>Interleaving\<close>

datatype ('u, 'sel) run_label =
    PodEvent pod_event
  | Callback "string list" int
  | PolicyEvent "('u, 'sel) policy_event"
  | Sweep
  | NodeChange node_env

definition run_step ::
    "('sel, 'x, 'env, 'ast, 'p, 'o) policy_libs \<Rightarrow> ('u \<Rightarrow> 'sel policy option) \<Rightarrow> u64 map_io \<Rightarrow> u32 map_io
     \<Rightarrow> ('u, 'sel) run_label \<Rightarrow> ('sel, 'x, 'p) running \<Rightarrow> ('sel, 'x, 'p) running" where
  "run_step L conv cgio pidio l rn =
     (case l of
        PodEvent ev \<Rightarrow> deliver ev rn
      | Callback order t \<Rightarrow> callback_step L cgio pidio order t rn
      | PolicyEvent ev \<Rightarrow>
          rn\<lparr>rn_agent := (rn_agent rn)\<lparr>ag_resolver := handlePolicy conv ev (ag_resolver (rn_agent rn))\<rparr>\<rparr>
      | Sweep \<Rightarrow> sweep_step cgio pidio rn
      | NodeChange env \<Rightarrow> rn\<lparr>rn_env := env\<rparr>)"

definition run_agent ::
    "('sel, 'x, 'env, 'ast, 'p, 'o) policy_libs \<Rightarrow> ('u \<Rightarrow> 'sel policy option) \<Rightarrow> u64 map_io \<Rightarrow> u32 map_io
     \<Rightarrow> ('u, 'sel) run_label list \<Rightarrow> ('sel, 'x, 'p) running \<Rightarrow> ('sel, 'x, 'p) running" where
  "run_agent L conv cgio pidio ls rn = fold (run_step L conv cgio pidio) ls rn"

lemma run_agent_simps [simp]:
  "run_agent L conv cgio pidio [] rn = rn"
  "run_agent L conv cgio pidio (l # ls) rn = run_agent L conv cgio pidio ls (run_step L conv cgio pidio l rn)"
  "run_agent L conv cgio pidio (ls @ ms) rn = run_agent L conv cgio pidio ms (run_agent L conv cgio pidio ls rn)"
  by (simp_all add: run_agent_def)

subsection \<open>A callback that is not interrupted\<close>

definition surround :: "u64 map_io \<Rightarrow> u32 map_io \<Rightarrow> node_env \<Rightarrow> string list \<Rightarrow> int \<Rightarrow> surroundings" where
  "surround cgio pidio env order t = \<lparr>cx_cgio = cgio, cx_pidio = pidio, cx_env = env, cx_time = t, cx_order = order\<rparr>"

lemma run_callback: "run_agent L conv cgio pidio (replicate n (Callback order t)) rn = (callback_step L cgio pidio order t ^^ n) rn"
  by (induction n arbitrary: rn) (simp_all add: run_step_def funpow_swap1)

lemma callback_add:
  "(callback_step L cgio pidio order t ^^ m) rn = rn1 \<Longrightarrow> (callback_step L cgio pidio order t ^^ n) rn1 = rn2 \<Longrightarrow>
   (callback_step L cgio pidio order t ^^ (n + m)) rn = rn2"
  by (simp add: funpow_add)

lemma write_loop:
  assumes "rn_cb rn = CWrite pod tp todo written err" "am_cgroup (mapOps (rn_agent rn)) = Some cm"
    and "fold (put_step cgio tp) todo (written, err, cm) = (w, e, cm')"
  shows "(callback_step L cgio pidio order t ^^ length todo) rn =
    rn\<lparr>rn_agent := (rn_agent rn)\<lparr>mapOps := (mapOps (rn_agent rn))\<lparr>am_cgroup := Some cm'\<rparr>\<rparr>, rn_cb := CWrite pod tp [] w e\<rparr>"
  using assms
proof (induction todo arbitrary: rn written err cm)
  case (Cons k ks)
  obtain w1 e1 cm1 where p: "put_step cgio tp k (written, err, cm) = (w1, e1, cm1)" using prod_cases3 by blast
  let ?rn1 = "rn\<lparr>rn_agent := (rn_agent rn)\<lparr>mapOps := (mapOps (rn_agent rn))\<lparr>am_cgroup := Some cm1\<rparr>\<rparr>,
    rn_cb := CWrite pod tp ks w1 e1\<rparr>"
  have "callback_step L cgio pidio order t rn = ?rn1"
    using Cons.prems(1,2) p by (simp add: callback_step_def write_one_def Let_def)
  moreover have "(callback_step L cgio pidio order t ^^ length ks) ?rn1 =
      rn\<lparr>rn_agent := (rn_agent rn)\<lparr>mapOps := (mapOps (rn_agent rn))\<lparr>am_cgroup := Some cm'\<rparr>\<rparr>, rn_cb := CWrite pod tp [] w e\<rparr>"
    using Cons.IH [of ?rn1 w1 e1 cm1] Cons.prems(3) p by simp
  ultimately show ?case by (simp add: funpow_swap1 del: funpow.simps(2)) (simp add: funpow_swap1)
qed simp

text \<open>From the call of \<^verbatim>\<open>UpdatePodParams\<close> to its return.\<close>

lemma update_steps:
  assumes "rn_cb rn = CUpdate pod sp"
    and "UpdatePodParams cgio pidio (rn_env rn) t (Some pod) [sp] (mapOps (rn_agent rn)) = (err, s')"
  shows "\<exists>n. (callback_step L cgio pidio order t ^^ n) rn =
    rn\<lparr>rn_agent := (rn_agent rn)\<lparr>mapOps := s'\<rparr>, rn_cb := CFinish pod err\<rparr>"
proof -
  let ?step = "callback_step L cgio pidio order t" and ?s = "mapOps (rn_agent rn)"
  let ?ids = "resolvePodCgroupIDs (rn_env rn) (pod_uid pod)"
  show ?thesis
  proof (cases "\<exists>tm cm. am_task ?s = Some tm \<and> am_cgroup ?s = Some cm \<and> ?ids \<noteq> []")
    case True
    then obtain tm cm where m: "am_task ?s = Some tm" "am_cgroup ?s = Some cm" "?ids \<noteq> []" by blast
    obtain w e cm' where loop: "fold (put_step cgio (to_task_params sp)) ?ids ([], None, cm) = (w, e, cm')"
      using prod_cases3 by blast
    let ?rn1 = "rn\<lparr>rn_cb := CWrite pod (to_task_params sp) ?ids [] None\<rparr>"
    let ?rn2 = "rn\<lparr>rn_agent := (rn_agent rn)\<lparr>mapOps := ?s\<lparr>am_cgroup := Some cm'\<rparr>\<rparr>, rn_cb := CWrite pod (to_task_params sp) [] w e\<rparr>"
    have "(?step ^^ 1) rn = ?rn1"
      using assms(1) m by (simp add: callback_step_def begin_update_def Let_def)
    moreover have "(?step ^^ length ?ids) ?rn1 = ?rn2"
      using write_loop [of ?rn1 pod "to_task_params sp" ?ids "[]" None cm cgio w e cm' L pidio order t] m(2) loop by simp
    moreover have "(?step ^^ 1) ?rn2 = rn\<lparr>rn_agent := (rn_agent rn)\<lparr>mapOps := s'\<rparr>, rn_cb := CFinish pod err\<rparr>"
      using assms(2) m loop
      by (auto simp: callback_step_def write_one_def UpdatePodParams_def writeCgroupParams_def put_loop_def Let_def)
    ultimately show ?thesis by (blast intro: callback_add)
  next
    case False
    then have "(?step ^^ 1) rn = rn\<lparr>rn_agent := (rn_agent rn)\<lparr>mapOps := s'\<rparr>, rn_cb := CFinish pod err\<rparr>"
      using assms
      by (cases "am_task ?s"; cases "am_cgroup ?s")
        (auto simp: callback_step_def begin_update_def UpdatePodParams_def Let_def split: prod.splits)
    then show ?thesis by blast
  qed
qed

lemma emit_one: "emitEvent ev (a\<lparr>ag_resolver := r\<rparr>) = (emitEvent ev a)\<lparr>ag_resolver := r\<rparr>"
  by (simp add: emitEvent_def)

lemma emit_resolver:
  "fold (\<lambda>(name, err). emitEvent (PolicyCelError name err)) es (a\<lparr>ag_resolver := r\<rparr>) =
   (fold (\<lambda>(name, err). emitEvent (PolicyCelError name err)) es a)\<lparr>ag_resolver := r\<rparr>"
  by (induction es arbitrary: a) (auto simp: emit_one)

lemma resolve_pod_split:
  "resolve_pod L order pod a =
     (case match_pod L order pod a of
        (matched, a) \<Rightarrow>
          (resolve_params pod matched,
           a\<lparr>ag_resolver := trackMatchedPods (map pol_Name matched) (pod_uid pod) (ag_resolver a)\<rparr>))"
  by (simp add: resolve_pod_def match_pod_def Resolve_def emit_resolver trackMatchedPods_def split: prod.splits)

lemma onPodUpdate_steps:
  assumes "rn_cb rn = CResolve pod"
  shows "\<exists>n. (callback_step L cgio pidio order t ^^ n) rn =
    rn\<lparr>rn_agent := onPodUpdate L (surround cgio pidio (rn_env rn) order t) pod (rn_agent rn), rn_cb := CIdle\<rparr>"
proof -
  let ?step = "callback_step L cgio pidio order t"
  obtain matched a1 where m: "match_pod L order pod (rn_agent rn) = (matched, a1)" by fastforce
  let ?a2 = "a1\<lparr>ag_resolver := trackMatchedPods (map pol_Name matched) (pod_uid pod) (ag_resolver a1)\<rparr>"
  obtain err s where u: "UpdatePodParams cgio pidio (rn_env rn) t (Some pod) [resolve_params pod matched] (mapOps ?a2) = (err, s)"
    by fastforce
  let ?rn2 = "rn\<lparr>rn_agent := ?a2, rn_cb := CUpdate pod (resolve_params pod matched)\<rparr>"
  let ?rn3 = "rn\<lparr>rn_agent := ?a2\<lparr>mapOps := s\<rparr>, rn_cb := CFinish pod err\<rparr>"
  have "(?step ^^ 2) rn = ?rn2" using assms m by (simp add: callback_step_def numeral_2_eq_2 Let_def)
  moreover have "\<exists>n. (?step ^^ n) ?rn2 = ?rn3"
    using update_steps [of ?rn2 pod "resolve_params pod matched" cgio pidio t err s L order] u by simp
  moreover have "(?step ^^ 1) ?rn3 =
      rn\<lparr>rn_agent := onPodUpdate L (surround cgio pidio (rn_env rn) order t) pod (rn_agent rn), rn_cb := CIdle\<rparr>"
    using u by (simp add: callback_step_def end_update_def onPodUpdate_def resolve_pod_split m surround_def Let_def)
  ultimately show ?thesis by (blast intro: callback_add)
qed

lemma callback_alone:
  assumes "rn_cb rn = CIdle"
  shows "\<exists>n. (callback_step L cgio pidio order t ^^ n) (deliver ev rn) =
    rn\<lparr>rn_agent := handle_pod_event L (surround cgio pidio (rn_env rn) order t) ev (rn_agent rn)\<rparr>"
proof -
  let ?step = "callback_step L cgio pidio order t"
  have idle: "rn\<lparr>rn_agent := a, rn_cb := CIdle\<rparr> = rn\<lparr>rn_agent := a\<rparr>" for a
    using assms by (cases rn) simp
  consider "watch_event ev = None" | pod where "watch_event ev = Some (OnAdd pod)"
    | pod where "watch_event ev = Some (OnDelete pod)"
    by (metis callback.exhaust option.exhaust)
  then show ?thesis
  proof cases
    case 1
    then show ?thesis using assms by (intro exI [of _ 0]) (simp add: deliver_def handle_pod_event_def)
  next
    case (2 pod)
    then show ?thesis
      using onPodUpdate_steps [of "rn\<lparr>rn_cb := CResolve pod\<rparr>" pod L cgio pidio order t] assms
      by (simp add: deliver_def handle_pod_event_def idle)
  next
    case (3 pod)
    then show ?thesis
      using assms by (intro exI [of _ 1]) (simp add: deliver_def handle_pod_event_def callback_step_def surround_def idle)
  qed
qed

subsection \<open>Weights\<close>

definition weight_ok :: "task_params \<Rightarrow> bool" where
  "weight_ok tp \<longleftrightarrow> 1 \<le> uint (weight tp) \<and> uint (weight tp) \<le> 10000"

definition policy_valid :: "'sel policy \<Rightarrow> bool" where
  "policy_valid p \<longleftrightarrow> 0 \<le> sint (Weight p) \<and> sint (Weight p) \<le> 10000"

text \<open>The contents of a map, empty while it is not open.\<close>

definition contents :: "('k \<rightharpoonup> task_params) option \<Rightarrow> ('k \<rightharpoonup> task_params)" where
  "contents m = (case m of None \<Rightarrow> Map.empty | Some m \<Rightarrow> m)"

definition maps_ok :: "agent_maps \<Rightarrow> bool" where
  "maps_ok s \<longleftrightarrow> (\<forall>tp \<in> ran (contents (am_task s)). weight_ok tp) \<and> (\<forall>tp \<in> ran (contents (am_cgroup s)). weight_ok tp)"

definition callback_ok :: "'sel callback_state \<Rightarrow> bool" where
  "callback_ok cb =
     (case cb of
        CTrack pod matched \<Rightarrow> list_all policy_valid matched
      | CUpdate pod sp \<Rightarrow> weight_ok (to_task_params sp)
      | CWrite pod tp todo written err \<Rightarrow> weight_ok tp
      | _ \<Rightarrow> True)"

definition run_ok :: "('sel, 'x, 'p) running \<Rightarrow> bool" where
  "run_ok rn \<longleftrightarrow> maps_ok (mapOps (rn_agent rn)) \<and> policies_valid (ag_resolver (rn_agent rn)) \<and> callback_ok (rn_cb rn)"

text \<open>What the API server admits under the CRD schema.\<close>

definition admitted :: "('u \<Rightarrow> 'sel policy option) \<Rightarrow> ('u, 'sel) run_label \<Rightarrow> bool" where
  "admitted conv l =
     (case l of
        PolicyEvent (PolicyAdd obj) \<Rightarrow> pred_option policy_valid (unstructuredToPolicy conv obj)
      | PolicyEvent (PolicyUpdate obj) \<Rightarrow> pred_option policy_valid (unstructuredToPolicy conv obj)
      | PolicyEvent (PolicyPoll (Some items)) \<Rightarrow> list_all policy_valid items
      | _ \<Rightarrow> True)"

lemma policies_valid_iff: "policies_valid r \<longleftrightarrow> (\<forall>name p. rs_policies r name = Some p \<longrightarrow> policy_valid p)"
  by (auto simp: policies_valid_def policy_valid_def ran_def)

lemma put_policy_valid:
  "policy_valid p \<Longrightarrow> \<forall>name q. m name = Some q \<longrightarrow> policy_valid q \<Longrightarrow> put_policy p m name = Some q \<Longrightarrow> policy_valid q"
  by (auto simp: put_policy_apply split: if_splits)

lemma put_policies_valid:
  "list_all policy_valid items \<Longrightarrow> \<forall>name q. m name = Some q \<longrightarrow> policy_valid q \<Longrightarrow>
   fold put_policy items m name = Some q \<Longrightarrow> policy_valid q"
proof (induction items arbitrary: m)
  case (Cons p items)
  have p: "policy_valid p" using Cons.prems(1) by simp
  have "\<forall>name q. put_policy p m name = Some q \<longrightarrow> policy_valid q"
    using put_policy_valid [OF p Cons.prems(2)] by blast
  with Cons.IH [of "put_policy p m"] Cons.prems(1,3) show ?case by simp
qed simp

lemma handlePolicy_valid:
  assumes "admitted conv (PolicyEvent ev)" "policies_valid r"
  shows "policies_valid (handlePolicy conv ev r)"
proof -
  have v: "\<forall>name q. rs_policies r name = Some q \<longrightarrow> policy_valid q" using assms(2) by (simp add: policies_valid_iff)
  have add: "policies_valid (addPolicy p r)" if "policy_valid p" for p
    using put_policy_valid [OF that v] by (auto simp: policies_valid_iff addPolicy_def)
  show ?thesis
  proof (cases ev)
    case (PolicyPoll result)
    then show ?thesis
      using assms v put_policies_valid [OF _ v]
      by (auto simp: handlePolicy_def refreshPolicies_def policies_valid_iff admitted_def Let_def
          split: option.splits if_splits)
  qed (use assms add in \<open>auto simp: handlePolicy_def removePolicy_def admitted_def policies_valid_iff
      split: option.splits if_splits\<close>)
qed

lemma matched_subset: "set (fst (getMatchingPolicies L pod ps r)) \<subseteq> set ps"
  by (induction ps arbitrary: r) (auto simp: case_prod_unfold)

lemma matched_tables: "rs_policies (snd (getMatchingPolicies L pod ps r)) = rs_policies r"
proof (induction ps arbitrary: r)
  case (Cons p ps)
  have "rs_policies (snd (policyMatches L pod p r)) = rs_policies r"
    by (simp add: policyMatches_def celConditionPasses_def Let_def split: prod.splits sum.splits)
  with Cons.IH show ?case by (simp add: case_prod_unfold)
qed simp

lemma resolve_params_weight:
  assumes "list_all policy_valid matched"
  shows "weight_ok (to_task_params (resolve_params pod matched))"
proof -
  have "Max (insert 0 (asked_weight ` set matched)) \<le> 10000"
    using assms by (auto simp: list_all_iff policy_valid_def asked_weight_def)
  then have "uint (fst (fold merge_policy matched (0, 0))) \<le> 10000"
    using merge_fold(1) [of matched "(0, 0)"] by simp
  moreover have "1 \<le> uint (qosDefaultWeight q) \<and> uint (qosDefaultWeight q) \<le> 10000" for q
    by (simp add: qosDefaultWeight_def)
  ultimately show ?thesis
    using annotation_weight_range [of "pod_annotations pod"]
    by (auto simp: resolve_params_def weight_ok_def to_task_params_def case_prod_unfold Let_def uint_pos)
qed

text \<open>Every step keeps the weights in range: puts write a weight in range, deletes remove entries.\<close>

lemma contents_simps [simp]: "contents None = Map.empty" "contents (Some m) = m"
  by (simp_all add: contents_def)

lemma put_step_ok:
  assumes "kernel_map io" "weight_ok tp" "\<forall>v \<in> ran m. weight_ok v" "put_step io tp k (w, e, m) = (w', e', m')"
  shows "\<forall>v \<in> ran m'. weight_ok v"
proof (cases "mput io k tp m")
  case (Some m1)
  then have "m' = m(k \<mapsto> tp)" using kernel_map.put_ok [OF assms(1) Some] assms(4) by (simp add: put_step_def)
  then show ?thesis using assms(2,3) by (auto simp: ran_def split: if_splits)
qed (use assms in \<open>simp add: put_step_def\<close>)

lemma restrict_ran: "v \<in> ran (m |` A) \<Longrightarrow> v \<in> ran m"
  by (auto simp: ran_def restrict_map_def split: if_splits)

lemma pid_fallback_ok:
  assumes "kernel_map io" "weight_ok tp" "am_task s = Some tm" "maps_ok s"
  shows "maps_ok (snd (pid_fallback io env t uid tp tm s))"
proof -
  obtain pids pc where r: "resolvePodPIDs env t (am_proc s) uid = (pids, pc)" by fastforce
  obtain w e tm' where l: "put_loop io tp pids tm = (w, e, tm')" using prod_cases3 by blast
  have "tm' = (\<lambda>k. if k \<in> set w then Some tp else tm k)" using kernel_map.put_loop_spec [OF assms(1) l] by blast
  then have "\<forall>v \<in> ran tm'. weight_ok v" using assms(2-4) by (auto simp: maps_ok_def ran_def split: if_splits)
  with assms(4) show ?thesis by (simp add: pid_fallback_def r l maps_ok_def Let_def)
qed

lemma begin_update_ok:
  assumes "kernel_map pidio" "maps_ok s" "weight_ok (to_task_params sp)"
  shows "maps_ok (snd (begin_update pidio env t pod sp s)) \<and> callback_ok (fst (begin_update pidio env t pod sp s))"
  using assms pid_fallback_ok [OF assms(1,3)]
  by (auto simp: begin_update_def callback_ok_def Let_def split: option.splits prod.splits)
    (metis snd_conv)+

lemma write_one_put:
  assumes "\<not> (todo = [] \<or> am_cgroup s = None)"
  obtains k ks cm w e cm' where "todo = k # ks" "am_cgroup s = Some cm" "put_step cgio tp k (written, err, cm) = (w, e, cm')"
  using assms prod_cases3 by (metis list.exhaust option.exhaust)

lemma write_one_ok:
  assumes "kernel_map cgio" "maps_ok s" "weight_ok tp"
  shows "maps_ok (snd (write_one cgio pod tp todo written err s)) \<and> callback_ok (fst (write_one cgio pod tp todo written err s))"
proof (cases "todo = [] \<or> am_cgroup s = None")
  case False
  then obtain k ks cm w e cm' where p: "todo = k # ks" "am_cgroup s = Some cm"
      "put_step cgio tp k (written, err, cm) = (w, e, cm')"
    by (rule write_one_put)
  then show ?thesis
    using assms(2,3) put_step_ok [OF assms(1,3) _ p(3)] by (simp add: write_one_def maps_ok_def callback_ok_def)
qed (use assms(2) in \<open>auto simp: write_one_def maps_ok_def callback_ok_def split: list.splits\<close>)

lemma RemovePodParams_ok:
  assumes "kernel_map cgio" "kernel_map pidio" "maps_ok s"
  shows "maps_ok (RemovePodParams cgio pidio env t p s)"
  using assms(3) kernel_map.del_loop_spec [OF assms(1)] kernel_map.del_loop_spec [OF assms(2)]
  by (auto simp: RemovePodParams_def maps_ok_def Let_def dest!: restrict_ran split: option.splits prod.splits)

lemma cleanStalePIDs_ok: "kernel_map pidio \<Longrightarrow> maps_ok s \<Longrightarrow> maps_ok (cleanStalePIDs pidio env s)"
  by (auto simp: cleanStalePIDs_def kernel_map.del_loop_spec maps_ok_def Let_def dest!: restrict_ran split: option.splits)

lemma sweep_step_ok:
  assumes "kernel_map cgio" "kernel_map pidio" "run_ok rn"
  shows "run_ok (sweep_step cgio pidio rn)"
proof (cases "rn_sweep rn")
  case (SStale ks)
  then show ?thesis
    using assms(3) kernel_map.del_loop_spec [OF assms(1)]
    by (cases ks; cases "am_cgroup (mapOps (rn_agent rn))")
      (auto simp: sweep_step_def run_ok_def maps_ok_def Let_def dest!: restrict_ran)
qed (use assms cleanStalePIDs_ok in \<open>auto simp: sweep_step_def run_ok_def Let_def split: option.splits\<close>)

lemma match_pod_sel:
  "set (fst (match_pod L order pod a)) \<subseteq> ran (rs_policies (ag_resolver a))"
  "mapOps (snd (match_pod L order pod a)) = mapOps a"
  "rs_policies (ag_resolver (snd (match_pod L order pod a))) = rs_policies (ag_resolver a)"
  using matched_subset [of L pod "List.map_filter (rs_policies (ag_resolver a)) order" "ag_resolver a"]
    matched_tables [of L pod "List.map_filter (rs_policies (ag_resolver a)) order" "ag_resolver a"]
  by (auto simp: match_pod_def set_map_filter ran_def split: prod.splits)

lemma end_update_sel [simp]:
  "mapOps (end_update order pod err a) = mapOps a" "ag_resolver (end_update order pod err a) = ag_resolver a"
  by (simp_all add: end_update_def Let_def split: option.splits)

lemma policies_valid_cong: "rs_policies r' = rs_policies r \<Longrightarrow> policies_valid r' = policies_valid r"
  by (simp add: policies_valid_def)

lemma callback_step_ok:
  assumes "kernel_map cgio" "kernel_map pidio" "run_ok rn"
  shows "run_ok (callback_step L cgio pidio order t rn)"
proof (cases "rn_cb rn")
  case (CResolve pod)
  have "list_all policy_valid (fst (match_pod L order pod (rn_agent rn)))"
    using assms(3) match_pod_sel(1) [of L order pod "rn_agent rn"]
    by (auto simp: run_ok_def policies_valid_iff list_all_iff ran_def)
  with CResolve show ?thesis
    using assms(3) match_pod_sel(2,3) [of L order pod "rn_agent rn"]
    by (auto simp: callback_step_def Let_def run_ok_def callback_ok_def case_prod_unfold policies_valid_def)
next
  case (CTrack pod matched)
  then show ?thesis
    using assms(3) resolve_params_weight [of matched pod]
    by (simp add: callback_step_def Let_def run_ok_def callback_ok_def policies_valid_def trackMatchedPods_def)
next
  case (CUpdate pod sp)
  then show ?thesis
    using assms(3) begin_update_ok [OF assms(2), of "mapOps (rn_agent rn)" sp "rn_env rn" t pod]
    by (simp add: callback_step_def Let_def run_ok_def callback_ok_def [of "CUpdate pod sp"] case_prod_unfold)
next
  case (CWrite pod tp todo written err)
  then show ?thesis
    using assms(3) write_one_ok [OF assms(1), of "mapOps (rn_agent rn)" tp pod todo written err]
    by (simp add: callback_step_def Let_def run_ok_def callback_ok_def [of "CWrite pod tp todo written err"] case_prod_unfold)
next
  case (CRemove pod)
  then show ?thesis
    using assms(3) RemovePodParams_ok [OF assms(1,2)]
    by (simp add: callback_step_def run_ok_def callback_ok_def onPodDelete_def Let_def)
qed (use assms(3) in \<open>simp_all add: callback_step_def Let_def run_ok_def callback_ok_def\<close>)

lemma run_step_ok:
  assumes "kernel_map cgio" "kernel_map pidio" "admitted conv l" "run_ok rn"
  shows "run_ok (run_step L conv cgio pidio l rn)"
proof (cases l)
  case (PodEvent ev)
  then show ?thesis
    using assms(4) by (auto simp: run_step_def deliver_def run_ok_def callback_ok_def
        split: callback_state.splits option.splits callback.splits)
next
  case (PolicyEvent ev)
  then show ?thesis using assms(3,4) handlePolicy_valid by (auto simp: run_step_def run_ok_def)
next
  case (Callback order t)
  then show ?thesis by (simp add: run_step_def callback_step_ok [OF assms(1,2,4)])
next
  case Sweep
  then show ?thesis by (simp add: run_step_def sweep_step_ok [OF assms(1,2,4)])
qed (use assms(4) in \<open>simp add: run_step_def run_ok_def\<close>)

lemma run_agent_ok:
  assumes "kernel_map cgio" "kernel_map pidio" "list_all (admitted conv) ls" "run_ok rn"
  shows "run_ok (run_agent L conv cgio pidio ls rn)"
  using assms(3,4) by (induction ls arbitrary: rn) (simp_all add: run_step_ok [OF assms(1,2)])

lemma charge_in_range:
  assumes "weight_ok tp"
  shows "uint (vtime_charge (task_slice tp) (weight tp)) = uint (task_slice tp) * 10000 div uint (weight tp) \<and>
    uint (vtime_charge (task_slice tp) (weight tp)) \<le> 50000000000"
proof -
  have sl: "uint (task_slice tp) \<le> 5000000" by (simp add: task_slice_budget)
  have c: "uint (vtime_charge (task_slice tp) (weight tp)) = spec_charge (uint (task_slice tp)) (uint (weight tp))"
    by (rule uint_vtime_charge [OF sl])
  moreover have "\<dots> \<le> 50000000000"
    using spec_charge_le [of "uint (task_slice tp)" "uint (weight tp)"] sl by simp
  ultimately show ?thesis using assms by (simp add: spec_charge_def weight_ok_def max_def)
qed

lemma effective_ok: "maps_ok s \<Longrightarrow> weight_ok (snd (effective_params (contents (am_task s)) (contents (am_cgroup s)) pid cg))"
  by (auto simp: effective_params_def maps_ok_def ran_def weight_ok_def sched_consts split: option.splits)

text \<open>
  C5 (weights_in_range). In every interleaving of pod callbacks, policy events, sweeps and changes of the
  node, what the scheduler finds for any task has a weight from 1 to 10000, provided policies
  pass the CRD schema and the maps start out that way, so that the charge for a slice is at most
  50 s of virtual time and never a division by zero. Annotations need no such proviso.
\<close>

theorem weights_in_range:
  fixes L env and pid :: u32 and cg :: u64
  assumes "kernel_map cgio" "kernel_map pidio" "list_all (admitted conv) ls"
    and "maps_ok (mapOps a)" "policies_valid (ag_resolver a)"
  defines "s \<equiv> mapOps (rn_agent (run_agent L conv cgio pidio ls (run_start a env)))"
  defines "tp \<equiv> snd (effective_params (contents (am_task s)) (contents (am_cgroup s)) pid cg)"
  shows "1 \<le> uint (weight tp) \<and> uint (weight tp) \<le> 10000 \<and>
    uint (vtime_charge (task_slice tp) (weight tp)) = uint (task_slice tp) * 10000 div uint (weight tp) \<and>
    uint (vtime_charge (task_slice tp) (weight tp)) \<le> 50000000000"
proof -
  have "run_ok (run_start a env)" using assms(4,5) by (simp add: run_ok_def run_start_def callback_ok_def)
  from run_agent_ok [OF assms(1-3) this, of L] have "maps_ok s" by (simp add: s_def run_ok_def)
  then have "weight_ok tp" unfolding tp_def by (rule effective_ok)
  then show ?thesis using charge_in_range [of tp] by (simp add: weight_ok_def)
qed

subsection \<open>The sweep among the callbacks\<close>

text \<open>The sweep in progress does not threaten the entry of a cgroup.\<close>

definition spares :: "u64 \<Rightarrow> sweep_state \<Rightarrow> bool" where
  "spares k sw = (case sw of SLive live \<Rightarrow> k \<in> live | SStale ks \<Rightarrow> k \<notin> set ks | _ \<Rightarrow> True)"

text \<open>
  The pods \<open>D\<close> may be deleted, and none of their cgroups is \<open>k\<close>: not in the tree of the node, where \<open>k\<close> exists, \dots
\<close>

definition elsewhere :: "string list \<Rightarrow> u64 \<Rightarrow> node_env \<Rightarrow> bool" where
  "elsewhere D k env \<longleftrightarrow> k \<in> liveKubepodsCgroupIDs env \<and> (\<forall>u \<in> set D. k \<notin> set (resolvePodCgroupIDs env u))"

text \<open>\dots not among the keys recorded for them, \dots\<close>

definition unrecorded :: "string list \<Rightarrow> u64 \<Rightarrow> agent_maps \<Rightarrow> bool" where
  "unrecorded D k s \<longleftrightarrow> (\<forall>u \<in> set D. k \<notin> set (recorded (podCgroupIDs s) u))"

text \<open>\dots and not in the callback in progress, which removes only such pods.\<close>

definition callback_spares :: "string list \<Rightarrow> u64 \<Rightarrow> 'sel callback_state \<Rightarrow> bool" where
  "callback_spares D k cb =
     (case cb of
        CWrite pod tp todo written err \<Rightarrow> pod_uid pod \<in> set D \<longrightarrow> k \<notin> set todo \<union> set written
      | CRemove pod \<Rightarrow> pod_uid pod \<in> set D
      | _ \<Rightarrow> True)"

text \<open>Steps that remove only such pods, and do not take away the cgroup.\<close>

definition keeps_cgroup :: "string list \<Rightarrow> u64 \<Rightarrow> ('u, 'sel) run_label \<Rightarrow> bool" where
  "keeps_cgroup D k l =
     (case l of
        PodEvent ev \<Rightarrow> (case watch_event ev of Some (OnDelete pod) \<Rightarrow> pod_uid pod \<in> set D | _ \<Rightarrow> True)
      | NodeChange env \<Rightarrow> elsewhere D k env
      | _ \<Rightarrow> True)"

definition entry_safe :: "string list \<Rightarrow> u64 \<Rightarrow> ('sel, 'x, 'p) running \<Rightarrow> bool" where
  "entry_safe D k rn \<longleftrightarrow> elsewhere D k (rn_env rn) \<and> spares k (rn_sweep rn) \<and> callback_spares D k (rn_cb rn) \<and>
     unrecorded D k (mapOps (rn_agent rn)) \<and> k \<in> dom (contents (am_cgroup (mapOps (rn_agent rn))))"

lemma put_step_keeps:
  assumes "kernel_map io" "put_step io tp k' (w, e, m) = (w', e', m')" "k \<in> dom m"
  shows "k \<in> dom m'"
proof (cases "mput io k' tp m")
  case (Some m1)
  then have "m' = m(k' \<mapsto> tp)" using kernel_map.put_ok [OF assms(1) Some] assms(2) by (simp add: put_step_def)
  with assms(3) show ?thesis by simp
qed (use assms in \<open>simp add: put_step_def\<close>)

lemma pid_fallback_cgroup [simp]: "am_cgroup (snd (pid_fallback io env t uid tp tm s)) = am_cgroup s"
  by (simp add: pid_fallback_def Let_def case_prod_unfold)

lemma pid_fallback_recorded [simp]: "podCgroupIDs (snd (pid_fallback io env t uid tp tm s)) = podCgroupIDs s"
  by (simp add: pid_fallback_def Let_def case_prod_unfold)

lemma begin_update_sel [simp]:
  "podCgroupIDs (snd (begin_update pidio env t pod sp s)) = podCgroupIDs s"
  "am_cgroup (snd (begin_update pidio env t pod sp s)) = am_cgroup s"
  by (simp_all add: begin_update_def Let_def case_prod_unfold split: option.splits)

lemma begin_update_keeps: "elsewhere D k env \<Longrightarrow> callback_spares D k (fst (begin_update pidio env t pod sp s))"
  by (simp add: begin_update_def Let_def case_prod_unfold callback_spares_def elsewhere_def split: option.splits)

lemma put_step_written: "put_step io tp k (w, e, m) = (w', e', m') \<Longrightarrow> set w' \<subseteq> insert k (set w)"
  by (auto simp: put_step_def split: option.splits)

lemma write_one_keeps:
  fixes s
  assumes "kernel_map cgio" "k \<in> dom (contents (am_cgroup s))" "unrecorded D k s" "callback_spares D k (CWrite pod tp todo written err)"
  defines "r \<equiv> write_one cgio pod tp todo written err s"
  shows "k \<in> dom (contents (am_cgroup (snd r))) \<and> unrecorded D k (snd r) \<and> callback_spares D k (fst r)"
proof (cases "todo = [] \<or> am_cgroup s = None")
  case False
  then obtain k' ks cm w e cm' where p: "todo = k' # ks" "am_cgroup s = Some cm"
      "put_step cgio tp k' (written, err, cm) = (w, e, cm')"
    by (rule write_one_put)
  then show ?thesis
    using assms(2-4) put_step_keeps [OF assms(1) p(3), of k] put_step_written [OF p(3)]
    by (auto simp: r_def write_one_def unrecorded_def callback_spares_def)
next
  case True
  then have "r = (CFinish pod (map_option PutCgroup err),
      if pod_uid pod \<noteq> [] then s\<lparr>podCgroupIDs := (podCgroupIDs s)(pod_uid pod \<mapsto> written)\<rparr> else s)"
    by (auto simp: r_def write_one_def split: list.splits)
  then show ?thesis using assms(2-4) by (auto simp: unrecorded_def callback_spares_def recorded_def)
qed

lemma remove_keeps:
  fixes s pidio t
  assumes "kernel_map cgio" "elsewhere D k env" "unrecorded D k s" "pod_uid pod \<in> set D" "k \<in> dom (contents (am_cgroup s))"
  defines "s' \<equiv> RemovePodParams cgio pidio env t (Some pod) s"
  shows "unrecorded D k s' \<and> k \<in> dom (contents (am_cgroup s'))"
proof -
  have "k \<notin> set (recorded (podCgroupIDs s) (pod_uid pod)) \<union> set (resolvePodCgroupIDs env (pod_uid pod))"
    using assms(2-4) by (auto simp: elsewhere_def unrecorded_def)
  moreover have "podCgroupIDs s' = podCgroupIDs s \<or> podCgroupIDs s' = (podCgroupIDs s)(pod_uid pod := None)"
    by (auto simp: s'_def RemovePodParams_def Let_def case_prod_unfold split: option.splits)
  ultimately show ?thesis
    using assms(3,5) kernel_map.del_loop_spec [OF assms(1)]
    by (auto simp: s'_def RemovePodParams_def Let_def case_prod_unfold unrecorded_def recorded_def split: option.splits)
qed

lemma callback_keeps:
  assumes "kernel_map cgio" "entry_safe D k rn"
  shows "entry_safe D k (callback_step L cgio pidio order t rn)"
proof (cases "rn_cb rn")
  case (CWrite pod tp todo written err)
  then show ?thesis
    using assms(2) write_one_keeps [OF assms(1), of k "mapOps (rn_agent rn)" D pod tp todo written err]
    by (auto simp: callback_step_def Let_def entry_safe_def case_prod_unfold)
next
  case (CUpdate pod sp)
  then show ?thesis
    using assms(2) by (simp add: callback_step_def Let_def entry_safe_def case_prod_unfold unrecorded_def begin_update_keeps)
next
  case (CRemove pod)
  then show ?thesis
    using assms(2) remove_keeps [OF assms(1), of D k "rn_env rn" "mapOps (rn_agent rn)" pod pidio t]
    by (auto simp: callback_step_def Let_def entry_safe_def onPodDelete_def callback_spares_def)
qed (use assms(2) in \<open>simp_all add: callback_step_def Let_def entry_safe_def callback_spares_def case_prod_unfold match_pod_sel\<close>)

lemma cleanStalePIDs_cgroup [simp]:
  "am_cgroup (cleanStalePIDs io env s) = am_cgroup s" "podCgroupIDs (cleanStalePIDs io env s) = podCgroupIDs s"
  by (simp_all add: cleanStalePIDs_def Let_def split: option.splits)

lemma sweep_keeps:
  assumes "kernel_map cgio" "entry_safe D k rn"
  shows "entry_safe D k (sweep_step cgio pidio rn)"
proof (cases "rn_sweep rn")
  case (SStale ks)
  then show ?thesis
    using assms(2) kernel_map.del_loop_spec [OF assms(1)]
    by (cases ks; cases "am_cgroup (mapOps (rn_agent rn))")
      (auto simp: sweep_step_def entry_safe_def spares_def unrecorded_def elsewhere_def Let_def)
next
  case (SLive live)
  then show ?thesis
    using assms(2) by (cases "am_cgroup (mapOps (rn_agent rn))") (auto simp: sweep_step_def entry_safe_def spares_def unrecorded_def elsewhere_def Let_def)
next
  case SPidsDone
  then show ?thesis
    using assms(2) by (cases "am_cgroup (mapOps (rn_agent rn))") (auto simp: sweep_step_def entry_safe_def spares_def unrecorded_def elsewhere_def Let_def)
next
  case SIdle
  then show ?thesis using assms(2) by (auto simp: sweep_step_def entry_safe_def spares_def unrecorded_def elsewhere_def Let_def)
qed

lemma run_step_keeps:
  assumes "kernel_map cgio" "keeps_cgroup D k l" "entry_safe D k rn"
  shows "entry_safe D k (run_step L conv cgio pidio l rn)"
proof (cases l)
  case (PodEvent ev)
  then show ?thesis
    using assms(2,3) by (auto simp: run_step_def deliver_def entry_safe_def keeps_cgroup_def callback_spares_def
        split: callback_state.splits option.splits callback.splits)
next
  case (Callback order t)
  then show ?thesis by (simp add: run_step_def callback_keeps [OF assms(1,3)])
next
  case Sweep
  then show ?thesis by (simp add: run_step_def sweep_keeps [OF assms(1,3)])
qed (use assms(2,3) in \<open>auto simp: run_step_def keeps_cgroup_def entry_safe_def\<close>)

lemma run_agent_keeps:
  assumes "kernel_map cgio" "list_all (keeps_cgroup D k) ls" "entry_safe D k rn"
  shows "entry_safe D k (run_agent L conv cgio pidio ls rn)"
  using assms(2,3) by (induction ls arbitrary: rn) (simp_all add: run_step_keeps [OF assms(1)])

text \<open>The sweep running to its end without interruption.\<close>

lemma run_sweep: "run_agent L conv cgio pidio (replicate n Sweep) rn = (sweep_step cgio pidio ^^ n) rn"
  by (induction n arbitrary: rn) (simp_all add: run_step_def funpow_swap1)

lemma sweep_add:
  "(sweep_step cgio pidio ^^ m) rn = rn1 \<Longrightarrow> (sweep_step cgio pidio ^^ n) rn1 = rn2 \<Longrightarrow>
   (sweep_step cgio pidio ^^ (n + m)) rn = rn2"
  by (simp add: funpow_add)

definition with_cgroup :: "(u64 \<rightharpoonup> task_params) \<Rightarrow> ('sel, 'x, 'p) running \<Rightarrow> ('sel, 'x, 'p) running" where
  "with_cgroup cm rn = rn\<lparr>rn_agent := (rn_agent rn)\<lparr>mapOps := (mapOps (rn_agent rn))\<lparr>am_cgroup := Some cm\<rparr>\<rparr>\<rparr>"

lemma sweep_deletes:
  assumes "kernel_map cgio" "rn_sweep rn = SStale ks" "am_cgroup (mapOps (rn_agent rn)) = Some cm"
  shows "(sweep_step cgio pidio ^^ length ks) rn = (with_cgroup (cm |` (- set ks)) rn)\<lparr>rn_sweep := SStale []\<rparr>"
  using assms(2,3)
proof (induction ks arbitrary: rn cm)
  case Nil
  have "rn = (with_cgroup cm rn)\<lparr>rn_sweep := SStale []\<rparr>" using Nil by (simp add: with_cgroup_def)
  then show ?case by (simp add: restrict_all)
next
  case (Cons k ks)
  let ?rn1 = "(with_cgroup (cm |` (- {k})) rn)\<lparr>rn_sweep := SStale ks\<rparr>"
  have "sweep_step cgio pidio rn = ?rn1"
    using Cons.prems kernel_map.del_loop_spec [OF assms(1), of "[k]"] by (simp add: sweep_step_def with_cgroup_def Let_def)
  moreover have "(sweep_step cgio pidio ^^ length ks) ?rn1 = (with_cgroup (cm |` (- {k}) |` (- set ks)) rn)\<lparr>rn_sweep := SStale []\<rparr>"
    using Cons.IH [of ?rn1 "cm |` (- {k})"] by (simp add: with_cgroup_def)
  ultimately show ?case unfolding restrict_twice by (simp add: funpow_swap1 del: funpow.simps(2)) (simp add: funpow_swap1)
qed

lemma sweep_finish:
  assumes "kernel_map cgio" "rn_sweep rn = SLive live" "am_cgroup (mapOps (rn_agent rn)) = Some cm" "finite (dom cm)"
  shows "\<exists>n. (sweep_step cgio pidio ^^ n) rn = (with_cgroup (cm |` live) rn)\<lparr>rn_sweep := SIdle\<rparr>"
proof -
  let ?ks = "filter (\<lambda>k. k \<notin> live) (miter cgio cm)"
  have "(sweep_step cgio pidio ^^ 1) rn = rn\<lparr>rn_sweep := SStale ?ks\<rparr>"
    using assms(2,3) by (simp add: sweep_step_def Let_def)
  moreover have "(sweep_step cgio pidio ^^ length ?ks) (rn\<lparr>rn_sweep := SStale ?ks\<rparr>) =
      (with_cgroup (cm |` (- set ?ks)) rn)\<lparr>rn_sweep := SStale []\<rparr>"
    using sweep_deletes [OF assms(1), of "rn\<lparr>rn_sweep := SStale ?ks\<rparr>" ?ks cm pidio] assms(3) by (simp add: with_cgroup_def)
  moreover have "cm |` (- set ?ks) = cm |` live"
    using kernel_map.iter_keys [OF assms(1,4)] by (auto simp: restrict_map_def fun_eq_iff domIff)
  moreover have "(sweep_step cgio pidio ^^ 1) ((with_cgroup m rn)\<lparr>rn_sweep := SStale []\<rparr>) = (with_cgroup m rn)\<lparr>rn_sweep := SIdle\<rparr>" for m
    by (simp add: sweep_step_def with_cgroup_def Let_def)
  ultimately show ?thesis by (metis sweep_add)
qed

lemma sweep_alone:
  assumes "kernel_map cgio" "rn_sweep rn = SIdle" "am_cgroup (mapOps (rn_agent rn)) = Some cm" "finite (dom cm)"
  shows "\<exists>n. (sweep_step cgio pidio ^^ n) rn =
    rn\<lparr>rn_agent := pid_cleanup_tick (surround cgio pidio (rn_env rn) order t) (rn_agent rn)\<rparr>"
proof -
  let ?live = "liveKubepodsCgroupIDs (rn_env rn)"
  let ?rn1 = "rn\<lparr>rn_agent := (rn_agent rn)\<lparr>mapOps := cleanStalePIDs pidio (rn_env rn) (mapOps (rn_agent rn))\<rparr>,
    rn_sweep := if ?live = {} then SIdle else SLive ?live\<rparr>"
  have two: "(sweep_step cgio pidio ^^ 2) rn = ?rn1"
    using assms(2,3) by (simp add: sweep_step_def numeral_2_eq_2 Let_def)
  show ?thesis
  proof (cases "?live = {}")
    case True
    then have "?rn1 = rn\<lparr>rn_agent := pid_cleanup_tick (surround cgio pidio (rn_env rn) order t) (rn_agent rn)\<rparr>"
      using assms(2,3) by (simp add: pid_cleanup_tick_def surround_def CleanStaleCgroupIDs_def Let_def)
    with two show ?thesis by metis
  next
    case False
    then have "\<exists>n. (sweep_step cgio pidio ^^ n) ?rn1 = (with_cgroup (cm |` ?live) ?rn1)\<lparr>rn_sweep := SIdle\<rparr>"
      using sweep_finish [OF assms(1), of ?rn1 ?live cm pidio] assms(3,4) by simp
    moreover have "(with_cgroup (cm |` ?live) ?rn1)\<lparr>rn_sweep := SIdle\<rparr> =
        rn\<lparr>rn_agent := pid_cleanup_tick (surround cgio pidio (rn_env rn) order t) (rn_agent rn)\<rparr>"
      using False assms kernel_map.sweep_spec [OF assms(1,4)]
      by (simp add: pid_cleanup_tick_def surround_def CleanStaleCgroupIDs_def with_cgroup_def Let_def)
    ultimately show ?thesis using two by (metis sweep_add)
  qed
qed

text \<open>
  C27 (steps_refine). A pod event whose callback is not interrupted by another goroutine has exactly the
  effect of the handler as one atomic operation: after finitely many steps the callback has
  returned, and maps, bookkeeping, resolver, events and gauges are those of \<open>handle_pod_event\<close>. In the
  same way a sweep that is not interrupted is one \<open>pid_cleanup_tick\<close>.
\<close>

theorem steps_refine:
  assumes "rn_cb rn = CIdle" "rn_sweep rn = SIdle"
    and "kernel_map cgio" "am_cgroup (mapOps (rn_agent rn)) = Some cm" "finite (dom cm)"
  shows "(\<exists>n. run_agent L conv cgio pidio (PodEvent ev # replicate n (Callback order t)) rn =
      rn\<lparr>rn_agent := handle_pod_event L (surround cgio pidio (rn_env rn) order t) ev (rn_agent rn)\<rparr>) \<and>
    (\<exists>n. run_agent L conv cgio pidio (replicate n Sweep) rn =
      rn\<lparr>rn_agent := pid_cleanup_tick (surround cgio pidio (rn_env rn) order t) (rn_agent rn)\<rparr>)"
  using callback_alone [OF assms(1)] sweep_alone [OF assms(3,2,4,5)] by (simp add: run_callback run_sweep run_step_def)

text \<open>
  C6 (sweep_spares_live). However the sweep is interleaved with callbacks that add, update and remove pods, with policy events and
  changes of the node, the entry of a cgroup stays in the map, provided that the cgroup exists all the time
  and no pod that has it is removed: a callback may be in progress, and the pods of \<open>D\<close>, none of which has the cgroup in the tree, in
  the bookkeeping or in the callback in progress, may be deleted at any time. The sweep may be in progress too, if
  it has not found the cgroup missing before.
\<close>

theorem sweep_spares_live:
  assumes "kernel_map cgio" "list_all (keeps_cgroup D cg) ls"
    and "spares cg (rn_sweep rn)" "callback_spares D cg (rn_cb rn)" "elsewhere D cg (rn_env rn)"
    and "unrecorded D cg (mapOps (rn_agent rn))" "am_cgroup (mapOps (rn_agent rn)) = Some cm" "cg \<in> dom cm"
  shows "\<exists>cm'. am_cgroup (mapOps (rn_agent (run_agent L conv cgio pidio ls rn))) = Some cm' \<and> cg \<in> dom cm'"
proof -
  have "entry_safe D cg rn" using assms(3-8) by (auto simp: entry_safe_def)
  from run_agent_keeps [OF assms(1,2) this, of L conv pidio]
  have "cg \<in> dom (contents (am_cgroup (mapOps (rn_agent (run_agent L conv cgio pidio ls rn)))))"
    by (simp add: entry_safe_def)
  then show ?thesis by (cases "am_cgroup (mapOps (rn_agent (run_agent L conv cgio pidio ls rn)))") auto
qed

lemma onPodUpdate_policies: "rs_policies (ag_resolver (onPodUpdate L cx pod a)) = rs_policies (ag_resolver a)"
  using match_pod_sel(3) [of L "cx_order cx" pod a]
  by (auto simp: onPodUpdate_def resolve_pod_split trackMatchedPods_def Let_def split: prod.splits option.splits)

text \<open>One callback that updates a pod through its cgroups.\<close>

lemma update_callback:
  assumes "kernel_map cgio" "rn_cb rn = CIdle" "watch_event ev = Some (OnAdd pod)"
    and "am_task (mapOps (rn_agent rn)) = Some tm" "am_cgroup (mapOps (rn_agent rn)) = Some cm"
    and "resolvePodCgroupIDs (rn_env rn) (pod_uid pod) \<noteq> []"
    and "fst (UpdatePodParams cgio pidio (rn_env rn) t (Some pod)
      [fst (Resolve L order pod (ag_resolver (rn_agent rn)))] (mapOps (rn_agent rn))) = None"
  obtains n rn' where "run_agent L conv cgio pidio (PodEvent ev # replicate n (Callback order t)) rn = rn'"
    "rn_cb rn' = CIdle" "rn_sweep rn' = rn_sweep rn" "rn_env rn' = rn_env rn" "am_task (mapOps (rn_agent rn')) = Some tm"
    "am_cgroup (mapOps (rn_agent rn')) = Some (\<lambda>k. if k \<in> set (resolvePodCgroupIDs (rn_env rn) (pod_uid pod))
       then Some (to_task_params (fst (Resolve L order pod (ag_resolver (rn_agent rn))))) else cm k)"
    "podCgroupIDs (mapOps (rn_agent rn')) (pod_uid pod) = Some (resolvePodCgroupIDs (rn_env rn) (pod_uid pod))"
    "rs_policies (ag_resolver (rn_agent rn')) = rs_policies (ag_resolver (rn_agent rn))"
proof -
  define a where "a = handle_pod_event L (surround cgio pidio (rn_env rn) order t) ev (rn_agent rn)"
  let ?sp = "fst (Resolve L order pod (ag_resolver (rn_agent rn)))"
  have "mapOps a = snd (UpdatePodParams cgio pidio (rn_env rn) t (Some pod) [?sp] (mapOps (rn_agent rn)))"
    using assms(3) by (simp add: a_def handle_pod_event_def onPodUpdate_maps surround_def)
  then have "UpdatePodParams cgio pidio (rn_env rn) t (Some pod) [?sp] (mapOps (rn_agent rn)) = (None, mapOps a)"
    using assms(7) by (metis prod.collapse)
  note upd = update_via_cgroups [OF assms(1,4-6) this]
  obtain n where n: "(callback_step L cgio pidio order t ^^ n) (deliver ev rn) = rn\<lparr>rn_agent := a\<rparr>"
    using callback_alone [OF assms(2), of L cgio pidio order t ev] unfolding a_def by blast
  have "rs_policies (ag_resolver a) = rs_policies (ag_resolver (rn_agent rn))"
    using assms(3) by (simp add: a_def handle_pod_event_def onPodUpdate_policies)
  note sel = upd this
  show ?thesis
  proof (rule that)
    show "run_agent L conv cgio pidio (PodEvent ev # replicate n (Callback order t)) rn = rn\<lparr>rn_agent := a\<rparr>"
      by (simp add: run_callback run_step_def n)
  qed (use assms(2,4) in \<open>simp_all add: sel\<close>)
qed

text \<open>
  C26 (sweep_loses_fresh). A cgroup created after the sweep has walked the tree is not spared: if the pod's
  parameters are written before the sweep reads the keys of the map, the sweep deletes them, although
  the cgroup exists, the pod is running and the bookkeeping still has it. The tasks of the pod then run with the default
  parameters until the next event for the pod.
\<close>

theorem sweep_loses_fresh:
  assumes "kernel_map cgio" "rn_cb rn = CIdle" "rn_sweep rn = SLive live" "pod_phase pod = ''Running''"
    and "am_task (mapOps (rn_agent rn)) = Some tm" "am_cgroup (mapOps (rn_agent rn)) = Some cm" "finite (dom cm)"
    and "cg \<in> set (resolvePodCgroupIDs (rn_env rn) (pod_uid pod))" "cg \<notin> live"
    and "fst (UpdatePodParams cgio pidio (rn_env rn) t (Some pod)
      [fst (Resolve L order pod (ag_resolver (rn_agent rn)))] (mapOps (rn_agent rn))) = None"
  shows "\<exists>n m rn' cm'. run_agent L conv cgio pidio
      (PodEvent (PodAdded (PodObj pod)) # replicate n (Callback order t) @ replicate m Sweep) rn = rn' \<and>
    rn_cb rn' = CIdle \<and> rn_sweep rn' = SIdle \<and> cg \<in> liveKubepodsCgroupIDs (rn_env rn') \<and>
    am_cgroup (mapOps (rn_agent rn')) = Some cm' \<and> cm' cg = None \<and>
    (tm pid = None \<longrightarrow> effective_params tm cm' pid cg = (False, \<lparr>weight = 1000, budget_ns = 0\<rparr>)) \<and>
    cg \<in> set (recorded (podCgroupIDs (mapOps (rn_agent rn'))) (pod_uid pod))"
proof -
  let ?ids = "resolvePodCgroupIDs (rn_env rn) (pod_uid pod)"
  have ev: "watch_event (PodAdded (PodObj pod)) = Some (OnAdd pod)" using assms(4) by (simp add: watch_event_def handlePodUpdate_def)
  have ids: "?ids \<noteq> []" using assms(8) by auto
  let ?cm1 = "\<lambda>k. if k \<in> set ?ids
      then Some (to_task_params (fst (Resolve L order pod (ag_resolver (rn_agent rn))))) else cm k"
  obtain n rn1 where rn1: "run_agent L conv cgio pidio (PodEvent (PodAdded (PodObj pod)) # replicate n (Callback order t)) rn = rn1"
      "rn_cb rn1 = CIdle" "rn_sweep rn1 = rn_sweep rn" "rn_env rn1 = rn_env rn" "am_task (mapOps (rn_agent rn1)) = Some tm"
      "am_cgroup (mapOps (rn_agent rn1)) = Some ?cm1" "podCgroupIDs (mapOps (rn_agent rn1)) (pod_uid pod) = Some ?ids"
      "rs_policies (ag_resolver (rn_agent rn1)) = rs_policies (ag_resolver (rn_agent rn))"
    by (rule update_callback [OF assms(1,2) ev assms(5,6) ids assms(10)])
  have "dom ?cm1 \<subseteq> set ?ids \<union> dom cm" by (auto split: if_splits)
  then have "finite (dom ?cm1)" by (rule finite_subset) (simp add: assms(7))
  from sweep_finish [OF assms(1) rn1(3) [unfolded assms(3)] rn1(6) this, of pidio] obtain m where
    m: "(sweep_step cgio pidio ^^ m) rn1 = (with_cgroup (?cm1 |` live) rn1)\<lparr>rn_sweep := SIdle\<rparr>" by blast
  have live: "cg \<in> liveKubepodsCgroupIDs (rn_env rn)" using pod_cgroups_live assms(8) by blast
  have "run_agent L conv cgio pidio (PodEvent (PodAdded (PodObj pod)) # replicate n (Callback order t) @ replicate m Sweep) rn =
      (with_cgroup (?cm1 |` live) rn1)\<lparr>rn_sweep := SIdle\<rparr>"
    using rn1(1) m by (simp add: run_sweep)
  moreover have "(?cm1 |` live) cg = None" using assms(9) by simp
  ultimately show ?thesis using rn1(2,4,7) live assms(8)
    by (intro exI [of _ n] exI [of _ m] exI [of _ "(with_cgroup (?cm1 |` live) rn1)\<lparr>rn_sweep := SIdle\<rparr>"]
        exI [of _ "?cm1 |` live"] conjI)
      (simp_all add: with_cgroup_def recorded_def effective_params_def sched_consts)
qed

subsection \<open>When policies change\<close>

text \<open>Policy events, pod events the watcher does not act on, and steps of a callback that is not running.\<close>

definition quiet :: "('u, 'sel) run_label \<Rightarrow> bool" where
  "quiet l =
     (case l of
        PodEvent ev \<Rightarrow> watch_event ev = None
      | Callback order t \<Rightarrow> True
      | PolicyEvent ev \<Rightarrow> True
      | _ \<Rightarrow> False)"

fun policy_events :: "('u, 'sel) run_label list \<Rightarrow> ('u, 'sel) policy_event list" where
  "policy_events [] = []"
| "policy_events (PolicyEvent ev # ls) = ev # policy_events ls"
| "policy_events (l # ls) = policy_events ls"

lemma resync_ignored: "watch_event (PodUpdated (PodObj pod) (PodObj pod)) = None"
  by (simp add: watch_event_def podRelevantFieldsChanged_def)

lemma handlePolicy_cong:
  "rs_policies r' = rs_policies r \<Longrightarrow> rs_policies (handlePolicy conv ev r') = rs_policies (handlePolicy conv ev r)"
  by (auto simp: handlePolicy_def addPolicy_def removePolicy_def refreshPolicies_def Let_def
      split: policy_event.splits option.splits)

lemma resolve_spec_cong: "rs_policies r' = rs_policies r \<Longrightarrow> resolve_spec L pod r' = resolve_spec L pod r"
  by (simp add: resolve_spec_def applying_def)

lemma quiet_run:
  assumes "rn_cb rn = CIdle" "list_all quiet ls" "rs_policies (ag_resolver (rn_agent rn)) = rs_policies r"
  shows "mapOps (rn_agent (run_agent L conv cgio pidio ls rn)) = mapOps (rn_agent rn) \<and>
    rs_policies (ag_resolver (rn_agent (run_agent L conv cgio pidio ls rn))) =
      rs_policies (fold (handlePolicy conv) (policy_events ls) r)"
  using assms
proof (induction ls arbitrary: rn r)
  case (Cons l ls)
  show ?case
  proof (cases l)
    case (PolicyEvent ev)
    let ?rn1 = "run_step L conv cgio pidio l rn"
    have "rn_cb ?rn1 = CIdle" "mapOps (rn_agent ?rn1) = mapOps (rn_agent rn)"
        "rs_policies (ag_resolver (rn_agent ?rn1)) = rs_policies (handlePolicy conv ev r)"
      using Cons.prems(1,3) PolicyEvent handlePolicy_cong [of "ag_resolver (rn_agent rn)" r]
      by (simp_all add: run_step_def)
    with Cons.IH [of ?rn1 "handlePolicy conv ev r"] Cons.prems(2) PolicyEvent show ?thesis by simp
  qed (use Cons.prems Cons.IH [of rn r] in \<open>simp_all add: quiet_def run_step_def deliver_def callback_step_def\<close>)
qed simp

text \<open>One callback that updates a pod, and what reaches the maps until the next one.\<close>

lemma params_kept:
  fixes ls :: "('u, 'sel) run_label list"
  assumes "kernel_map cgio" "rn_cb rn = CIdle" "watch_event ev = Some (OnAdd pod)"
    and "am_task (mapOps (rn_agent rn)) = Some tm" "am_cgroup (mapOps (rn_agent rn)) = Some cm"
    and "resolver_reach L conv clk (ag_resolver (rn_agent rn))" "order_of (ag_resolver (rn_agent rn)) order"
    and "cg \<in> set (resolvePodCgroupIDs (rn_env rn) (pod_uid pod))" "cg \<noteq> 0" "tm pid = None"
    and "fst (UpdatePodParams cgio pidio (rn_env rn) t (Some pod)
      [fst (Resolve L order pod (ag_resolver (rn_agent rn)))] (mapOps (rn_agent rn))) = None"
    and "list_all quiet ls"
  obtains n rn' cm' tp where
    "run_agent L conv cgio pidio (PodEvent ev # replicate n (Callback order t) @ ls) rn = rn'"
    "am_task (mapOps (rn_agent rn')) = Some tm" "am_cgroup (mapOps (rn_agent rn')) = Some cm'"
    "effective_params tm cm' pid cg = (True, tp)"
    "(uint (weight tp), uint (budget_ns tp)) = resolve_spec L pod (ag_resolver (rn_agent rn))"
    "resolve_spec L pod (ag_resolver (rn_agent rn')) =
      resolve_spec L pod (fold (handlePolicy conv) (policy_events ls) (ag_resolver (rn_agent rn)))"
proof -
  let ?ids = "resolvePodCgroupIDs (rn_env rn) (pod_uid pod)" and ?r = "ag_resolver (rn_agent rn)"
  let ?tp = "to_task_params (fst (Resolve L order pod ?r))"
  let ?cm1 = "\<lambda>k. if k \<in> set ?ids then Some ?tp else cm k"
  have ids: "?ids \<noteq> []" using assms(8) by auto
  obtain n rn1 where rn1: "run_agent L conv cgio pidio (PodEvent ev # replicate n (Callback order t)) rn = rn1"
      "rn_cb rn1 = CIdle" "rn_sweep rn1 = rn_sweep rn" "rn_env rn1 = rn_env rn" "am_task (mapOps (rn_agent rn1)) = Some tm"
      "am_cgroup (mapOps (rn_agent rn1)) = Some ?cm1" "podCgroupIDs (mapOps (rn_agent rn1)) (pod_uid pod) = Some ?ids"
      "rs_policies (ag_resolver (rn_agent rn1)) = rs_policies ?r"
    by (rule update_callback [OF assms(1-5) ids assms(11)])
  let ?rn2 = "run_agent L conv cgio pidio ls rn1"
  note q = quiet_run [OF rn1(2) assms(12) rn1(8), of L conv cgio pidio]
  have "run_agent L conv cgio pidio (PodEvent ev # replicate n (Callback order t) @ ls) rn = ?rn2" using rn1(1) by simp
  moreover have "(uint (weight ?tp), uint (budget_ns ?tp)) = resolve_spec L pod ?r"
    using Resolve_params_spec [OF resolver_reach_ok [OF assms(6)] assms(7)] by (simp add: to_task_params_def)
  moreover have "effective_params tm ?cm1 pid cg = (True, ?tp)"
    using assms(8-10) by (simp add: effective_params_def)
  moreover have "am_task (mapOps (rn_agent ?rn2)) = Some tm \<and> am_cgroup (mapOps (rn_agent ?rn2)) = Some ?cm1"
    using q rn1(5,6) by simp
  moreover have "resolve_spec L pod (ag_resolver (rn_agent ?rn2)) =
      resolve_spec L pod (fold (handlePolicy conv) (policy_events ls) ?r)"
    by (rule resolve_spec_cong) (simp add: q)
  ultimately show ?thesis using that by blast
qed

text \<open>
  C11 (params_at_last_event). The parameters of a running pod are those of the policies at the last event
  the watcher acted on for it. Policies that are added, changed or removed afterwards are in the resolver, but neither
  they nor updates of the pod that change none of the compared fields reach the maps, so the scheduler
  goes on with the old weight and budget whatever the documented rule now gives.
\<close>

theorem params_at_last_event:
  fixes ls :: "('u, 'sel) run_label list"
  assumes "kernel_map cgio" "rn_cb rn = CIdle" "watch_event ev = Some (OnAdd pod)"
    and "am_task (mapOps (rn_agent rn)) = Some tm" "am_cgroup (mapOps (rn_agent rn)) = Some cm"
    and "resolver_reach L conv clk (ag_resolver (rn_agent rn))" "order_of (ag_resolver (rn_agent rn)) order"
    and "cg \<in> set (resolvePodCgroupIDs (rn_env rn) (pod_uid pod))" "cg \<noteq> 0" "tm pid = None"
    and "fst (UpdatePodParams cgio pidio (rn_env rn) t (Some pod)
      [fst (Resolve L order pod (ag_resolver (rn_agent rn)))] (mapOps (rn_agent rn))) = None"
    and "list_all quiet ls"
  shows "\<exists>n rn' cm' tp. run_agent L conv cgio pidio (PodEvent ev # replicate n (Callback order t) @ ls) rn = rn' \<and>
    am_task (mapOps (rn_agent rn')) = Some tm \<and> am_cgroup (mapOps (rn_agent rn')) = Some cm' \<and>
    effective_params tm cm' pid cg = (True, tp) \<and>
    (uint (weight tp), uint (budget_ns tp)) = resolve_spec L pod (ag_resolver (rn_agent rn)) \<and>
    resolve_spec L pod (ag_resolver (rn_agent rn')) =
      resolve_spec L pod (fold (handlePolicy conv) (policy_events ls) (ag_resolver (rn_agent rn)))"
  by (rule params_kept [OF assms]) blast

subsection \<open>Concrete runs\<close>

abbreviation demo_cgio :: "u64 map_io" where "demo_cgio \<equiv> hash_io cgroup_params_map"

abbreviation demo_pidio :: "u32 map_io" where "demo_pidio \<equiv> hash_io task_params_map"

definition run_pod :: pod where
  "run_pod = web_pod\<lparr>pod_uid := ''u''\<rparr>"

text \<open>The node before the pod's cgroups are created.\<close>

definition early_env :: node_env where
  "early_env = demo_env\<lparr>root_fs := FsDir 1 [(''cg'', FsDir 2 [(''kubepods'', FsDir 3 [])])]\<rparr>"

lemma demo_live: "liveKubepodsCgroupIDs early_env = {3}" "liveKubepodsCgroupIDs demo_env = {3, 55, 56}"
  by code_simp+

lemma run_pod_sel: "pod_uid run_pod = ''u''" "pod_phase run_pod = ''Running''"
    "watch_event (PodAdded (PodObj run_pod)) = Some (OnAdd run_pod)"
  by (simp_all add: run_pod_def web_pod_def watch_event_def handlePodUpdate_def)

lemma demo_run_update:
  "am_task s = Some tm \<Longrightarrow> am_cgroup s = Some Map.empty \<Longrightarrow>
   fst (UpdatePodParams demo_cgio pidio demo_env t (Some run_pod) [sp] s) = None"
  by (simp add: UpdatePodParams_def run_pod_sel demo_ids writeCgroupParams_def put_loop_def put_step_def hash_io_def
      cgroup_params_map_def Let_def)

theorem steps_refine_witness:
  "\<exists>n. run_agent demo_libs Some demo_cgio demo_pidio (PodEvent (PodAdded (PodObj run_pod)) # replicate n (Callback [''b'', ''a''] 0))
     (run_start demo_agent demo_env) =
   run_start (handle_pod_event demo_libs (surround demo_cgio demo_pidio demo_env [''b'', ''a''] 0) (PodAdded (PodObj run_pod)) demo_agent) demo_env"
  using steps_refine [of "run_start demo_agent demo_env" demo_cgio Map.empty demo_libs Some demo_pidio
      "PodAdded (PodObj run_pod)" "[''b'', ''a'']" 0] cgroup_map.kernel_map_axioms
  by (simp add: run_start_def demo_agent_def demo_maps_def)

theorem weights_in_range_witness:
  "1 \<le> uint (weight (snd (effective_params
     (contents (am_task (mapOps (rn_agent (run_agent demo_libs Some demo_cgio demo_pidio
        [PodEvent (PodAdded (PodObj run_pod)), Callback [''b'', ''a''] 0, Sweep,
         PolicyEvent (PolicyAdd (Unstructured (demo_policy ''c'' 50 []))), Callback [] 1] (run_start demo_agent demo_env))))))
     (contents (am_cgroup (mapOps (rn_agent (run_agent demo_libs Some demo_cgio demo_pidio
        [PodEvent (PodAdded (PodObj run_pod)), Callback [''b'', ''a''] 0, Sweep,
         PolicyEvent (PolicyAdd (Unstructured (demo_policy ''c'' 50 []))), Callback [] 1] (run_start demo_agent demo_env)))))) 70 56)))"
proof -
  let ?ls = "[PodEvent (PodAdded (PodObj run_pod)), Callback [''b'', ''a''] 0, Sweep,
    PolicyEvent (PolicyAdd (Unstructured (demo_policy ''c'' 50 []))), Callback [] 1]"
  have "list_all (admitted Some) ?ls"
    by (simp add: admitted_def unstructuredToPolicy_def policy_valid_def demo_policy_def)
  moreover have "maps_ok (mapOps demo_agent)"
    by (simp add: maps_ok_def weight_ok_def demo_agent_def demo_maps_def)
  ultimately show ?thesis
    using weights_in_range [OF cgroup_map.kernel_map_axioms task_map.kernel_map_axioms _ _ demo_pipeline_pre(6),
        of Some ?ls demo_libs demo_env 70 56] by blast
qed

text \<open>The pod \<^verbatim>\<open>u\<close> has the cgroup 56; another pod is added and removed while the sweep runs.\<close>

definition other_pod :: pod where
  "other_pod = run_pod\<lparr>pod_uid := ''v''\<rparr>"

definition busy_state :: "(string \<times> string, string, string) running" where
  "busy_state = (run_start (demo_agent\<lparr>mapOps := demo_maps\<lparr>am_cgroup := Some [56 \<mapsto> \<lparr>weight = 5, budget_ns = 0\<rparr>],
     podCgroupIDs := [''u'' \<mapsto> [56], ''v'' \<mapsto> [77]]\<rparr>\<rparr>) demo_env)\<lparr>rn_cb := CRemove other_pod\<rparr>"

definition busy_labels :: "((string \<times> string) policy, string \<times> string) run_label list" where
  "busy_labels = [Sweep, Sweep, Callback [] 0, PodEvent (PodAdded (PodObj other_pod)), Callback [] 0, Callback [] 0, Sweep, Callback [] 0,
     NodeChange demo_env, Callback [] 0, PodEvent (PodDeleted (PodObj other_pod)), Sweep, Callback [] 1, Sweep]"

lemma other_pod_cgroups: "resolvePodCgroupIDs demo_env ''v'' = []"
  by code_simp

theorem sweep_spares_live_witness:
  "\<exists>cm. am_cgroup (mapOps (rn_agent (run_agent demo_libs Some demo_cgio demo_pidio busy_labels busy_state))) = Some cm \<and> 56 \<in> dom cm"
proof (rule sweep_spares_live [OF cgroup_map.kernel_map_axioms, of "[''v'']"])
  have e: "elsewhere [''v''] 56 demo_env" by (simp add: elsewhere_def other_pod_cgroups demo_live)
  have d: "watch_event (PodDeleted (PodObj other_pod)) = Some (OnDelete other_pod)" "watch_event (PodAdded (PodObj other_pod)) = Some (OnAdd other_pod)"
    by (simp_all add: other_pod_def run_pod_def web_pod_def watch_event_def handlePodUpdate_def)
  have u: "pod_uid other_pod = ''v''" by (simp add: other_pod_def)
  show "list_all (keeps_cgroup [''v''] 56) busy_labels" by (simp add: busy_labels_def keeps_cgroup_def d u e)
  show "elsewhere [''v''] 56 (rn_env busy_state)" by (simp add: busy_state_def run_start_def e)
  show "am_cgroup (mapOps (rn_agent busy_state)) = Some [56 \<mapsto> \<lparr>weight = 5, budget_ns = 0\<rparr>]" by (simp add: busy_state_def run_start_def)
qed (simp_all add: busy_state_def run_start_def spares_def callback_spares_def unrecorded_def recorded_def other_pod_def)

text \<open>The sweep has walked the tree before the pod's cgroups were created.\<close>

definition race_state :: "(string \<times> string, string, string) running" where
  "race_state = run_agent demo_libs Some demo_cgio demo_pidio
     [Sweep, Sweep, NodeChange demo_env :: ((string \<times> string) policy, string \<times> string) run_label] (run_start demo_agent early_env)"

lemma race_state_sel:
  "rn_cb race_state = CIdle" "rn_sweep race_state = SLive {3}" "rn_env race_state = demo_env"
  "am_cgroup (mapOps (rn_agent race_state)) = Some Map.empty"
  "\<exists>tm. am_task (mapOps (rn_agent race_state)) = Some tm \<and> tm 71 = None"
proof -
  have "cleanStalePIDs demo_pidio early_env demo_maps = demo_maps\<lparr>am_task := Some ([70 \<mapsto> \<lparr>weight = 200, budget_ns = 0\<rparr>] |`
      {k. os_stat (root_fs early_env) (proc_root early_env @ ''/'' @ decimal (unat k)) \<noteq> None})\<rparr>"
    by (rule pid_sweep_exact [OF task_map.kernel_map_axioms]) (simp_all add: demo_maps_def)
  then have eq: "race_state = \<lparr>rn_agent = demo_agent\<lparr>mapOps := demo_maps\<lparr>am_task := Some ([70 \<mapsto> \<lparr>weight = 200, budget_ns = 0\<rparr>] |`
      {k. os_stat (root_fs early_env) (proc_root early_env @ ''/'' @ decimal (unat k)) \<noteq> None})\<rparr>\<rparr>,
      rn_env = demo_env, rn_cb = CIdle, rn_sweep = SLive {3}\<rparr>"
    by (simp add: race_state_def run_start_def run_step_def sweep_step_def demo_live demo_agent_def Let_def)
      (simp add: demo_maps_def demo_live Let_def)
  show "rn_cb race_state = CIdle" "rn_sweep race_state = SLive {3}" "rn_env race_state = demo_env"
    "am_cgroup (mapOps (rn_agent race_state)) = Some Map.empty"
    "\<exists>tm. am_task (mapOps (rn_agent race_state)) = Some tm \<and> tm 71 = None"
    unfolding eq by (simp_all add: demo_maps_def restrict_map_def)
qed

theorem sweep_loses_fresh_witness:
  "\<exists>ls rn' cm tm. run_agent demo_libs Some demo_cgio demo_pidio ls (run_start demo_agent early_env) = rn' \<and>
     rn_cb rn' = CIdle \<and> rn_sweep rn' = SIdle \<and> 56 \<in> liveKubepodsCgroupIDs (rn_env rn') \<and>
     am_cgroup (mapOps (rn_agent rn')) = Some cm \<and> effective_params tm cm 71 56 = (False, \<lparr>weight = 1000, budget_ns = 0\<rparr>) \<and>
     56 \<in> set (recorded (podCgroupIDs (mapOps (rn_agent rn'))) ''u'')"
proof -
  obtain tm where tm: "am_task (mapOps (rn_agent race_state)) = Some tm" "tm 71 = None" using race_state_sel(5) by blast
  have "56 \<in> set (resolvePodCgroupIDs (rn_env race_state) (pod_uid run_pod))" "(56 :: u64) \<notin> {3}"
    by (simp_all add: race_state_sel run_pod_sel demo_ids)
  note w = sweep_loses_fresh [OF cgroup_map.kernel_map_axioms race_state_sel(1,2) run_pod_sel(2) tm(1) race_state_sel(4) _ this,
      of demo_pidio 0 demo_libs "[''b'', ''a'']" Some 71]
  have upd: "fst (UpdatePodParams demo_cgio demo_pidio (rn_env race_state) 0 (Some run_pod)
      [fst (Resolve demo_libs [''b'', ''a''] run_pod (ag_resolver (rn_agent race_state)))] (mapOps (rn_agent race_state))) = None"
    unfolding race_state_sel(3) by (rule demo_run_update [OF tm(1) race_state_sel(4)])
  obtain n m rn' cm where r: "run_agent demo_libs Some demo_cgio demo_pidio
      (PodEvent (PodAdded (PodObj run_pod)) # replicate n (Callback [''b'', ''a''] 0) @ replicate m Sweep) race_state = rn'"
      "rn_cb rn' = CIdle" "rn_sweep rn' = SIdle" "56 \<in> liveKubepodsCgroupIDs (rn_env rn')"
      "am_cgroup (mapOps (rn_agent rn')) = Some cm" "effective_params tm cm 71 56 = (False, \<lparr>weight = 1000, budget_ns = 0\<rparr>)"
      "56 \<in> set (recorded (podCgroupIDs (mapOps (rn_agent rn'))) ''u'')"
    using w [OF _ upd] tm(2) by (auto simp: run_pod_sel)
  then show ?thesis unfolding race_state_def by (metis run_agent_simps(3))
qed

theorem params_at_last_event_witness:
  "\<exists>ls rn' tm cm tp. run_agent demo_libs Some demo_cgio demo_pidio ls
       (run_start (demo_agent\<lparr>ag_resolver := NewResolver 0\<rparr>) demo_env) = rn' \<and>
     am_cgroup (mapOps (rn_agent rn')) = Some cm \<and> am_task (mapOps (rn_agent rn')) = Some tm \<and>
     effective_params tm cm 71 56 = (True, tp) \<and> uint (weight tp) = 800 \<and>
     resolve_spec demo_libs run_pod (ag_resolver (rn_agent rn')) = (200, 2000000)"
proof -
  let ?rn = "run_start (demo_agent\<lparr>ag_resolver := NewResolver 0\<rparr>) demo_env"
  let ?p = "demo_policy ''a'' 200 []"
  let ?ls = "[PolicyEvent (PolicyAdd (Unstructured ?p)), PodEvent (PodUpdated (PodObj run_pod) (PodObj run_pod))]"
  have rn: "rn_cb ?rn = CIdle" "am_task (mapOps (rn_agent ?rn)) = Some [70 \<mapsto> \<lparr>weight = 200, budget_ns = 0\<rparr>]"
      "am_cgroup (mapOps (rn_agent ?rn)) = Some Map.empty" "ag_resolver (rn_agent ?rn) = NewResolver 0" "rn_env ?rn = demo_env"
    by (simp_all add: run_start_def demo_agent_def demo_maps_def)
  have r: "resolver_reach demo_libs Some 0 (ag_resolver (rn_agent ?rn))" "order_of (ag_resolver (rn_agent ?rn)) []"
    unfolding rn(4) by (rule reach_new) (simp add: order_of_def NewResolver_def)
  have c: "56 \<in> set (resolvePodCgroupIDs (rn_env ?rn) (pod_uid run_pod))" "(56 :: u64) \<noteq> 0"
      "[70 \<mapsto> \<lparr>weight = 200, budget_ns = 0\<rparr>] (71 :: u32) = None"
    by (simp_all add: rn(5) run_pod_sel demo_ids)
  have upd: "fst (UpdatePodParams demo_cgio demo_pidio (rn_env ?rn) 0 (Some run_pod)
      [fst (Resolve demo_libs [] run_pod (ag_resolver (rn_agent ?rn)))] (mapOps (rn_agent ?rn))) = None"
    unfolding rn(5) by (rule demo_run_update [OF rn(2,3)])
  have q: "list_all quiet ?ls" by (simp add: quiet_def resync_ignored)
  have before: "resolve_spec demo_libs run_pod (NewResolver 0) = (800, 0)"
    by (simp add: resolve_spec_def applying_def NewResolver_def run_pod_def web_pod_def no_annotations qosDefaultWeight_def)
  have "applying demo_libs run_pod (addPolicy ?p (NewResolver 0)) = {?p}"
    by (auto simp: applying_def addPolicy_def NewResolver_def put_policy_def run_pod_def policy_applies_def
        podSelectorMatches_def demo_policy_def demo_libs_def web_pod_def go_get_def)
  then have after: "resolve_spec demo_libs run_pod (fold (handlePolicy Some) (policy_events ?ls) (NewResolver 0)) = (200, 2000000)"
    by (simp add: handlePolicy_def unstructuredToPolicy_def resolve_spec_def demo_asked run_pod_def no_annotations Let_def)
  from params_at_last_event [OF cgroup_map.kernel_map_axioms rn(1) run_pod_sel(3) rn(2,3) r c upd q, unfolded rn(4) before after]
  show ?thesis by (elim exE conjE) (intro exI conjI, assumption+, simp_all)
qed

end
