(* ===== verification/Handover.thy ===== *)
theory Handover
  imports Prelude
begin

text \<open>
  Loading the scheduler and handing it over, \<^verbatim>\<open>internal/sched/agent.go\<close> (\<^verbatim>\<open>Run\<close>, \<^verbatim>\<open>loadSchedulerWithRetry\<close>,
  \<^verbatim>\<open>schedulerContended\<close>, \<^verbatim>\<open>loadScheduler\<close>) and \<^verbatim>\<open>cmd/agent/main.go\<close>: any number of agents on one node, as
  during a rolling upgrade, whose actions interleave. What they share is the kernel's single slot for
  a sched\_ext scheduler and the directory of pinned maps. The kernel may eject a scheduler at any time (its watchdog,
  sysrq-S, an error in the program), and an agent may be killed at any time.
\<close>

subsection \<open>State\<close>

text \<open>
  The registered scheduler: none, the one of an agent (its \<^verbatim>\<open>ops\<close> name contains \<^verbatim>\<open>k8s_sched\<close>), or a
  foreign one. A set of maps is known by a number; with \<^verbatim>\<open>PinByName\<close> a collection reuses the pinned
  maps when there are any and pins its own otherwise.
\<close>

datatype slot = Free | Ours nat | Foreign

datatype phase =
    Loading                      \<comment> \<open>about to create the collection in \<^verbatim>\<open>loadScheduler\<close>\<close>
  | Attaching nat                \<comment> \<open>collection created, about to attach\<close>
  | LoadFailed                   \<comment> \<open>\<^verbatim>\<open>loadSchedFn\<close> returned an error\<close>
  | Backoff                      \<comment> \<open>in the select of the retry loop\<close>
  | Opening nat                  \<comment> \<open>attached, about to open the pinned maps\<close>
  | Starting nat "nat option"    \<comment> \<open>scheduler loaded; the maps opened, if any; starting the watchers\<close>
  | Running nat "nat option"     \<comment> \<open>started, waiting for the context to be done\<close>
  | StartingObserve              \<comment> \<open>not loaded, starting the watchers\<close>
  | ObserveOnly                  \<comment> \<open>not loaded, started\<close>
  | Unpinned                     \<comment> \<open>shutting down, pins removed, link still open\<close>
  | Exited

record node =
  nd_slot :: slot
  nd_pins :: "nat option"
  nd_next :: nat
  nd_phase :: "nat \<Rightarrow> phase"
  nd_done :: "nat \<Rightarrow> bool"       \<comment> \<open>the agent's context is canceled\<close>
  nd_ready :: "nat \<Rightarrow> bool"      \<comment> \<open>the agent's flag \<^verbatim>\<open>ready\<close>\<close>
  nd_retries :: nat              \<comment> \<open>\<^verbatim>\<open>AttachRetries\<close>\<close>

definition set_phase :: "nat \<Rightarrow> phase \<Rightarrow> node \<Rightarrow> node" where
  "set_phase i ph n = n\<lparr>nd_phase := (nd_phase n)(i := ph)\<rparr>"

text \<open>\<^verbatim>\<open>a.ready.Store\<close>.\<close>

definition store_ready :: "nat \<Rightarrow> bool \<Rightarrow> node \<Rightarrow> node" where
  "store_ready i b n = n\<lparr>nd_ready := (nd_ready n)(i := b)\<rparr>"

text \<open>
  What the kernel does when the link of agent \<open>i\<close> goes away, by \<^verbatim>\<open>Close\<close> or because its process ends: it unregisters
  the scheduler of that link, if it is still the registered one.
\<close>

definition drop_link :: "nat \<Rightarrow> node \<Rightarrow> node" where
  "drop_link i n = (if nd_slot n = Ours i then n\<lparr>nd_slot := Free\<rparr> else n)"

subsection \<open>The actions of an agent\<close>

text \<open>Creating the collection; \<open>ok\<close> is false when any step up to that fails.\<close>

definition create_collection :: "nat \<Rightarrow> bool \<Rightarrow> node \<Rightarrow> node" where
  "create_collection i ok n =
     (if \<not> ok then set_phase i LoadFailed n
      else case nd_pins n of
             Some g \<Rightarrow> set_phase i (Attaching g) n
           | None \<Rightarrow> set_phase i (Attaching (nd_next n)) (n\<lparr>nd_pins := Some (nd_next n), nd_next := Suc (nd_next n)\<rparr>))"

text \<open>
  Finding the struct\_ops map and attaching it. The kernel refuses a second scheduler; \<open>ok\<close> is false
  when it fails for another reason. The pins stay when attaching fails.
\<close>

definition attach :: "nat \<Rightarrow> bool \<Rightarrow> nat \<Rightarrow> node \<Rightarrow> node" where
  "attach i ok g n =
     (if ok \<and> nd_slot n = Free then set_phase i (Opening g) (n\<lparr>nd_slot := Ours i\<rparr>)
      else set_phase i LoadFailed n)"

definition schedulerContended :: "node \<Rightarrow> bool" where
  "schedulerContended n = (case nd_slot n of Ours _ \<Rightarrow> True | _ \<Rightarrow> False)"

text \<open>The error branch of \<^verbatim>\<open>loadSchedulerWithRetry\<close>.\<close>

definition check_retry :: "nat \<Rightarrow> node \<Rightarrow> node" where
  "check_retry i n =
     (if \<not> schedulerContended n \<or> nd_done n i then set_phase i StartingObserve n
      else set_phase i Backoff (n\<lparr>nd_retries := Suc (nd_retries n)\<rparr>))"

text \<open>
  The select: the interval has passed (\<open>ok\<close>), or the context is done. When both are the case, either branch may
  be taken.
\<close>

definition wake :: "nat \<Rightarrow> bool \<Rightarrow> node \<Rightarrow> node" where
  "wake i ok n = (if ok then set_phase i Loading n else if nd_done n i then set_phase i StartingObserve n else n)"

text \<open>
  \<^verbatim>\<open>Run\<close> once the scheduler is loaded or has failed to load: open the pinned maps, start the watchers, wait for the
  context, then the deferred calls in order. Starting the watchers ends when the policy resolver's \<^verbatim>\<open>Start\<close> has
  returned (\<open>ok\<close>), and does not look at the context; it ends with storing whether the scheduler was loaded in the flag
  \<^verbatim>\<open>ready\<close>, which nothing stores to afterwards.
\<close>

definition agent_act :: "nat \<Rightarrow> bool \<Rightarrow> node \<Rightarrow> node" where
  "agent_act i ok n =
     (case nd_phase n i of
        Loading \<Rightarrow> create_collection i ok n
      | Attaching g \<Rightarrow> attach i ok g n
      | LoadFailed \<Rightarrow> check_retry i n
      | Backoff \<Rightarrow> wake i ok n
      | Opening g \<Rightarrow> set_phase i (Starting g (nd_pins n)) n
      | Starting g opened \<Rightarrow> (if ok then set_phase i (Running g opened) (store_ready i True n) else n)
      | StartingObserve \<Rightarrow> (if ok then set_phase i ObserveOnly (store_ready i False n) else n)
      | Running g opened \<Rightarrow> (if nd_done n i then set_phase i Unpinned (n\<lparr>nd_pins := None\<rparr>) else n)
      | ObserveOnly \<Rightarrow> (if nd_done n i then set_phase i Exited n else n)
      | Unpinned \<Rightarrow> set_phase i Exited (drop_link i n)
      | Exited \<Rightarrow> n)"

text \<open>
  What can happen: an agent acts, its context is canceled, it is killed or crashes (its pins stay), the kernel
  ejects the registered scheduler of an agent, or a foreign scheduler is registered or unregistered by somebody else.
\<close>

datatype action = Act nat bool | Cancel nat | Kill nat | Eject | ForeignOn | ForeignOff

definition node_step :: "action \<Rightarrow> node \<Rightarrow> node" where
  "node_step act n =
     (case act of
        Act i ok \<Rightarrow> agent_act i ok n
      | Cancel i \<Rightarrow> n\<lparr>nd_done := (nd_done n)(i := True)\<rparr>
      | Kill i \<Rightarrow> set_phase i Exited (drop_link i n)
      | Eject \<Rightarrow> (case nd_slot n of Ours i \<Rightarrow> drop_link i n | _ \<Rightarrow> n)
      | ForeignOn \<Rightarrow> (if nd_slot n = Free then n\<lparr>nd_slot := Foreign\<rparr> else n)
      | ForeignOff \<Rightarrow> (if nd_slot n = Foreign then n\<lparr>nd_slot := Free\<rparr> else n))"

definition node_run :: "action list \<Rightarrow> node \<Rightarrow> node" where
  "node_run acts n = fold node_step acts n"

lemma node_run_simps [simp]: "node_run [] n = n" "node_run (act # acts) n = node_run acts (node_step act n)"
  by (simp_all add: node_run_def)

text \<open>A node on which no agent has started to load: no pins, no scheduler of ours.\<close>

definition fresh_node :: node where
  "fresh_node = \<lparr>nd_slot = Free, nd_pins = None, nd_next = 0, nd_phase = (\<lambda>_. Loading),
     nd_done = (\<lambda>_. False), nd_ready = (\<lambda>_. False), nd_retries = 0\<rparr>"

text \<open>
  What \<^verbatim>\<open>/readyz\<close> answers from: the flag \<^verbatim>\<open>ready\<close>, of an agent that has finished its set-up, in which the HTTP server is
  started, and has not come to its deferred calls, before which the server is shut down.
\<close>

definition serving :: "phase \<Rightarrow> bool" where
  "serving ph = (case ph of Running g opened \<Rightarrow> True | ObserveOnly \<Rightarrow> True | _ \<Rightarrow> False)"

definition agent_ready :: "nat \<Rightarrow> node \<Rightarrow> bool" where
  "agent_ready i n \<longleftrightarrow> serving (nd_phase n i) \<and> nd_ready n i"

text \<open>Whether the kernel ejects the scheduler of agent \<open>i\<close> in the course of some actions.\<close>

fun ejected :: "nat \<Rightarrow> action list \<Rightarrow> node \<Rightarrow> bool" where
  "ejected i [] n = False"
| "ejected i (act # acts) n = (act = Eject \<and> nd_slot n = Ours i \<or> ejected i acts (node_step act n))"

subsection \<open>Signals\<close>

text \<open>
  \<^verbatim>\<open>main\<close>: when the context is canceled, in seconds, given the arrival times of the signals. After a
  \<^verbatim>\<open>SIGTERM\<close> the agent stays for the hand-off delay or until the next signal.
\<close>

definition HandoffDelay :: int where
  "HandoffDelay = 15"

datatype signal = SIGINT | SIGTERM

definition cancel_time :: "(int \<times> signal) list \<Rightarrow> int option" where
  "cancel_time sigs =
     (case sigs of
        [] \<Rightarrow> None
      | (t, SIGINT) # _ \<Rightarrow> Some t
      | [(t, SIGTERM)] \<Rightarrow> Some (t + HandoffDelay)
      | (t, SIGTERM) # (t', _) # _ \<Rightarrow> Some (min (t + HandoffDelay) t'))"

lemma cancel_time_handoff:
  "cancel_time ((t, s) # rest) = Some c \<Longrightarrow> sorted (map fst ((t, s) # rest)) \<Longrightarrow> t \<le> c \<and> c \<le> t + HandoffDelay"
  by (auto simp: cancel_time_def HandoffDelay_def split: signal.splits list.splits)

subsection \<open>Start and exit of the program\<close>

text \<open>
  \<^verbatim>\<open>run\<close> in \<^verbatim>\<open>main.go\<close>: the node name from the flag, whose default is the environment variable, else the host name;
  the listen address, with the default \<^verbatim>\<open>NewAgent\<close> puts for an empty one; and the exit status, given whether
  \<^verbatim>\<open>NewAgent\<close> and \<^verbatim>\<open>Run\<close> succeed.
\<close>

definition run_nodeName :: "string option \<Rightarrow> string \<Rightarrow> string \<Rightarrow> string" where
  "run_nodeName flag env hostname =
     (let nodeName = (case flag of None \<Rightarrow> env | Some v \<Rightarrow> v) in if nodeName = [] then hostname else nodeName)"

definition defaultMetricsPort :: string where
  "defaultMetricsPort = '':9090''"

definition run_metricsAddr :: "string option \<Rightarrow> string" where
  "run_metricsAddr flag =
     (let metricsAddr = (case flag of None \<Rightarrow> '':9090'' | Some v \<Rightarrow> v)
      in if metricsAddr = [] then defaultMetricsPort else metricsAddr)"

definition run_status :: "bool \<Rightarrow> bool \<Rightarrow> nat" where
  "run_status newAgentOk runOk = (if \<not> newAgentOk then 1 else if \<not> runOk then 1 else 0)"

subsection \<open>Invariant\<close>

text \<open>The phases in which an agent has an open link.\<close>

definition holds :: "phase \<Rightarrow> bool" where
  "holds ph = (case ph of Opening g \<Rightarrow> True | Starting g opened \<Rightarrow> True | Running g opened \<Rightarrow> True | Unpinned \<Rightarrow> True | _ \<Rightarrow> False)"

text \<open>
  Who owns the slot, when the agents of \<open>E\<close> are those whose scheduler was ejected: an agent with an open link that was
  not ejected, and nobody else.
\<close>

definition owner_ok :: "(nat \<Rightarrow> bool) \<Rightarrow> node \<Rightarrow> nat \<Rightarrow> bool" where
  "owner_ok E n i \<longleftrightarrow> (nd_slot n = Ours i \<longleftrightarrow> holds (nd_phase n i) \<and> \<not> E i) \<and> (E i \<longrightarrow> holds (nd_phase n i) \<or> nd_phase n i = Exited)"

definition node_ok :: "(nat \<Rightarrow> bool) \<Rightarrow> node \<Rightarrow> bool" where
  "node_ok E n \<longleftrightarrow> (\<forall>i. owner_ok E n i)"

lemma set_phase_sel [simp]:
  "nd_slot (set_phase i ph n) = nd_slot n" "nd_pins (set_phase i ph n) = nd_pins n"
  "nd_next (set_phase i ph n) = nd_next n" "nd_done (set_phase i ph n) = nd_done n"
  "nd_ready (set_phase i ph n) = nd_ready n" "nd_phase (set_phase i ph n) = (nd_phase n)(i := ph)"
  by (simp_all add: set_phase_def)

lemma store_ready_sel [simp]:
  "nd_slot (store_ready i b n) = nd_slot n" "nd_pins (store_ready i b n) = nd_pins n"
  "nd_next (store_ready i b n) = nd_next n" "nd_done (store_ready i b n) = nd_done n"
  "nd_ready (store_ready i b n) = (nd_ready n)(i := b)" "nd_phase (store_ready i b n) = nd_phase n"
  by (simp_all add: store_ready_def)

lemma drop_link_sel [simp]:
  "nd_slot (drop_link i n) = (if nd_slot n = Ours i then Free else nd_slot n)" "nd_pins (drop_link i n) = nd_pins n"
  "nd_next (drop_link i n) = nd_next n" "nd_done (drop_link i n) = nd_done n"
  "nd_ready (drop_link i n) = nd_ready n" "nd_phase (drop_link i n) = nd_phase n"
  by (simp_all add: drop_link_def)

lemma holds_simps [simp]:
  "\<not> holds Loading" "\<not> holds (Attaching g)" "\<not> holds LoadFailed" "\<not> holds Backoff" "holds (Opening g)"
  "holds (Starting g opened)" "holds (Running g opened)" "\<not> holds StartingObserve" "\<not> holds ObserveOnly" "holds Unpinned" "\<not> holds Exited"
  by (simp_all add: holds_def)

lemma serving_simps [simp]:
  "\<not> serving Loading" "\<not> serving (Attaching g)" "\<not> serving LoadFailed" "\<not> serving Backoff" "\<not> serving (Opening g)"
  "\<not> serving (Starting g opened)" "serving (Running g opened)" "\<not> serving StartingObserve" "serving ObserveOnly"
  "\<not> serving Unpinned" "\<not> serving Exited"
  by (simp_all add: serving_def)

lemmas act_defs = agent_act_def create_collection_def attach_def check_retry_def wake_def

text \<open>An action of an agent changes neither the phase nor the flags of another agent.\<close>

lemma act_other:
  assumes "j \<noteq> i"
  shows "nd_phase (agent_act i ok n) j = nd_phase n j" "nd_ready (agent_act i ok n) j = nd_ready n j"
  using assms by (auto simp: act_defs split: phase.splits option.splits)

lemma act_done [simp]: "nd_done (agent_act i ok n) = nd_done n"
  by (auto simp: act_defs split: phase.splits option.splits)

text \<open>The slot after an action: taken when it was free, given back when it was the agent's own, else as before.\<close>

lemma act_slot:
  "nd_slot (agent_act i ok n) =
     (case nd_phase n i of
        Attaching g \<Rightarrow> (if ok \<and> nd_slot n = Free then Ours i else nd_slot n)
      | Unpinned \<Rightarrow> (if nd_slot n = Ours i then Free else nd_slot n)
      | _ \<Rightarrow> nd_slot n)"
  by (auto simp: act_defs split: phase.splits option.splits)

lemma act_holds:
  assumes "nd_phase n i \<noteq> Unpinned" "\<And>g. nd_phase n i \<noteq> Attaching g"
  shows "holds (nd_phase (agent_act i ok n) i) = holds (nd_phase n i)"
  using assms by (cases "nd_phase n i") (auto simp: act_defs split: option.splits)

lemma act_owner_self:
  assumes "owner_ok E n i"
  shows "owner_ok E (agent_act i ok n) i"
proof (cases "(\<exists>g. nd_phase n i = Attaching g) \<or> nd_phase n i = Unpinned \<or> nd_phase n i = Exited")
  case True
  with assms show ?thesis by (auto simp: owner_ok_def act_defs split: if_splits)
next
  case False
  then have "nd_slot (agent_act i ok n) = nd_slot n" by (auto simp: act_slot split: phase.splits)
  with False assms act_holds [of n i ok] show ?thesis by (auto simp: owner_ok_def)
qed

lemma act_owner_other:
  assumes "owner_ok E n i" "owner_ok E n j" "j \<noteq> i"
  shows "owner_ok E (agent_act i ok n) j"
  using assms act_other [OF assms(3), of ok n] by (auto simp: owner_ok_def act_slot split: phase.splits)

lemma agent_act_ok: "node_ok E n \<Longrightarrow> node_ok E (agent_act i ok n)"
  unfolding node_ok_def by (metis act_owner_self act_owner_other)

lemma node_step_ok:
  assumes "node_ok E n"
  shows "node_ok (\<lambda>i. E i \<or> act = Eject \<and> nd_slot n = Ours i) (node_step act n)"
proof (cases act)
  case (Act i ok)
  with agent_act_ok [OF assms] show ?thesis by (simp add: node_step_def)
next
  case (Kill j)
  have "owner_ok E (node_step act n) i" for i
    using assms [unfolded node_ok_def, rule_format, of i] assms [unfolded node_ok_def, rule_format, of j] Kill
    by (cases "i = j") (auto simp: node_step_def owner_ok_def)
  then show ?thesis using Kill by (simp add: node_ok_def)
next
  case Eject
  with assms show ?thesis by (cases "nd_slot n") (auto simp: node_step_def node_ok_def owner_ok_def)
qed (use assms in \<open>auto simp: node_step_def node_ok_def owner_ok_def\<close>)

lemma fresh_ok: "node_ok (\<lambda>_. False) fresh_node"
  by (simp add: node_ok_def owner_ok_def fresh_node_def)

lemma node_run_ok: "node_ok E n \<Longrightarrow> node_ok (\<lambda>i. E i \<or> ejected i acts n) (node_run acts n)"
proof (induction acts arbitrary: n E)
  case (Cons act acts)
  from Cons.IH [OF node_step_ok [OF Cons.prems, of act]] show ?case by (simp add: disj_assoc)
qed simp

lemma reachable_ok: "node_ok (\<lambda>i. ejected i acts fresh_node) (node_run acts fresh_node)"
  using node_run_ok [OF fresh_ok, of acts] by simp

lemma reachable_owner:
  "nd_slot (node_run acts fresh_node) = Ours i \<longleftrightarrow>
     holds (nd_phase (node_run acts fresh_node) i) \<and> \<not> ejected i acts fresh_node"
  using reachable_ok [of acts] by (auto simp: node_ok_def owner_ok_def)

lemma not_ejected: "Eject \<notin> set acts \<Longrightarrow> \<not> ejected i acts n"
  by (induction acts arbitrary: n) auto

lemma ejected_append: "ejected i (acts @ later) n \<longleftrightarrow> ejected i acts n \<or> ejected i later (node_run acts n)"
  by (induction acts arbitrary: n) auto

lemma node_run_append: "node_run (acts @ later) n = node_run later (node_run acts n)"
  by (simp add: node_run_def)

text \<open>The flag of an agent whose server is up says whether it runs a scheduler.\<close>

definition flag_ok :: "node \<Rightarrow> nat \<Rightarrow> bool" where
  "flag_ok n i \<longleftrightarrow> (case nd_phase n i of Running g opened \<Rightarrow> nd_ready n i | ObserveOnly \<Rightarrow> \<not> nd_ready n i | _ \<Rightarrow> True)"

lemma flag_ok_ready: "flag_ok n i \<Longrightarrow> agent_ready i n \<longleftrightarrow> (\<exists>g opened. nd_phase n i = Running g opened)"
  by (cases "nd_phase n i") (auto simp: flag_ok_def agent_ready_def)

lemma flag_ok_cong: "nd_phase n' i = nd_phase n i \<Longrightarrow> nd_ready n' i = nd_ready n i \<Longrightarrow> flag_ok n' i = flag_ok n i"
  by (simp only: flag_ok_def)

lemma flag_ok_act: "flag_ok n i \<Longrightarrow> flag_ok (agent_act i ok n) i"
  by (cases "nd_phase n i") (auto simp: flag_ok_def act_defs split: option.splits)

lemma flag_ok_step: "flag_ok n i \<Longrightarrow> flag_ok (node_step act n) i"
proof (cases act)
  case (Act j ok)
  assume "flag_ok n i"
  then show ?thesis using Act flag_ok_act [of n i ok] flag_ok_cong [OF act_other, of i j]
    by (cases "j = i") (auto simp: node_step_def)
qed (auto simp: node_step_def flag_ok_def split: slot.splits phase.splits)

lemma flag_ok_run: "flag_ok n i \<Longrightarrow> flag_ok (node_run acts n) i"
  by (induction acts arbitrary: n) (simp_all add: flag_ok_step)

lemma fresh_flag: "flag_ok (node_run acts fresh_node) i"
  by (rule flag_ok_run) (simp add: flag_ok_def fresh_node_def)

subsection \<open>Properties\<close>

lemma foreign_kept: "nd_slot n = Foreign \<Longrightarrow> act \<noteq> ForeignOff \<Longrightarrow> nd_slot (node_step act n) = Foreign"
  by (cases act) (auto simp: node_step_def act_slot split: phase.splits)

lemma ours_kept:
  assumes "nd_slot n = Ours i" "act \<noteq> Eject" "act \<noteq> Kill i" "nd_phase n i = Unpinned \<Longrightarrow> \<forall>ok. act \<noteq> Act i ok"
  shows "nd_slot (node_step act n) = Ours i"
  using assms by (cases act) (auto simp: node_step_def act_slot split: phase.splits)

text \<open>
  C15 (ready_attached). Whatever the agents on a node do and in whatever order, crashes and ejections by the kernel
  included: the scheduler the kernel runs for an agent that reports ready is its own exactly if the kernel has not
  ejected it, so at most one agent that was not ejected is ready. A foreign scheduler is displaced only by being unregistered, and
  a ready agent's only by ejection, the agent's death, or its own shut-down. Ejecting the scheduler of a ready agent frees the
  slot and leaves the agent reporting ready.
\<close>

theorem ready_attached:
  fixes acts
  defines "n \<equiv> node_run acts fresh_node"
  shows "(agent_ready i n \<longrightarrow> (nd_slot n = Ours i \<longleftrightarrow> \<not> ejected i acts fresh_node)) \<and>
    (nd_slot n = Foreign \<and> act \<noteq> ForeignOff \<longrightarrow> nd_slot (node_step act n) = Foreign) \<and>
    (agent_ready i n \<and> nd_slot n = Ours i \<and> act \<noteq> Eject \<and> act \<noteq> Kill i \<longrightarrow> nd_slot (node_step act n) = Ours i) \<and>
    (agent_ready i n \<and> nd_slot n = Ours i \<longrightarrow> nd_slot (node_step Eject n) = Free \<and> agent_ready i (node_step Eject n))"
proof -
  have run: "\<exists>g opened. nd_phase n i = Running g opened" if "agent_ready i n"
    using that flag_ok_ready [OF fresh_flag] by (simp add: n_def)
  have "nd_slot n = Ours i \<longleftrightarrow> \<not> ejected i acts fresh_node" if "agent_ready i n"
    using run [OF that] reachable_owner [of acts i] by (auto simp: n_def)
  moreover have "nd_slot (node_step act n) = Ours i" if "agent_ready i n" "nd_slot n = Ours i" "act \<noteq> Eject" "act \<noteq> Kill i"
    using run [OF that(1)] ours_kept [OF that(2-4)] by auto
  moreover have "nd_slot (node_step Eject n) = Free \<and> agent_ready i (node_step Eject n)" if "agent_ready i n" "nd_slot n = Ours i"
    using that by (simp add: node_step_def agent_ready_def)
  ultimately show ?thesis using foreign_kept by blast
qed

definition handover_acts :: "action list" where
  "handover_acts = [Act 0 True, Act 0 True, Act 0 True, Act 0 True, Act 1 True, Act 1 True, Act 1 True]"

lemma handover_start:
  "nd_phase (node_run handover_acts fresh_node) 0 = Running 0 (Some 0)"
  "nd_phase (node_run handover_acts fresh_node) 1 = Backoff" "\<not> nd_done (node_run handover_acts fresh_node) 1"
  "nd_slot (node_run handover_acts fresh_node) = Ours 0" "agent_ready 0 (node_run handover_acts fresh_node)"
  by (simp_all add: handover_acts_def node_step_def agent_act_def set_phase_def create_collection_def store_ready_def
      attach_def check_retry_def schedulerContended_def fresh_node_def agent_ready_def)

theorem ready_attached_witness:
  "agent_ready 0 (node_run handover_acts fresh_node) \<and> nd_slot (node_run handover_acts fresh_node) = Ours 0 \<and>
   \<not> ejected 0 handover_acts fresh_node \<and>
   nd_slot (node_run [ForeignOn] fresh_node) = Foreign \<and> nd_slot (node_step (Act 3 True) (node_run [ForeignOn] fresh_node)) = Foreign \<and>
   nd_slot (node_step (Act 1 True) (node_run handover_acts fresh_node)) = Ours 0 \<and>
   nd_slot (node_step Eject (node_run handover_acts fresh_node)) = Free \<and>
   agent_ready 0 (node_step Eject (node_run handover_acts fresh_node))"
proof -
  have f: "nd_slot (node_run [ForeignOn] fresh_node) = Foreign" by (simp add: node_step_def fresh_node_def)
  from ready_attached [of 0 handover_acts "Act 1 True"] ready_attached [of 3 "[ForeignOn]" "Act 3 True"] handover_start(4,5) f
  show ?thesis by blast
qed

subsection \<open>Handing over\<close>

text \<open>Collections are numbered in the order of their creation.\<close>

definition collection_of :: "phase \<Rightarrow> nat option" where
  "collection_of ph = (case ph of Attaching g \<Rightarrow> Some g | Opening g \<Rightarrow> Some g | Starting g opened \<Rightarrow> Some g | Running g opened \<Rightarrow> Some g | _ \<Rightarrow> None)"

definition numbers_ok :: "node \<Rightarrow> bool" where
  "numbers_ok n \<longleftrightarrow> pred_option (\<lambda>g. g < nd_next n) (nd_pins n) \<and> (\<forall>i. pred_option (\<lambda>g. g < nd_next n) (collection_of (nd_phase n i)))"

lemma collection_of_simps [simp]:
  "collection_of Loading = None" "collection_of (Attaching g) = Some g" "collection_of LoadFailed = None"
  "collection_of Backoff = None" "collection_of (Opening g) = Some g" "collection_of (Starting g opened) = Some g"
  "collection_of (Running g opened) = Some g" "collection_of StartingObserve = None" "collection_of ObserveOnly = None"
  "collection_of Unpinned = None" "collection_of Exited = None"
  by (simp_all add: collection_of_def)

lemma numbers_move:
  assumes "numbers_ok n" "nd_next n' = nd_next n" "nd_pins n' = nd_pins n \<or> nd_pins n' = None" "nd_phase n' = (nd_phase n)(i := ph)"
    and "collection_of ph = collection_of (nd_phase n i) \<or> collection_of ph = None \<or> collection_of ph = nd_pins n"
  shows "numbers_ok n'"
  using assms unfolding numbers_ok_def by auto

lemma numbers_create:
  assumes "numbers_ok n" "nd_next n' = Suc (nd_next n)" "nd_pins n' = Some (nd_next n)"
    and "nd_phase n' = (nd_phase n)(i := Attaching (nd_next n))"
  shows "numbers_ok n'"
  using assms unfolding numbers_ok_def by (auto simp: pred_option_def less_Suc_eq)

lemma numbers_act: "numbers_ok n \<Longrightarrow> numbers_ok (agent_act i ok n)"
proof (cases "nd_phase n i")
  case Loading
  assume n: "numbers_ok n"
  with Loading numbers_move [OF n, of _ i] numbers_create [OF n, of _ i] show ?thesis
    by (cases "nd_pins n") (simp_all add: agent_act_def create_collection_def)
qed (use numbers_move [of n _ i] in \<open>simp_all add: act_defs\<close>)

lemma numbers_step: "numbers_ok n \<Longrightarrow> numbers_ok (node_step act n)"
proof (cases act)
  case (Kill i)
  assume "numbers_ok n"
  with Kill show ?thesis using numbers_move [of n _ i Exited] by (simp add: node_step_def)
qed (auto simp: node_step_def numbers_act, auto simp: numbers_ok_def split: slot.splits)

lemma numbers_reachable: "numbers_ok (node_run acts fresh_node)"
proof -
  have "numbers_ok n \<Longrightarrow> numbers_ok (node_run acts n)" for n
    by (induction acts arbitrary: n) (simp_all add: numbers_step)
  then show ?thesis by (simp add: numbers_ok_def fresh_node_def)
qed

text \<open>
  While the old agent's link is open, the new agent may go round its retry loop any number of times, whatever its attempts
  meet. The old agent makes way at a good moment when the new one is between two attempts, or about to attach a collection
  whose maps are the pinned ones.
\<close>

definition while_waiting :: "nat \<Rightarrow> nat \<Rightarrow> action \<Rightarrow> bool" where
  "while_waiting old new act =
     (case act of Act j ok \<Rightarrow> j = new | Cancel j \<Rightarrow> j \<noteq> new | Kill j \<Rightarrow> j \<noteq> old \<and> j \<noteq> new | Eject \<Rightarrow> False | _ \<Rightarrow> True)"

definition in_retry_loop :: "phase \<Rightarrow> bool" where
  "in_retry_loop ph = (case ph of Loading \<Rightarrow> True | Attaching h \<Rightarrow> True | LoadFailed \<Rightarrow> True | Backoff \<Rightarrow> True | _ \<Rightarrow> False)"

definition can_take_over :: "nat \<Rightarrow> node \<Rightarrow> bool" where
  "can_take_over new n = (case nd_phase n new of Loading \<Rightarrow> True | Backoff \<Rightarrow> True | Attaching h \<Rightarrow> nd_pins n = Some h | _ \<Rightarrow> False)"

text \<open>Afterwards its attempts meet no error, it is not canceled, and nobody else registers a scheduler.\<close>

definition while_taking :: "nat \<Rightarrow> nat \<Rightarrow> action \<Rightarrow> bool" where
  "while_taking old new act =
     (case act of Act j ok \<Rightarrow> j = old \<or> j = new \<and> ok | Cancel j \<Rightarrow> j \<noteq> new | Kill j \<Rightarrow> j \<noteq> new | ForeignOff \<Rightarrow> True | _ \<Rightarrow> False)"

definition retrying :: "nat \<Rightarrow> nat \<Rightarrow> nat \<Rightarrow> node \<Rightarrow> bool" where
  "retrying old new g n \<longleftrightarrow> nd_slot n = Ours old \<and> nd_phase n old = Unpinned \<and> \<not> nd_done n new \<and> nd_pins n \<noteq> Some g \<and>
     g < nd_next n \<and> in_retry_loop (nd_phase n new)"

lemma retrying_step:
  assumes "old \<noteq> new" "retrying old new g n" "while_waiting old new act"
  shows "retrying old new g (node_step act n)"
proof (cases act)
  case (Act j ok)
  with assms have "j = new" by (simp add: while_waiting_def)
  then show ?thesis using assms(1,2) Act
    by (cases "nd_phase n new"; cases "nd_pins n")
      (auto simp: retrying_def node_step_def act_defs in_retry_loop_def schedulerContended_def)
qed (use assms in \<open>auto simp: while_waiting_def retrying_def node_step_def\<close>)

lemma retrying_run:
  "old \<noteq> new \<Longrightarrow> retrying old new g n \<Longrightarrow> list_all (while_waiting old new) mid \<Longrightarrow> retrying old new g (node_run mid n)"
  by (induction mid arbitrary: n) (simp_all add: retrying_step)

text \<open>How many actions the new agent has to take, and what it has on the way.\<close>

definition to_go :: "phase \<Rightarrow> nat" where
  "to_go ph = (case ph of Backoff \<Rightarrow> 5 | Loading \<Rightarrow> 4 | Attaching h \<Rightarrow> 3 | Opening h \<Rightarrow> 2 | Starting h opened \<Rightarrow> 1 | _ \<Rightarrow> 0)"

definition taking :: "nat \<Rightarrow> nat \<Rightarrow> nat \<Rightarrow> node \<Rightarrow> bool" where
  "taking old new g n \<longleftrightarrow> nd_phase n old = Exited \<and> \<not> nd_done n new \<and> g < nd_next n \<and> nd_pins n \<noteq> Some g \<and>
     (case nd_phase n new of
        Backoff \<Rightarrow> nd_slot n = Free
      | Loading \<Rightarrow> nd_slot n = Free
      | Attaching h \<Rightarrow> nd_slot n = Free \<and> nd_pins n = Some h
      | Opening h \<Rightarrow> nd_slot n = Ours new \<and> nd_pins n = Some h
      | Starting h opened \<Rightarrow> nd_slot n = Ours new \<and> nd_pins n = Some h \<and> opened = Some h
      | Running h opened \<Rightarrow> nd_slot n = Ours new \<and> nd_pins n = Some h \<and> opened = Some h \<and> nd_ready n new
      | _ \<Rightarrow> False)"

lemma taking_act:
  assumes "old \<noteq> new" "taking old new g n"
  shows "taking old new g (agent_act new True n) \<and> to_go (nd_phase (agent_act new True n) new) = to_go (nd_phase n new) - 1"
  using assms by (cases "nd_phase n new"; cases "nd_pins n") (auto simp: taking_def to_go_def act_defs)

lemma taking_step:
  assumes "old \<noteq> new" "taking old new g n" "while_taking old new act"
  shows "taking old new g (node_step act n)"
    and "to_go (nd_phase (node_step act n) new) = to_go (nd_phase n new) - (if act = Act new True then 1 else 0)"
proof -
  have "taking old new g (node_step act n) \<and>
    to_go (nd_phase (node_step act n) new) = to_go (nd_phase n new) - (if act = Act new True then 1 else 0)"
  proof (cases act)
    case (Act j ok)
    with assms(3) consider "j = new" "ok" | "j = old" by (auto simp: while_taking_def)
    then show ?thesis
    proof cases
      case 1
      with Act taking_act [OF assms(1,2)] show ?thesis by (simp add: node_step_def)
    next
      case 2
      then have "node_step act n = n" using Act assms(2) by (simp add: node_step_def taking_def agent_act_def)
      with 2 Act assms(1,2) show ?thesis by simp
    qed
  next
    case (Kill j)
    with assms show ?thesis by (cases "nd_phase n new") (auto simp: while_taking_def taking_def node_step_def)
  qed (use assms in \<open>auto simp: while_taking_def taking_def node_step_def split: phase.splits\<close>)
  then show "taking old new g (node_step act n)"
    "to_go (nd_phase (node_step act n) new) = to_go (nd_phase n new) - (if act = Act new True then 1 else 0)" by blast+
qed

lemma taking_run:
  "old \<noteq> new \<Longrightarrow> taking old new g n \<Longrightarrow> list_all (while_taking old new) post \<Longrightarrow>
   taking old new g (node_run post n) \<and> to_go (nd_phase (node_run post n) new) = to_go (nd_phase n new) - count_list post (Act new True)"
proof (induction post arbitrary: n)
  case (Cons act post)
  from Cons.prems have "while_taking old new act" "list_all (while_taking old new) post" by simp_all
  with Cons.IH [OF Cons.prems(1) taking_step(1) [OF Cons.prems(1,2)]] taking_step(2) [OF Cons.prems(1,2), of act]
  show ?case by auto
qed simp

lemma taken:
  assumes "taking old new g n" "to_go (nd_phase n new) = 0"
  shows "\<exists>h. nd_phase n new = Running h (Some h) \<and> nd_pins n = Some h \<and> h \<noteq> g \<and> nd_slot n = Ours new \<and> agent_ready new n"
  using assms by (cases "nd_phase n new") (auto simp: taking_def to_go_def agent_ready_def)

text \<open>
  C16 (handover_completes). A rolling upgrade goes through. An old agent runs its scheduler and is canceled, and a new
  one is anywhere in its retry loop. The old agent removes its pins; until it closes its link the new one may make any number of
  attempts, with any outcome, and the old scheduler stays in the slot throughout, so the node has a scheduler until the
  moment of the hand-off. If at that moment the new agent is between two attempts or about to attach a collection whose maps are
  the pinned ones, then after at least five further actions of its own, interleaved in any way with what else happens, it
  is ready, with its scheduler in the slot and with the maps of its own scheduler open, which are not the old agent's.
  The side conditions: the new agent is not canceled or killed, nothing is ejected, only these two agents act, its attempts after the
  hand-off meet no error, its watchers start, and no foreign scheduler takes the slot first.
\<close>

theorem handover_completes:
  fixes acts mid post ok ok'
  defines "n \<equiv> node_run acts fresh_node"
  assumes "nd_phase n old = Running g opened" "nd_slot n = Ours old" "nd_done n old"
    and "in_retry_loop (nd_phase n new)" "\<not> nd_done n new"
    and "list_all (while_waiting old new) mid" "list_all (while_taking old new) post"
  defines "m \<equiv> node_run (Act old ok # mid) n"
  defines "n' \<equiv> node_run (Act old ok' # post) m"
  assumes "can_take_over new m" "5 \<le> count_list post (Act new True)"
  shows "nd_slot m = Ours old \<and> nd_phase n' old = Exited \<and> nd_slot n' = Ours new \<and> agent_ready new n' \<and>
    (\<exists>h. nd_phase n' new = Running h (Some h) \<and> nd_pins n' = Some h \<and> h \<noteq> g)"
proof -
  have ne: "old \<noteq> new" using assms(2,5) by (auto simp: in_retry_loop_def)
  have "g < nd_next n"
    using numbers_reachable [of acts] assms(2) by (auto simp: n_def numbers_ok_def dest: spec [of _ old])
  then have "retrying old new g (node_step (Act old ok) n)"
    using ne assms(2-6) by (auto simp: retrying_def node_step_def agent_act_def)
  then have w: "retrying old new g m" using retrying_run [OF ne _ assms(7)] by (simp add: m_def)
  then have "taking old new g (node_step (Act old ok') m)"
    using ne assms(11) by (cases "nd_phase m new") (auto simp: retrying_def taking_def can_take_over_def node_step_def agent_act_def)
  from taking_run [OF ne this assms(8)]
  have t: "taking old new g n'" and "to_go (nd_phase n' new) = to_go (nd_phase (node_step (Act old ok') m) new) - count_list post (Act new True)"
    by (simp_all add: n'_def)
  moreover have "to_go ph \<le> 5" for ph by (cases ph) (simp_all add: to_go_def)
  ultimately have "to_go (nd_phase n' new) = 0" using assms(12) by (metis diff_is_0_eq order.trans)
  from taken [OF t this] t w show ?thesis by (auto simp: taking_def retrying_def)
qed

text \<open>The new agent makes a whole attempt after the pins are gone, and is about to attach when the link is closed.\<close>

definition handover_mid :: "action list" where
  "handover_mid = [Act 1 True, Act 1 True, Act 1 True, Cancel 0, Act 1 True, Act 1 True, Act 1 True]"

lemma handover_mid_state:
  "can_take_over 1 (node_run (Act 0 True # handover_mid) (node_run (handover_acts @ [Cancel 0]) fresh_node))"
  by (simp add: handover_mid_def handover_acts_def node_step_def agent_act_def set_phase_def create_collection_def store_ready_def
      attach_def check_retry_def schedulerContended_def fresh_node_def wake_def can_take_over_def)

theorem handover_completes_witness:
  "\<exists>h. nd_phase (node_run (Act 0 True # [Act 1 True, Act 1 True, Act 0 False, Act 1 True, Act 1 True, ForeignOff, Act 1 True])
     (node_run (Act 0 True # handover_mid) (node_run (handover_acts @ [Cancel 0]) fresh_node))) 1 = Running h (Some h) \<and> h \<noteq> 0"
proof -
  let ?n = "node_run (handover_acts @ [Cancel 0]) fresh_node"
  have "nd_phase ?n 0 = Running 0 (Some 0)" "nd_slot ?n = Ours 0" "nd_done ?n 0" "in_retry_loop (nd_phase ?n 1)" "\<not> nd_done ?n 1"
    using handover_start by (simp_all add: node_run_append node_step_def in_retry_loop_def)
  note handover_completes [OF this _ _ handover_mid_state, of "[Act 1 True, Act 1 True, Act 0 False, Act 1 True, Act 1 True, ForeignOff, Act 1 True]" True]
  moreover have "list_all (while_waiting 0 1) handover_mid"
    "list_all (while_taking 0 1) [Act 1 True, Act 1 True, Act 0 False, Act 1 True, Act 1 True, ForeignOff, Act 1 True]"
    "5 \<le> count_list [Act 1 True, Act 1 True, Act 0 False, Act 1 True, Act 1 True, ForeignOff, Act 1 True] (Act 1 True)"
    by (simp_all add: handover_mid_def while_waiting_def while_taking_def)
  ultimately show ?thesis by blast
qed

text \<open>The old agent 0 closes its link between a failed attempt of agent 1 and its look at the slot.\<close>

definition lost_race :: "action list" where
  "lost_race = [Act 0 True, Act 0 True, Act 0 True, Act 0 True, Act 1 True, Act 1 True, Cancel 0, Act 0 True, Act 0 True,
     Act 1 True, Act 1 True]"

text \<open>The old agent 0 shuts down between agent 1's creating its collection and attaching.\<close>

definition lost_maps :: "action list" where
  "lost_maps = [Act 0 True, Act 0 True, Act 0 True, Act 0 True, Act 1 True, Cancel 0, Act 0 True, Act 0 True,
     Act 1 True, Act 1 True, Act 1 True]"

text \<open>
  C31 (handover_gap). The hand-off can also fail. When the old agent closes its link after an attempt of
  the new agent failed and before the new agent looks for the reason, the new agent takes the free
  slot for a foreign scheduler's and stays in observe-only mode for good, with no scheduler on the node.
  When the old agent removes the pins after the new agent's collection reused the pinned maps,
  the new agent attaches and reports ready with no maps open, so it never writes a parameter.
\<close>

theorem handover_gap:
  "(nd_slot (node_run lost_race fresh_node) = Free \<and> nd_phase (node_run lost_race fresh_node) 0 = Exited \<and>
    nd_phase (node_run lost_race fresh_node) 1 = ObserveOnly \<and> \<not> nd_done (node_run lost_race fresh_node) 1 \<and>
    node_run (replicate k (Act 1 ok)) (node_run lost_race fresh_node) = node_run lost_race fresh_node) \<and>
   (nd_slot (node_run lost_maps fresh_node) = Ours 1 \<and> agent_ready 1 (node_run lost_maps fresh_node) \<and>
    nd_phase (node_run lost_maps fresh_node) 1 = Running 0 None)"
proof -
  note defs = node_step_def agent_act_def set_phase_def create_collection_def attach_def
    check_retry_def schedulerContended_def fresh_node_def agent_ready_def store_ready_def drop_link_def
  let ?n = "node_run lost_race fresh_node"
  have race: "nd_slot ?n = Free" "nd_phase ?n 0 = Exited" "nd_phase ?n 1 = ObserveOnly" "\<not> nd_done ?n 1"
    by (simp_all add: lost_race_def defs)
  have "node_step (Act 1 ok) ?n = ?n" using race by (simp add: node_step_def agent_act_def)
  then have "node_run (replicate k (Act 1 ok)) ?n = ?n" by (induction k) simp_all
  moreover have "nd_slot (node_run lost_maps fresh_node) = Ours 1" "agent_ready 1 (node_run lost_maps fresh_node)"
    "nd_phase (node_run lost_maps fresh_node) 1 = Running 0 None"
    by (simp_all add: lost_maps_def defs)
  ultimately show ?thesis using race by blast
qed

text \<open>An agent whose watchers do not start, among whatever else happens on the node.\<close>

lemma starting_kept:
  assumes "nd_phase n i = Starting g opened" "Act i True \<notin> set acts" "Kill i \<notin> set acts"
  shows "nd_phase (node_run acts n) i = Starting g opened"
  using assms
proof (induction acts arbitrary: n)
  case (Cons act acts)
  have "nd_phase (node_step act n) i = Starting g opened"
  proof (cases act)
    case (Act j ok)
    with Cons.prems(1,2) show ?thesis
      by (cases "j = i"; cases ok) (simp_all add: node_step_def act_other, simp_all add: agent_act_def)
  qed (use Cons.prems in \<open>auto simp: node_step_def split: slot.splits\<close>)
  with Cons.IH Cons.prems(2,3) show ?case by simp
qed simp

text \<open>
  C20 (blocked_start). An agent that has loaded its scheduler and whose watchers do not start keeps the kernel's
  slot whatever happens on the node short of an ejection by the kernel or the agent's being killed, also after its context is
  canceled: no agent on the node becomes ready, and the agent that is to replace it cannot attach.
\<close>

theorem blocked_start:
  assumes "nd_phase (node_run acts fresh_node) i = Starting g opened" "Act i True \<notin> set later"
    and "Kill i \<notin> set later" "Eject \<notin> set acts" "Eject \<notin> set later"
  defines "n' \<equiv> node_run later (node_run acts fresh_node)"
  shows "nd_phase n' i = Starting g opened \<and> nd_slot n' = Ours i \<and> \<not> agent_ready j n'"
proof -
  have n': "n' = node_run (acts @ later) fresh_node" by (simp add: n'_def node_run_append)
  have none: "\<not> ejected k (acts @ later) fresh_node" for k using assms(4,5) by (simp add: not_ejected)
  have ph: "nd_phase n' i = Starting g opened" unfolding n'_def by (rule starting_kept [OF assms(1-3)])
  with reachable_owner [of "acts @ later" i] none have slot: "nd_slot n' = Ours i" by (simp add: n')
  have "\<not> agent_ready j n'"
  proof
    assume "agent_ready j n'"
    then obtain g' opened' where "nd_phase n' j = Running g' opened'" using flag_ok_ready [OF fresh_flag] n' by blast
    with reachable_owner [of "acts @ later" j] none slot ph show False by (simp add: n')
  qed
  with ph slot show ?thesis by blast
qed

theorem blocked_start_witness:
  "nd_slot (node_run [Cancel 0, Act 0 False, Act 1 True, Act 1 True, Act 1 True]
     (node_run [Act 0 True, Act 0 True, Act 0 True] fresh_node)) = Ours 0 \<and>
   \<not> agent_ready 1 (node_run [Cancel 0, Act 0 False, Act 1 True, Act 1 True, Act 1 True]
     (node_run [Act 0 True, Act 0 True, Act 0 True] fresh_node))"
proof -
  have "nd_phase (node_run [Act 0 True, Act 0 True, Act 0 True] fresh_node) 0 = Starting 0 (Some 0)"
    by (simp add: node_step_def agent_act_def set_phase_def create_collection_def attach_def fresh_node_def)
  from blocked_start [OF this, of "[Cancel 0, Act 0 False, Act 1 True, Act 1 True, Act 1 True]" 1] show ?thesis by simp
qed

end
