(* ===== verification/Start_Up.thy ===== *)
theory Start_Up
  imports Agent_Run Handover
begin

text \<open>
  Starting and stopping the agent: \<^verbatim>\<open>Run\<close>, \<^verbatim>\<open>startMetricsServer\<close> and the periodic loops of \<^verbatim>\<open>internal/sched/agent.go\<close>,
  \<^verbatim>\<open>Start\<close> and \<^verbatim>\<open>pollPolicies\<close> of \<^verbatim>\<open>internal/policy/resolver.go\<close>, \<^verbatim>\<open>Start\<close> of \<^verbatim>\<open>internal/k8s/watcher.go\<close>. The state is the place of
  \<^verbatim>\<open>Run\<close>, the two signals (the context and the channel \<^verbatim>\<open>stopCh\<close>), the status of every goroutine, and the running
  agent of \<^verbatim>\<open>Agent_Run\<close>, whose steps are possible only while the goroutine that takes them is there.
\<close>

subsection \<open>State\<close>

text \<open>The next statement of \<^verbatim>\<open>Run\<close>, from the call of the resolver's \<^verbatim>\<open>Start\<close> on.\<close>

datatype run_pc =
    PClient          \<comment> \<open>in the resolver's \<^verbatim>\<open>Start\<close>: creating the dynamic client\<close>
  | PHandler         \<comment> \<open>registering the event handler\<close>
  | PSync            \<comment> \<open>\<^verbatim>\<open>WaitForCacheSync\<close>\<close>
  | PWatch           \<comment> \<open>the pod watcher's \<^verbatim>\<open>Start\<close>\<close>
  | PServe           \<comment> \<open>\<^verbatim>\<open>startMetricsServer\<close>\<close>
  | PPeriodic        \<comment> \<open>the three periodic loops\<close>
  | PReady           \<comment> \<open>\<^verbatim>\<open>a.ready.Store(schedLoaded)\<close>\<close>
  | PWait            \<comment> \<open>\<^verbatim>\<open><-ctx.Done()\<close>\<close>
  | PClose           \<comment> \<open>\<^verbatim>\<open>close(stopCh)\<close>\<close>
  | PBroadcaster     \<comment> \<open>shutting down the event broadcaster\<close>
  | PHttp            \<comment> \<open>shutting down the HTTP server\<close>
  | PUnpin           \<comment> \<open>deferred: removing the pin directory\<close>
  | PDetach          \<comment> \<open>deferred: closing the link\<close>
  | PReturned

datatype go_id = PolicyInformer | Poller | PodInformer | Server | Cleanup | Export | Writeback

datatype go_status =
    GOff             \<comment> \<open>not started\<close>
  | GNew             \<comment> \<open>started, before its loop\<close>
  | GLoop
  | GEnded

text \<open>What is not nil in the agent.\<close>

record config =
  cf_resolver :: bool
  cf_watcher :: bool
  cf_mapOps :: bool
  cf_dynClient :: bool
  cf_broadcaster :: bool

record ('sel, 'x, 'p) life =
  lf_pc :: run_pc
  lf_loaded :: "(nat \<times> nat option) option"     \<comment> \<open>\<^verbatim>\<open>schedLoaded\<close>, with the maps of the scheduler and those opened\<close>
  lf_done :: bool                                \<comment> \<open>the context is done\<close>
  lf_stopped :: bool                             \<comment> \<open>\<^verbatim>\<open>stopCh\<close> is closed\<close>
  lf_synced :: bool                              \<comment> \<open>\<^verbatim>\<open>informer.HasSynced()\<close>\<close>
  lf_ready :: bool
  lf_http_down :: bool
  lf_events_down :: bool
  lf_go :: "go_id \<Rightarrow> go_status"
  lf_run :: "('sel, 'x, 'p) running"

definition spawn :: "go_id \<Rightarrow> ('sel, 'x, 'p) life \<Rightarrow> ('sel, 'x, 'p) life" where
  "spawn g s = s\<lparr>lf_go := (lf_go s)(g := GNew)\<rparr>"

definition life_start :: "(nat \<times> nat option) option \<Rightarrow> ('sel, 'x, 'p) running \<Rightarrow> ('sel, 'x, 'p) life" where
  "life_start loaded rn =
     \<lparr>lf_pc = PClient, lf_loaded = loaded, lf_done = False, lf_stopped = False, lf_synced = False, lf_ready = False,
      lf_http_down = False, lf_events_down = False, lf_go = (\<lambda>_. GOff), lf_run = rn\<rparr>"

subsection \<open>The goroutine of Run\<close>

text \<open>
  The resolver's \<^verbatim>\<open>Start\<close>: \<open>ok\<close> says whether the dynamic client is created and whether the handler is registered.
  \<^verbatim>\<open>WaitForCacheSync\<close> returns true once the informer's store is synced and false once \<open>stopCh\<close> is closed; when both
  are the case \<open>ok\<close> says which of them it sees.
\<close>

definition resolver_start :: "bool \<Rightarrow> ('sel, 'x, 'p) life \<Rightarrow> ('sel, 'x, 'p) life" where
  "resolver_start ok s =
     (case lf_pc s of
        PClient \<Rightarrow> if ok then s\<lparr>lf_pc := PHandler\<rparr> else (spawn Poller s)\<lparr>lf_pc := PWatch\<rparr>
      | PHandler \<Rightarrow> if ok then (spawn PolicyInformer s)\<lparr>lf_pc := PSync\<rparr> else (spawn Poller s)\<lparr>lf_pc := PWatch\<rparr>
      | PSync \<Rightarrow>
          if lf_synced s \<and> ok then s\<lparr>lf_pc := PWatch\<rparr>
          else if lf_stopped s \<and> \<not> ok then (spawn Poller s)\<lparr>lf_pc := PWatch\<rparr>
          else s
      | _ \<Rightarrow> s)"

text \<open>The pod watcher's \<^verbatim>\<open>Start\<close>: \<open>ok\<close> says whether the handler is registered.\<close>

definition watcher_start :: "bool \<Rightarrow> ('sel, 'x, 'p) life \<Rightarrow> ('sel, 'x, 'p) life" where
  "watcher_start ok s = (if ok then spawn PodInformer s else s)"

definition main_step :: "config \<Rightarrow> bool \<Rightarrow> ('sel, 'x, 'p) life \<Rightarrow> ('sel, 'x, 'p) life" where
  "main_step cfg ok s =
     (case lf_pc s of
        PClient \<Rightarrow> if cf_resolver cfg then resolver_start ok s else s\<lparr>lf_pc := PWatch\<rparr>
      | PHandler \<Rightarrow> resolver_start ok s
      | PSync \<Rightarrow> resolver_start ok s
      | PWatch \<Rightarrow> (if cf_watcher cfg then watcher_start ok s else s)\<lparr>lf_pc := PServe\<rparr>
      | PServe \<Rightarrow> (spawn Server s)\<lparr>lf_pc := PPeriodic\<rparr>
      | PPeriodic \<Rightarrow> (spawn Writeback (spawn Export (spawn Cleanup s)))\<lparr>lf_pc := PReady\<rparr>
      | PReady \<Rightarrow> s\<lparr>lf_ready := lf_loaded s \<noteq> None, lf_pc := PWait\<rparr>
      | PWait \<Rightarrow> if lf_done s then s\<lparr>lf_pc := PClose\<rparr> else s
      | PClose \<Rightarrow> s\<lparr>lf_stopped := True, lf_pc := PBroadcaster\<rparr>
      | PBroadcaster \<Rightarrow> s\<lparr>lf_events_down := cf_broadcaster cfg, lf_pc := PHttp\<rparr>
      | PHttp \<Rightarrow> s\<lparr>lf_http_down := True, lf_pc := (if lf_loaded s = None then PReturned else PUnpin)\<rparr>
      | PUnpin \<Rightarrow> s\<lparr>lf_pc := PDetach\<rparr>
      | PDetach \<Rightarrow> s\<lparr>lf_pc := PReturned\<rparr>
      | PReturned \<Rightarrow> s)"

subsection \<open>The other goroutines\<close>

text \<open>
  What a goroutine does before its loop, and how its loop ends: the informers and the poller when \<open>stopCh\<close> is closed, the
  periodic loops when the context is done, the server when it is shut down or fails (\<open>ok\<close> is false). A loop ends
  between two rounds. The first refresh of the poller is a step of its own, below.
\<close>

definition go_enter :: "config \<Rightarrow> go_id \<Rightarrow> bool \<Rightarrow> ('sel, 'x, 'p) life \<Rightarrow> go_status" where
  "go_enter cfg g ok s =
     (case g of
        Poller \<Rightarrow> GNew
      | Server \<Rightarrow> if lf_http_down s \<or> \<not> ok then GEnded else GLoop
      | Export \<Rightarrow> if cf_mapOps cfg then GLoop else GEnded
      | Writeback \<Rightarrow> if cf_dynClient cfg \<and> cf_resolver cfg then GLoop else GEnded
      | _ \<Rightarrow> GLoop)"

definition go_leaves :: "go_id \<Rightarrow> bool \<Rightarrow> ('sel, 'x, 'p) life \<Rightarrow> bool" where
  "go_leaves g ok s =
     (case g of
        PolicyInformer \<Rightarrow> lf_stopped s
      | Poller \<Rightarrow> lf_stopped s
      | PodInformer \<Rightarrow> lf_stopped s \<and> rn_cb (lf_run s) = CIdle
      | Server \<Rightarrow> lf_http_down s \<or> \<not> ok
      | Cleanup \<Rightarrow> lf_done s \<and> rn_sweep (lf_run s) = SIdle
      | Export \<Rightarrow> lf_done s
      | Writeback \<Rightarrow> lf_done s)"

definition go_step :: "config \<Rightarrow> go_id \<Rightarrow> bool \<Rightarrow> ('sel, 'x, 'p) life \<Rightarrow> ('sel, 'x, 'p) life" where
  "go_step cfg g ok s =
     (case lf_go s g of
        GNew \<Rightarrow> s\<lparr>lf_go := (lf_go s)(g := go_enter cfg g ok s)\<rparr>
      | GLoop \<Rightarrow> if go_leaves g ok s then s\<lparr>lf_go := (lf_go s)(g := GEnded)\<rparr> else s
      | _ \<Rightarrow> s)"

text \<open>The goroutine that takes a step of the running agent, and the steps that are possible.\<close>

fun worker :: "('u, 'sel) run_label \<Rightarrow> go_id option" where
  "worker (PodEvent ev) = Some PodInformer"
| "worker (Callback order t) = Some PodInformer"
| "worker (PolicyEvent (PolicyPoll result)) = Some Poller"
| "worker (PolicyEvent ev) = Some PolicyInformer"
| "worker Sweep = Some Cleanup"
| "worker (NodeChange env) = None"

definition can_work :: "('u, 'sel) run_label \<Rightarrow> ('sel, 'x, 'p) life \<Rightarrow> bool" where
  "can_work l s =
     (case worker l of
        None \<Rightarrow> True
      | Some g \<Rightarrow> lf_go s g = GLoop \<or> g = Poller \<and> lf_go s g = GNew)"

definition work_step ::
    "('sel, 'x, 'env, 'ast, 'p, 'o) policy_libs \<Rightarrow> ('u \<Rightarrow> 'sel policy option) \<Rightarrow> u64 map_io \<Rightarrow> u32 map_io
     \<Rightarrow> ('u, 'sel) run_label \<Rightarrow> ('sel, 'x, 'p) life \<Rightarrow> ('sel, 'x, 'p) life" where
  "work_step L conv cgio pidio l s =
     (if can_work l s
      then s\<lparr>lf_run := run_step L conv cgio pidio l (lf_run s),
             lf_go := (if worker l = Some Poller then (lf_go s)(Poller := GLoop) else lf_go s)\<rparr>
      else s)"

subsection \<open>Runs\<close>

datatype ('u, 'sel) life_label =
    StepMain bool
  | StepGo go_id bool
  | CacheSynced                 \<comment> \<open>the store of the policy informer has its first list\<close>
  | CancelContext
  | Work "('u, 'sel) run_label"

definition life_step ::
    "config \<Rightarrow> ('sel, 'x, 'env, 'ast, 'p, 'o) policy_libs \<Rightarrow> ('u \<Rightarrow> 'sel policy option) \<Rightarrow> u64 map_io \<Rightarrow> u32 map_io
     \<Rightarrow> ('u, 'sel) life_label \<Rightarrow> ('sel, 'x, 'p) life \<Rightarrow> ('sel, 'x, 'p) life" where
  "life_step cfg L conv cgio pidio l s =
     (case l of
        StepMain ok \<Rightarrow> main_step cfg ok s
      | StepGo g ok \<Rightarrow> go_step cfg g ok s
      | CacheSynced \<Rightarrow> if lf_go s PolicyInformer = GLoop then s\<lparr>lf_synced := True\<rparr> else s
      | CancelContext \<Rightarrow> s\<lparr>lf_done := True\<rparr>
      | Work w \<Rightarrow> work_step L conv cgio pidio w s)"

definition life_run ::
    "config \<Rightarrow> ('sel, 'x, 'env, 'ast, 'p, 'o) policy_libs \<Rightarrow> ('u \<Rightarrow> 'sel policy option) \<Rightarrow> u64 map_io \<Rightarrow> u32 map_io
     \<Rightarrow> ('u, 'sel) life_label list \<Rightarrow> ('sel, 'x, 'p) life \<Rightarrow> ('sel, 'x, 'p) life" where
  "life_run cfg L conv cgio pidio ls s = fold (life_step cfg L conv cgio pidio) ls s"

lemma life_run_simps [simp]:
  "life_run cfg L conv cgio pidio [] s = s"
  "life_run cfg L conv cgio pidio (l # ls) s = life_run cfg L conv cgio pidio ls (life_step cfg L conv cgio pidio l s)"
  "life_run cfg L conv cgio pidio (ls @ ms) s = life_run cfg L conv cgio pidio ms (life_run cfg L conv cgio pidio ls s)"
  by (simp_all add: life_run_def)


subsection \<open>Invariant\<close>

fun rank :: "run_pc \<Rightarrow> nat" where
  "rank PClient = 0"
| "rank PHandler = 1"
| "rank PSync = 2"
| "rank PWatch = 3"
| "rank PServe = 4"
| "rank PPeriodic = 5"
| "rank PReady = 6"
| "rank PWait = 7"
| "rank PClose = 8"
| "rank PBroadcaster = 9"
| "rank PHttp = 10"
| "rank PUnpin = 11"
| "rank PDetach = 12"
| "rank PReturned = 13"

text \<open>Which goroutines can be there, how far \<^verbatim>\<open>Run\<close> has come.\<close>

definition started_ok :: "('sel, 'x, 'p) life \<Rightarrow> bool" where
  "started_ok s \<longleftrightarrow>
     (lf_go s PolicyInformer \<noteq> GOff \<longrightarrow> 1 < rank (lf_pc s)) \<and> (lf_go s Poller \<noteq> GOff \<longrightarrow> 2 < rank (lf_pc s)) \<and>
     (lf_go s PodInformer \<noteq> GOff \<longrightarrow> 3 < rank (lf_pc s)) \<and> (lf_go s Server \<noteq> GOff \<longrightarrow> 4 < rank (lf_pc s)) \<and>
     (lf_go s Cleanup \<noteq> GOff \<longrightarrow> 5 < rank (lf_pc s)) \<and> (lf_go s Export \<noteq> GOff \<longrightarrow> 5 < rank (lf_pc s)) \<and>
     (lf_go s Writeback \<noteq> GOff \<longrightarrow> 5 < rank (lf_pc s))"

text \<open>How the policies are followed: by the informer or by polling, and which of them is there when the pods are.\<close>

definition policies_ok :: "config \<Rightarrow> ('sel, 'x, 'p) life \<Rightarrow> bool" where
  "policies_ok cfg s \<longleftrightarrow>
     (lf_go s Poller \<noteq> GOff \<longrightarrow> lf_go s PolicyInformer = GOff) \<and>
     (lf_pc s = PSync \<longrightarrow> lf_go s PolicyInformer \<noteq> GOff) \<and>
     (cf_resolver cfg \<and> 2 < rank (lf_pc s) \<longrightarrow>
        lf_go s PolicyInformer \<noteq> GOff \<and> lf_synced s \<or> lf_go s Poller \<noteq> GOff)"

text \<open>The signals and flags.\<close>

definition flags_ok :: "('sel, 'x, 'p) life \<Rightarrow> bool" where
  "flags_ok s \<longleftrightarrow>
     (7 < rank (lf_pc s) \<longrightarrow> lf_done s) \<and> (lf_stopped s \<longleftrightarrow> 8 < rank (lf_pc s)) \<and>
     (lf_http_down s \<longleftrightarrow> 10 < rank (lf_pc s)) \<and> (lf_ready s \<longleftrightarrow> 6 < rank (lf_pc s) \<and> lf_loaded s \<noteq> None)"

definition life_ok :: "config \<Rightarrow> ('sel, 'x, 'p) life \<Rightarrow> bool" where
  "life_ok cfg s \<longleftrightarrow> started_ok s \<and> policies_ok cfg s \<and> flags_ok s"

lemmas life_ok_defs = life_ok_def started_ok_def policies_ok_def flags_ok_def

lemma spawn_sel [simp]:
  "lf_pc (spawn g s) = lf_pc s" "lf_loaded (spawn g s) = lf_loaded s" "lf_done (spawn g s) = lf_done s"
  "lf_stopped (spawn g s) = lf_stopped s" "lf_synced (spawn g s) = lf_synced s" "lf_ready (spawn g s) = lf_ready s"
  "lf_http_down (spawn g s) = lf_http_down s" "lf_run (spawn g s) = lf_run s"
  "lf_go (spawn g s) = (lf_go s)(g := GNew)"
  by (simp_all add: spawn_def)

lemmas main_defs = main_step_def resolver_start_def watcher_start_def

lemma main_started: "started_ok s \<Longrightarrow> started_ok (main_step cfg ok s)"
  by (cases "lf_pc s") (simp_all add: main_defs started_ok_def)

lemma main_flags: "flags_ok s \<Longrightarrow> flags_ok (main_step cfg ok s)"
  by (cases "lf_pc s") (simp_all add: main_defs flags_ok_def)

lemma main_policies:
  assumes "started_ok s" "flags_ok s" "policies_ok cfg s"
  shows "policies_ok cfg (main_step cfg ok s)"
proof -
  have "\<not> lf_stopped s" if "lf_pc s = PSync" using assms(2) that by (simp add: flags_ok_def)
  with assms(1,3) show ?thesis by (cases "lf_pc s") (simp_all add: main_defs started_ok_def policies_ok_def)
qed

lemma main_step_ok: "life_ok cfg s \<Longrightarrow> life_ok cfg (main_step cfg ok s)"
  by (simp add: life_ok_def main_started main_flags main_policies)

text \<open>A goroutine keeps to its own status, and one that has been started is never taken for one that has not.\<close>

lemma go_enter_on: "go_enter cfg g ok s \<noteq> GOff"
  by (cases g) (simp_all add: go_enter_def)

lemma go_step_sel:
  "lf_pc (go_step cfg g ok s) = lf_pc s" "lf_loaded (go_step cfg g ok s) = lf_loaded s" "lf_done (go_step cfg g ok s) = lf_done s"
  "lf_stopped (go_step cfg g ok s) = lf_stopped s" "lf_synced (go_step cfg g ok s) = lf_synced s"
  "lf_ready (go_step cfg g ok s) = lf_ready s" "lf_http_down (go_step cfg g ok s) = lf_http_down s"
  "lf_run (go_step cfg g ok s) = lf_run s" "lf_go (go_step cfg g ok s) h = GOff \<longleftrightarrow> lf_go s h = GOff"
  using go_enter_on [of cfg g ok s] by (auto simp: go_step_def split: go_status.splits)

lemma work_step_sel:
  "lf_pc (work_step L conv cgio pidio w s) = lf_pc s" "lf_loaded (work_step L conv cgio pidio w s) = lf_loaded s"
  "lf_done (work_step L conv cgio pidio w s) = lf_done s" "lf_stopped (work_step L conv cgio pidio w s) = lf_stopped s"
  "lf_synced (work_step L conv cgio pidio w s) = lf_synced s" "lf_ready (work_step L conv cgio pidio w s) = lf_ready s"
  "lf_http_down (work_step L conv cgio pidio w s) = lf_http_down s"
  "lf_go (work_step L conv cgio pidio w s) h = GOff \<longleftrightarrow> lf_go s h = GOff"
  by (auto simp: work_step_def can_work_def)

lemma life_step_ok: "life_ok cfg s \<Longrightarrow> life_ok cfg (life_step cfg L conv cgio pidio l s)"
proof (cases l)
  case (StepMain ok)
  then show "life_ok cfg s \<Longrightarrow> ?thesis" by (simp add: life_step_def main_step_ok)
next
  case CacheSynced
  then show "life_ok cfg s \<Longrightarrow> ?thesis"
    by (cases "lf_go s PolicyInformer = GLoop") (auto simp: life_step_def life_ok_defs)
qed (simp_all add: life_step_def life_ok_defs go_step_sel work_step_sel)

lemma life_start_ok: "life_ok cfg (life_start loaded rn)"
  by (simp add: life_start_def life_ok_defs)

lemma life_run_ok: "life_ok cfg s \<Longrightarrow> life_ok cfg (life_run cfg L conv cgio pidio ls s)"
  by (induction ls arbitrary: s) (simp_all add: life_step_ok)

lemma main_step_done: "lf_done (main_step cfg ok s) = lf_done s"
  by (cases "lf_pc s") (simp_all add: main_step_def resolver_start_def watcher_start_def)

lemma life_step_done: "lf_done (life_step cfg L conv cgio pidio l s) \<longleftrightarrow> lf_done s \<or> l = CancelContext"
  by (cases l) (simp_all add: life_step_def main_step_done go_step_sel work_step_sel)

lemma done_kept: "lf_done s \<Longrightarrow> lf_done (life_run cfg L conv cgio pidio ls s)"
  by (induction ls arbitrary: s) (simp_all add: life_step_done)

lemma done_after: "CancelContext \<in> set ls \<Longrightarrow> lf_done (life_run cfg L conv cgio pidio ls s)"
  by (induction ls arbitrary: s) (auto simp: life_step_done done_kept)

subsection \<open>Waiting for the policies\<close>

text \<open>
  C7 (start_order). In every interleaving: pods are watched only when the policy informer is synced or polling has
  been started, never both; the fallback to polling behind a failed sync is never taken, so polling means that the client or the
  handler could not be set up; the agent is ready only with a scheduler attached; and \<^verbatim>\<open>Run\<close> returns only
  after the context is done and with \<open>stopCh\<close> closed and the server down.
\<close>

theorem start_order:
  fixes L conv cgio pidio ls rn loaded
  assumes "cf_resolver cfg"
  defines "s \<equiv> life_run cfg L conv cgio pidio ls (life_start loaded rn)"
  shows "(lf_go s PodInformer \<noteq> GOff \<longrightarrow> (lf_go s PolicyInformer \<noteq> GOff \<and> lf_synced s) \<noteq> (lf_go s Poller \<noteq> GOff)) \<and>
    (lf_pc s = PSync \<longrightarrow> lf_pc (main_step cfg ok s) = PWatch \<longrightarrow> lf_synced s \<and> lf_go (main_step cfg ok s) Poller = GOff) \<and>
    (lf_ready s \<longrightarrow> lf_loaded s \<noteq> None) \<and>
    (lf_pc s = PReturned \<longrightarrow> lf_done s \<and> lf_stopped s \<and> lf_http_down s)"
proof -
  have "life_ok cfg s" unfolding s_def by (rule life_run_ok [OF life_start_ok])
  then have o: "started_ok s" "policies_ok cfg s" "flags_ok s" by (simp_all add: life_ok_def)
  have "(lf_go s PolicyInformer \<noteq> GOff \<and> lf_synced s) \<noteq> (lf_go s Poller \<noteq> GOff)" if "lf_go s PodInformer \<noteq> GOff"
  proof -
    have "2 < rank (lf_pc s)" using o(1) that by (simp add: started_ok_def)
    with o(2) assms(1) show ?thesis unfolding policies_ok_def by blast
  qed
  moreover have "lf_synced s \<and> lf_go (main_step cfg ok s) Poller = GOff" if "lf_pc s = PSync" "lf_pc (main_step cfg ok s) = PWatch"
  proof -
    have "\<not> lf_stopped s" "lf_go s Poller = GOff" using o(1,3) that(1) by (auto simp: flags_ok_def started_ok_def)
    with that show ?thesis by (simp add: main_defs split: if_splits)
  qed
  moreover have "lf_loaded s \<noteq> None" if "lf_ready s" using o(3) that by (simp add: flags_ok_def)
  moreover have "lf_done s \<and> lf_stopped s \<and> lf_http_down s" if "lf_pc s = PReturned" using o(3) that by (simp add: flags_ok_def)
  ultimately show ?thesis by blast
qed

text \<open>\<^verbatim>\<open>Run\<close> in \<^verbatim>\<open>WaitForCacheSync\<close>, before anything that follows.\<close>

definition waiting :: "agent_maps \<Rightarrow> ('sel, 'x, 'p) life \<Rightarrow> bool" where
  "waiting m s \<longleftrightarrow> lf_pc s = PSync \<and> \<not> lf_synced s \<and> \<not> lf_stopped s \<and> \<not> lf_ready s \<and>
     (\<forall>g. g \<noteq> PolicyInformer \<longrightarrow> lf_go s g = GOff) \<and> mapOps (rn_agent (lf_run s)) = m"

lemma waiting_work: "waiting m s \<Longrightarrow> waiting m (work_step L conv cgio pidio w s)"
  by (cases w rule: worker.cases) (auto simp: waiting_def work_step_def can_work_def run_step_def)

lemma waiting_step: "waiting m s \<Longrightarrow> l \<noteq> CacheSynced \<Longrightarrow> waiting m (life_step cfg L conv cgio pidio l s)"
proof (cases l)
  case (StepMain ok)
  then show "waiting m s \<Longrightarrow> ?thesis" by (auto simp: life_step_def waiting_def main_step_def resolver_start_def)
next
  case (StepGo g ok)
  then show "waiting m s \<Longrightarrow> ?thesis" by (simp add: life_step_def waiting_def go_step_sel)
next
  case (Work w)
  then show "waiting m s \<Longrightarrow> ?thesis" by (simp add: life_step_def waiting_work)
qed (simp_all add: life_step_def waiting_def)

lemma waiting_run: "waiting m s \<Longrightarrow> CacheSynced \<notin> set ls \<Longrightarrow> waiting m (life_run cfg L conv cgio pidio ls s)"
  by (induction ls arbitrary: s) (auto simp: waiting_step)

text \<open>
  C9 (sync_blocks). While the policy informer does not sync, for instance because the CRD is not installed, \<^verbatim>\<open>Run\<close> stays in
  the resolver's \<^verbatim>\<open>Start\<close>: pods are not watched and no parameter is written, no server, loop or readiness is set up,
  and canceling the context has no effect, because the channel that would end the wait is closed only after it.
\<close>

theorem sync_blocks:
  fixes L conv cgio pidio rn loaded
  assumes "cf_resolver cfg" "CacheSynced \<notin> set ls"
  defines "s \<equiv> life_run cfg L conv cgio pidio ([StepMain True, StepMain True] @ ls) (life_start loaded rn)"
  shows "lf_pc s = PSync \<and> \<not> lf_ready s \<and> \<not> lf_stopped s \<and> (CancelContext \<in> set ls \<longrightarrow> lf_done s) \<and>
    lf_go s Poller = GOff \<and> lf_go s PodInformer = GOff \<and> lf_go s Server = GOff \<and> lf_go s Cleanup = GOff \<and>
    mapOps (rn_agent (lf_run s)) = mapOps (rn_agent rn)"
proof -
  let ?s0 = "life_run cfg L conv cgio pidio [StepMain True, StepMain True] (life_start loaded rn)"
  have "waiting (mapOps (rn_agent rn)) ?s0"
    using assms(1) by (simp add: waiting_def life_step_def main_step_def resolver_start_def life_start_def)
  from waiting_run [OF this assms(2)] have "waiting (mapOps (rn_agent rn)) s" unfolding s_def life_run_simps(3) .
  moreover have "lf_done s" if "CancelContext \<in> set ls" unfolding s_def life_run_simps(3) by (rule done_after [OF that])
  ultimately show ?thesis by (auto simp: waiting_def)
qed


subsection \<open>The agent on its node\<close>

text \<open>The phase of \<^verbatim>\<open>Handover\<close> that the place of \<^verbatim>\<open>Run\<close> is a part of.\<close>

definition phase_of :: "('sel, 'x, 'p) life \<Rightarrow> phase" where
  "phase_of s =
     (case lf_loaded s of
        Some (g, opened) \<Rightarrow>
          (if rank (lf_pc s) < 7 then Starting g opened
           else if lf_pc s = PDetach then Unpinned
           else if lf_pc s = PReturned then Exited
           else Running g opened)
      | None \<Rightarrow>
          (if rank (lf_pc s) < 7 then StartingObserve
           else if lf_pc s = PReturned then Exited
           else ObserveOnly))"

lemma phase_of_cong: "lf_pc s' = lf_pc s \<Longrightarrow> lf_loaded s' = lf_loaded s \<Longrightarrow> phase_of s' = phase_of s"
  by (simp only: phase_of_def)

definition is_main :: "('u, 'sel) life_label \<Rightarrow> bool" where
  "is_main l = (case l of StepMain ok \<Rightarrow> True | _ \<Rightarrow> False)"

lemma other_keeps_pc: "\<not> is_main l \<Longrightarrow> lf_pc (life_step cfg L conv cgio pidio l s) = lf_pc s"
  by (cases l) (simp_all add: is_main_def life_step_def go_step_sel work_step_sel)

lemma main_step_loaded: "lf_loaded (main_step cfg ok s) = lf_loaded s"
  by (cases "lf_pc s") (simp_all add: main_defs)

lemma life_step_loaded: "lf_loaded (life_step cfg L conv cgio pidio l s) = lf_loaded s"
  by (cases l) (simp_all add: life_step_def main_step_loaded go_step_sel work_step_sel)

lemma other_phase: "\<not> is_main l \<Longrightarrow> phase_of (life_step cfg L conv cgio pidio l s) = phase_of s"
  by (intro phase_of_cong other_keeps_pc life_step_loaded)

text \<open>A step of \<^verbatim>\<open>Run\<close> is an action of the agent or stays within a phase.\<close>

lemma main_phase:
  assumes "flags_ok s" "nd_phase n i = phase_of s" "nd_done n i = lf_done s"
  shows "phase_of (main_step cfg ok s) = phase_of s \<or> phase_of (main_step cfg ok s) = nd_phase (agent_act i True n) i"
proof (cases "lf_loaded s")
  case None
  with assms show ?thesis
    by (cases "lf_pc s") (simp_all add: main_defs phase_of_def agent_act_def flags_ok_def)
next
  case (Some p)
  with assms show ?thesis
    by (cases p; cases "lf_pc s") (simp_all add: main_defs phase_of_def agent_act_def flags_ok_def)
qed

lemma life_phase:
  assumes "life_ok cfg s" "nd_phase n i = phase_of s" "nd_done n i = lf_done s"
  obtains acts where "set acts \<subseteq> {Act i True, Cancel i}" "nd_phase (node_run acts n) i = phase_of (life_step cfg L conv cgio pidio l s)"
    "nd_done (node_run acts n) i = lf_done (life_step cfg L conv cgio pidio l s)"
proof -
  let ?s = "life_step cfg L conv cgio pidio l s"
  consider (main) ok where "l = StepMain ok" | (cancel) "l = CancelContext"
    | (other) "phase_of ?s = phase_of s" "lf_done ?s = lf_done s"
    using other_phase [of l cfg L conv cgio pidio s] life_step_done [of cfg L conv cgio pidio l s]
    by (cases l) (simp_all add: is_main_def)
  then show ?thesis
  proof cases
    case (main ok)
    have d: "lf_done ?s = lf_done s" by (simp add: main life_step_done)
    have "flags_ok s" using assms(1) by (simp add: life_ok_def)
    from main_phase [OF this assms(2,3), of cfg ok] consider "phase_of ?s = phase_of s" | "phase_of ?s = nd_phase (agent_act i True n) i"
      by (auto simp: main life_step_def)
    then show ?thesis
    proof cases
      case 1
      then show ?thesis using that [of "[]"] assms d by simp
    next
      case 2
      then show ?thesis using that [of "[Act i True]"] assms d by (simp add: node_step_def)
    qed
  next
    case cancel
    have "phase_of ?s = phase_of s" by (rule other_phase) (simp add: cancel is_main_def)
    then show ?thesis using that [of "[Cancel i]"] assms by (simp add: cancel life_step_def node_step_def)
  next
    case other
    then show ?thesis using that [of "[]"] assms by simp
  qed
qed

text \<open>
  C18 (run_refines_handover). Every run of the detailed \<^verbatim>\<open>Run\<close>, with its goroutines and the work they do, is for the node a
  sequence of actions of one agent of \<^verbatim>\<open>Handover\<close>, and the readiness flag is the abstract one until the
  deferred calls.
\<close>

theorem run_refines_handover:
  fixes L conv cgio pidio ls rn loaded cfg
  assumes "nd_phase n i = phase_of (life_start loaded rn)" "\<not> nd_done n i"
  defines "s \<equiv> life_run cfg L conv cgio pidio ls (life_start loaded rn)"
  shows "\<exists>acts. set acts \<subseteq> {Act i True, Cancel i} \<and> nd_phase (node_run acts n) i = phase_of s \<and>
    nd_done (node_run acts n) i = lf_done s \<and>
    (agent_ready i (node_run acts n) \<longleftrightarrow> lf_ready s \<and> lf_pc s \<noteq> PDetach \<and> lf_pc s \<noteq> PReturned)"
proof -
  have sim: "\<exists>acts. set acts \<subseteq> {Act i True, Cancel i} \<and> nd_phase (node_run acts n) i = phase_of (life_run cfg L conv cgio pidio ls s0) \<and>
      nd_done (node_run acts n) i = lf_done (life_run cfg L conv cgio pidio ls s0)"
    if "life_ok cfg s0" "nd_phase n i = phase_of s0" "nd_done n i = lf_done s0" for s0 n
    using that
  proof (induction ls arbitrary: s0 n)
    case Nil
    then show ?case by (intro exI [of _ "[]"]) simp
  next
    case (Cons l ls)
    from life_phase [OF Cons.prems, of L conv cgio pidio l] obtain acts where
      a: "set acts \<subseteq> {Act i True, Cancel i}" "nd_phase (node_run acts n) i = phase_of (life_step cfg L conv cgio pidio l s0)"
        "nd_done (node_run acts n) i = lf_done (life_step cfg L conv cgio pidio l s0)" by blast
    from Cons.IH [OF life_step_ok [OF Cons.prems(1)] a(2,3)] obtain acts' where
      b: "set acts' \<subseteq> {Act i True, Cancel i}"
        "nd_phase (node_run acts' (node_run acts n)) i = phase_of (life_run cfg L conv cgio pidio (l # ls) s0)"
        "nd_done (node_run acts' (node_run acts n)) i = lf_done (life_run cfg L conv cgio pidio (l # ls) s0)" by auto
    with a(1) show ?case by (intro exI [of _ "acts @ acts'"]) (simp add: node_run_append)
  qed
  have "nd_done n i = lf_done (life_start loaded rn)" using assms(2) by (simp add: life_start_def)
  from sim [OF life_start_ok assms(1) this] obtain acts where
    acts: "set acts \<subseteq> {Act i True, Cancel i}" "nd_phase (node_run acts n) i = phase_of s" "nd_done (node_run acts n) i = lf_done s"
    unfolding s_def by blast
  have "life_ok cfg s" unfolding s_def by (rule life_run_ok [OF life_start_ok])
  then have "flags_ok s" by (simp add: life_ok_def)
  moreover have "flag_ok n i" using assms(1) by (auto simp: flag_ok_def phase_of_def life_start_def split: option.splits)
  from flag_ok_ready [OF flag_ok_run [OF this, of acts]]
  have "agent_ready i (node_run acts n) \<longleftrightarrow> (\<exists>g opened. phase_of s = Running g opened)" by (simp add: acts(2))
  ultimately have "agent_ready i (node_run acts n) \<longleftrightarrow> lf_ready s \<and> lf_pc s \<noteq> PDetach \<and> lf_pc s \<noteq> PReturned"
    by (auto simp: phase_of_def flags_ok_def split: option.splits)
  with acts show ?thesis by blast
qed

subsection \<open>Shutting down\<close>

lemma main_advances:
  "lf_done s \<Longrightarrow> 2 < rank (lf_pc s) \<Longrightarrow> lf_pc s = PReturned \<or> rank (lf_pc s) < rank (lf_pc (main_step cfg ok s))"
  by (cases "lf_pc s") (simp_all add: main_defs)

lemma main_returned: "lf_pc s = PReturned \<Longrightarrow> main_step cfg ok s = s"
  by (simp add: main_step_def)

lemma rank_returned: "13 \<le> rank pc \<Longrightarrow> pc = PReturned"
  by (cases pc) simp_all

lemma main_ends:
  "lf_done s \<Longrightarrow> 2 < rank (lf_pc s) \<Longrightarrow> 13 \<le> rank (lf_pc s) + length (filter is_main ls) \<Longrightarrow>
   lf_pc (life_run cfg L conv cgio pidio ls s) = PReturned"
proof (induction ls arbitrary: s)
  case Nil
  then show ?case by (simp add: rank_returned)
next
  case (Cons l ls)
  let ?s = "life_step cfg L conv cgio pidio l s"
  have d: "lf_done ?s" using Cons.prems(1) by (simp add: life_step_done)
  show ?case
  proof (cases "is_main l")
    case True
    then obtain ok where l: "l = StepMain ok" by (auto simp: is_main_def split: life_label.splits)
    have "lf_pc s = PReturned \<and> lf_pc ?s = PReturned \<or> rank (lf_pc s) < rank (lf_pc ?s)"
      using main_advances [OF Cons.prems(1,2), of cfg ok] main_returned [of s cfg ok] by (auto simp: l life_step_def)
    then have "2 < rank (lf_pc ?s)" "13 \<le> rank (lf_pc ?s) + length (filter is_main ls)"
      using Cons.prems(2,3) True by auto
    with Cons.IH [OF d] show ?thesis by simp
  next
    case False
    with Cons.IH [OF d] Cons.prems(2,3) other_keeps_pc [OF False, of cfg L conv cgio pidio s] show ?thesis by simp
  qed
qed

text \<open>A callback and a sweep in progress can be completed.\<close>

lemma write_ends: "rn_cb rn = CWrite pod tp todo written err \<Longrightarrow> \<exists>n. rn_cb ((callback_step L cgio pidio order t ^^ n) rn) = CIdle"
proof (induction todo arbitrary: rn written err)
  case Nil
  then have "rn_cb ((callback_step L cgio pidio order t ^^ 2) rn) = CIdle"
    by (simp add: numeral_2_eq_2 callback_step_def write_one_def Let_def)
  then show ?case ..
next
  case (Cons k ks)
  let ?rn = "callback_step L cgio pidio order t rn"
  show ?case
  proof (cases "am_cgroup (mapOps (rn_agent rn))")
    case None
    with Cons.prems have "rn_cb ((callback_step L cgio pidio order t ^^ 2) rn) = CIdle"
      by (simp add: numeral_2_eq_2 callback_step_def write_one_def Let_def)
    then show ?thesis ..
  next
    case (Some cm)
    obtain written' err' cm' where "put_step cgio tp k (written, err, cm) = (written', err', cm')" by (rule prod_cases3)
    with Cons.prems Some have "rn_cb ?rn = CWrite pod tp ks written' err'"
      by (simp add: callback_step_def write_one_def Let_def)
    from Cons.IH [OF this] obtain n where "rn_cb ((callback_step L cgio pidio order t ^^ Suc n) rn) = CIdle"
      by (auto simp: funpow_swap1)
    then show ?thesis ..
  qed
qed

lemma one_more: "\<exists>n. rn_cb ((callback_step L cgio pidio order t ^^ n) (callback_step L cgio pidio order t rn)) = CIdle \<Longrightarrow>
    \<exists>n. rn_cb ((callback_step L cgio pidio order t ^^ n) rn) = CIdle"
proof -
  assume "\<exists>n. rn_cb ((callback_step L cgio pidio order t ^^ n) (callback_step L cgio pidio order t rn)) = CIdle"
  then obtain n where "rn_cb ((callback_step L cgio pidio order t ^^ Suc n) rn) = CIdle" by (auto simp: funpow_swap1)
  then show ?thesis ..
qed

lemma now_idle: "rn_cb rn = CIdle \<Longrightarrow> \<exists>n. rn_cb ((callback_step L cgio pidio order t ^^ n) rn) = CIdle"
  by (rule exI [of _ 0]) simp

lemma update_ends:
  assumes "rn_cb rn = CUpdate pod sp"
  shows "\<exists>n. rn_cb ((callback_step L cgio pidio order t ^^ n) rn) = CIdle"
proof (rule one_more)
  let ?rn = "callback_step L cgio pidio order t rn"
  have "rn_cb ?rn = fst (begin_update pidio (rn_env rn) t pod sp (mapOps (rn_agent rn)))"
    using assms by (simp add: callback_step_def Let_def split: prod.splits)
  then consider pod tp todo written err where "rn_cb ?rn = CWrite pod tp todo written err" | pod err where "rn_cb ?rn = CFinish pod err"
    by (auto simp: begin_update_def Let_def split: option.splits prod.splits if_splits)
  then show "\<exists>n. rn_cb ((callback_step L cgio pidio order t ^^ n) ?rn) = CIdle"
  proof cases
    case 1
    then show ?thesis by (rule write_ends)
  next
    case (2 pod err)
    then show ?thesis by (intro one_more [OF now_idle]) (simp add: callback_step_def Let_def)
  qed
qed

lemma callback_ends: "\<exists>n. rn_cb ((callback_step L cgio pidio order t ^^ n) rn) = CIdle"
proof (cases "rn_cb rn")
  case (CResolve pod)
  obtain matched a where "match_pod L order pod (rn_agent rn) = (matched, a)" by fastforce
  with CResolve show ?thesis by (intro one_more [OF one_more [OF update_ends]]) (simp add: callback_step_def Let_def)
next
  case (CTrack pod matched)
  then show ?thesis by (intro one_more [OF update_ends]) (simp add: callback_step_def Let_def)
next
  case (CUpdate pod sp)
  then show ?thesis by (rule update_ends)
next
  case (CWrite pod tp todo written err)
  then show ?thesis by (rule write_ends)
next
  case CIdle
  then show ?thesis by (rule now_idle)
next
  case (CFinish pod err)
  then show ?thesis by (intro one_more [OF now_idle]) (simp add: callback_step_def Let_def)
next
  case (CRemove pod)
  then show ?thesis by (intro one_more [OF now_idle]) (simp add: callback_step_def Let_def)
qed


lemma stale_ends: "rn_sweep rn = SStale ks \<Longrightarrow> \<exists>n. rn_sweep ((sweep_step cgio pidio ^^ n) rn) = SIdle"
proof (induction ks arbitrary: rn)
  case Nil
  then have "rn_sweep ((sweep_step cgio pidio ^^ 1) rn) = SIdle" by (simp add: sweep_step_def Let_def)
  then show ?case ..
next
  case (Cons k ks)
  then have "rn_sweep (sweep_step cgio pidio rn) = SStale ks" by (simp add: sweep_step_def Let_def)
  from Cons.IH [OF this] obtain n where "rn_sweep ((sweep_step cgio pidio ^^ Suc n) rn) = SIdle" by (auto simp: funpow_swap1)
  then show ?case ..
qed

lemma live_ends:
  assumes "rn_sweep rn = SLive live"
  shows "\<exists>n. rn_sweep ((sweep_step cgio pidio ^^ n) rn) = SIdle"
proof (cases "am_cgroup (mapOps (rn_agent rn))")
  case None
  with assms have "rn_sweep ((sweep_step cgio pidio ^^ 1) rn) = SIdle" by (simp add: sweep_step_def Let_def)
  then show ?thesis ..
next
  case (Some cm)
  with assms obtain ks where "rn_sweep (sweep_step cgio pidio rn) = SStale ks" by (simp add: sweep_step_def Let_def)
  from stale_ends [OF this] obtain n where "rn_sweep ((sweep_step cgio pidio ^^ Suc n) rn) = SIdle" by (auto simp: funpow_swap1)
  then show ?thesis ..
qed

lemma sweep_ends: "\<exists>n. rn_sweep ((sweep_step cgio pidio ^^ n) rn) = SIdle"
proof (cases "rn_sweep rn")
  case SIdle
  then have "rn_sweep ((sweep_step cgio pidio ^^ 0) rn) = SIdle" by simp
  then show ?thesis ..
next
  case SPidsDone
  then consider "rn_sweep (sweep_step cgio pidio rn) = SIdle" | live where "rn_sweep (sweep_step cgio pidio rn) = SLive live"
    by (cases "am_cgroup (mapOps (rn_agent rn))"; cases "liveKubepodsCgroupIDs (rn_env rn) = {}") (simp_all add: sweep_step_def Let_def)
  then show ?thesis
  proof cases
    case 1
    then have "rn_sweep ((sweep_step cgio pidio ^^ 1) rn) = SIdle" by simp
    then show ?thesis ..
  next
    case 2
    from live_ends [OF 2] obtain n where "rn_sweep ((sweep_step cgio pidio ^^ Suc n) rn) = SIdle" by (auto simp: funpow_swap1)
    then show ?thesis ..
  qed
next
  case (SLive live)
  then show ?thesis by (rule live_ends)
next
  case (SStale ks)
  then show ?thesis by (rule stale_ends)
qed

text \<open>Work that is possible is done; it does not change the status of a goroutine, apart from the poller's first refresh.\<close>

lemma work_run:
  assumes "list_all (\<lambda>w. can_work w s) ws"
  obtains go where "life_run cfg L conv cgio pidio (map Work ws) s = s\<lparr>lf_run := run_agent L conv cgio pidio ws (lf_run s), lf_go := go\<rparr>"
    "\<forall>g. g \<noteq> Poller \<longrightarrow> go g = lf_go s g"
proof -
  have "\<exists>go. life_run cfg L conv cgio pidio (map Work ws) s = s\<lparr>lf_run := run_agent L conv cgio pidio ws (lf_run s), lf_go := go\<rparr> \<and>
      (\<forall>g. g \<noteq> Poller \<longrightarrow> go g = lf_go s g)"
    using assms
  proof (induction ws arbitrary: s)
    case Nil
    then show ?case by (intro exI [of _ "lf_go s"]) simp
  next
    case (Cons w ws)
    let ?s = "work_step L conv cgio pidio w s"
    have step: "lf_run ?s = run_step L conv cgio pidio w (lf_run s)" "\<forall>g. g \<noteq> Poller \<longrightarrow> lf_go ?s g = lf_go s g"
        "\<And>rn go. ?s\<lparr>lf_run := rn, lf_go := go\<rparr> = s\<lparr>lf_run := rn, lf_go := go\<rparr>"
      using Cons.prems by (simp_all add: work_step_def)
    have "list_all (\<lambda>w. can_work w ?s) ws"
      using Cons.prems by (auto simp: list_all_iff can_work_def work_step_def split: option.splits)
    from Cons.IH [OF this] obtain go where
      "life_run cfg L conv cgio pidio (map Work ws) ?s = ?s\<lparr>lf_run := run_agent L conv cgio pidio ws (lf_run ?s), lf_go := go\<rparr>"
      "\<forall>g. g \<noteq> Poller \<longrightarrow> go g = lf_go ?s g" by blast
    with step show ?case by (intro exI [of _ go]) (simp add: life_step_def)
  qed
  with that show ?thesis by blast
qed

text \<open>After \<^verbatim>\<open>Run\<close> has returned every goroutine can come to its end.\<close>

definition ended :: "('sel, 'x, 'p) life \<Rightarrow> go_id \<Rightarrow> bool" where
  "ended s g \<longleftrightarrow> lf_go s g = GOff \<or> lf_go s g = GEnded"

definition down :: "('sel, 'x, 'p) life \<Rightarrow> bool" where
  "down s \<longleftrightarrow> lf_done s \<and> lf_stopped s \<and> lf_http_down s"

lemma go_step_other: "h \<noteq> g \<Longrightarrow> lf_go (go_step cfg g ok s) h = lf_go s h"
  by (simp add: go_step_def split: go_status.splits)

lemma ended_step: "\<not> is_main l \<Longrightarrow> ended s g \<Longrightarrow> ended (life_step cfg L conv cgio pidio l s) g"
proof (cases l)
  case (StepGo h ok)
  have "ended s g \<Longrightarrow> h = g \<Longrightarrow> go_step cfg h ok s = s" by (auto simp: ended_def go_step_def)
  with StepGo show "ended s g \<Longrightarrow> ?thesis"
    by (cases "h = g") (simp_all add: life_step_def ended_def go_step_other)
next
  case (Work w)
  then show "ended s g \<Longrightarrow> ?thesis" by (auto simp: life_step_def ended_def work_step_def can_work_def split: option.splits)
qed (simp_all add: is_main_def life_step_def ended_def)

lemma down_step: "\<not> is_main l \<Longrightarrow> down s \<Longrightarrow> down (life_step cfg L conv cgio pidio l s)"
  by (cases l) (simp_all add: is_main_def life_step_def down_def go_step_sel work_step_sel)

lemma ended_run: "list_all (\<lambda>l. \<not> is_main l) ls \<Longrightarrow> ended s g \<Longrightarrow> ended (life_run cfg L conv cgio pidio ls s) g"
  by (induction ls arbitrary: s) (simp_all add: ended_step)

lemma down_run: "list_all (\<lambda>l. \<not> is_main l) ls \<Longrightarrow> down s \<Longrightarrow> down (life_run cfg L conv cgio pidio ls s)"
  by (induction ls arbitrary: s) (simp_all add: down_step)

text \<open>The loop of a goroutine, once its current round is completed.\<close>

lemma loop_ends:
  fixes conv :: "'u \<Rightarrow> 'sel policy option"
  assumes "down s" "lf_go s g = GLoop"
  shows "\<exists>ls. list_all (\<lambda>l. \<not> is_main l) ls \<and> ended (life_run cfg L conv cgio pidio ls s) g"
proof -
  obtain ws :: "('u, 'sel) run_label list" where ws: "list_all (\<lambda>w. can_work w s) ws"
      "g = PodInformer \<longrightarrow> rn_cb (run_agent L conv cgio pidio ws (lf_run s)) = CIdle"
      "g = Cleanup \<longrightarrow> rn_sweep (run_agent L conv cgio pidio ws (lf_run s)) = SIdle" "g = Poller \<longrightarrow> ws = []"
  proof (cases "g = PodInformer \<or> g = Cleanup")
    case True
    obtain n m where n: "rn_cb ((callback_step L cgio pidio [] 0 ^^ n) (lf_run s)) = CIdle"
        "rn_sweep ((sweep_step cgio pidio ^^ m) (lf_run s)) = SIdle"
      using callback_ends sweep_ends by blast
    show ?thesis
    proof (cases "g = PodInformer")
      case True
      then show ?thesis using that [of "replicate n (Callback [] 0)"] n(1) assms(2)
        by (simp add: run_callback can_work_def list_all_iff)
    next
      case False
      then show ?thesis using that [of "replicate m Sweep"] n(2) assms(2) \<open>g = PodInformer \<or> g = Cleanup\<close>
        by (simp add: run_sweep can_work_def list_all_iff)
    qed
  next
    case False
    then show ?thesis using that [of "[]"] by simp
  qed
  from work_run [OF ws(1), of cfg L conv cgio pidio] obtain go where
    s': "life_run cfg L conv cgio pidio (map Work ws) s = s\<lparr>lf_run := run_agent L conv cgio pidio ws (lf_run s), lf_go := go\<rparr>"
      "\<forall>h. h \<noteq> Poller \<longrightarrow> go h = lf_go s h" by blast
  let ?s = "life_run cfg L conv cgio pidio (map Work ws) s"
  have loop: "lf_go ?s g = GLoop"
  proof (cases "g = Poller")
    case True
    then show ?thesis using ws(4) assms(2) by simp
  next
    case False
    then show ?thesis using s' assms(2) by simp
  qed
  have "go_leaves g True ?s" using assms(1) ws(2,3) unfolding s'(1) by (cases g) (simp_all add: go_leaves_def down_def)
  with loop have "ended (life_run cfg L conv cgio pidio (map Work ws @ [StepGo g True]) s) g"
    by (simp add: life_step_def go_step_def ended_def)
  then show ?thesis by (intro exI [of _ "map Work ws @ [StepGo g True]"]) (simp add: list_all_iff is_main_def)
qed

lemma go_ends:
  fixes conv :: "'u \<Rightarrow> 'sel policy option"
  assumes "down s"
  shows "\<exists>ls. list_all (\<lambda>l. \<not> is_main l) ls \<and> ended (life_run cfg L conv cgio pidio ls s) g"
proof (cases "lf_go s g")
  case GNew
  let ?l = "if g = Poller then Work (PolicyEvent (PolicyPoll None)) else StepGo g True"
  let ?s = "life_step cfg L conv cgio pidio ?l s"
  have l: "\<not> is_main ?l" by (simp add: is_main_def)
  have "lf_go ?s g = GLoop \<or> lf_go ?s g = GEnded"
    using GNew by (cases g) (simp_all add: life_step_def work_step_def can_work_def go_step_def go_enter_def)
  then have "\<exists>ls. list_all (\<lambda>l. \<not> is_main l) ls \<and> ended (life_run cfg L conv cgio pidio ls ?s) g"
  proof
    assume "lf_go ?s g = GLoop"
    with loop_ends [OF down_step [OF l assms]] show ?thesis by blast
  next
    assume "lf_go ?s g = GEnded"
    then show ?thesis by (intro exI [of _ "[]"]) (simp add: ended_def)
  qed
  then obtain ls where "list_all (\<lambda>l. \<not> is_main l) ls" "ended (life_run cfg L conv cgio pidio ls ?s) g" by blast
  with l show ?thesis by (intro exI [of _ "?l # ls"]) simp
next
  case GLoop
  then show ?thesis by (rule loop_ends [OF assms])
qed (intro exI [of _ "[]"], simp add: ended_def)+

lemma all_end:
  "down s \<Longrightarrow> \<exists>ls. list_all (\<lambda>l. \<not> is_main l) ls \<and> (\<forall>g \<in> set gs. ended (life_run cfg L conv cgio pidio ls s) g)"
proof (induction gs)
  case Nil
  then show ?case by (intro exI [of _ "[]"]) simp
next
  case (Cons g gs)
  then obtain ls where ls: "list_all (\<lambda>l. \<not> is_main l) ls" "\<forall>g \<in> set gs. ended (life_run cfg L conv cgio pidio ls s) g" by blast
  from go_ends [OF down_run [OF ls(1) Cons.prems], of cfg L conv cgio pidio cfg L conv cgio pidio g] obtain ls' where
    ls': "list_all (\<lambda>l. \<not> is_main l) ls'" "ended (life_run cfg L conv cgio pidio ls' (life_run cfg L conv cgio pidio ls s)) g" by blast
  have "ended (life_run cfg L conv cgio pidio ls' (life_run cfg L conv cgio pidio ls s)) h" if "h \<in> set gs" for h
    by (rule ended_run [OF ls'(1)]) (use ls(2) that in blast)
  then show ?case using ls(1) ls' by (intro exI [of _ "ls @ ls'"]) simp
qed

text \<open>
  C8 (shutdown_ends). Once the context is done, and provided that \<^verbatim>\<open>Run\<close> is past the resolver's \<^verbatim>\<open>Start\<close> (it does not create
  the client, register the handler or wait for the policies any more), \<^verbatim>\<open>Run\<close> returns in every interleaving in which it takes ten
  more steps, whatever the other goroutines do meanwhile; and from there every goroutine it started can complete its
  current round and end.
\<close>

theorem shutdown_ends:
  fixes cfg L cgio pidio loaded rn and conv :: "'u \<Rightarrow> 'sel policy option" and before :: "('u, 'sel) life_label list"
  defines "s \<equiv> life_run cfg L conv cgio pidio before (life_start loaded rn)"
  assumes "lf_done s" "lf_pc s \<notin> {PClient, PHandler, PSync}" "10 \<le> length (filter is_main ls)"
  shows "lf_pc (life_run cfg L conv cgio pidio ls s) = PReturned \<and>
    (\<exists>ls'. list_all (\<lambda>l. \<not> is_main l) ls' \<and> (\<forall>g. ended (life_run cfg L conv cgio pidio (ls @ ls') s) g))"
proof -
  have r: "2 < rank (lf_pc s)" using assms(3) by (cases "lf_pc s") simp_all
  let ?s = "life_run cfg L conv cgio pidio ls s"
  have pc: "lf_pc ?s = PReturned" by (rule main_ends [OF assms(2) r]) (use assms(4) r in simp)
  have "life_ok cfg ?s" unfolding s_def by (rule life_run_ok [OF life_run_ok [OF life_start_ok]])
  with pc have "down ?s" by (simp add: life_ok_def flags_ok_def down_def)
  from all_end [OF this, of "[PolicyInformer, Poller, PodInformer, Server, Cleanup, Export, Writeback]" cfg L conv cgio pidio] obtain ls' where
    ls': "list_all (\<lambda>l. \<not> is_main l) ls'"
      "\<forall>g \<in> set [PolicyInformer, Poller, PodInformer, Server, Cleanup, Export, Writeback]. ended (life_run cfg L conv cgio pidio ls' ?s) g"
    by blast
  have "ended (life_run cfg L conv cgio pidio (ls @ ls') s) g" for g using ls'(2) by (cases g) simp_all
  with pc ls'(1) show ?thesis by blast
qed


subsection \<open>Pods before policies\<close>

text \<open>
  The agent starts with the informer, or with polling when there is no dynamic client: the steps up to the first pod event.
  In both cases a goroutine other than that of \<^verbatim>\<open>Run\<close> brings the policies to the resolver.
\<close>

definition start_labels :: "bool \<Rightarrow> ('u, 'sel) life_label list" where
  "start_labels informer =
     (if informer then [StepMain True, StepMain True, StepGo PolicyInformer True, CacheSynced, StepMain True]
      else [StepMain False]) @ [StepMain True, StepGo PodInformer True]"

definition is_poll :: "('u, 'sel) policy_event \<Rightarrow> bool" where
  "is_poll ev = (case ev of PolicyPoll result \<Rightarrow> True | _ \<Rightarrow> False)"

lemma worker_policy: "worker (PolicyEvent ev) = Some (if is_poll ev then Poller else PolicyInformer)"
  by (cases ev) (simp_all add: is_poll_def)

lemma started:
  assumes "cf_resolver cfg" "cf_watcher cfg"
  obtains s where "life_run cfg L conv cgio pidio (start_labels informer) (life_start loaded rn) = s"
    "lf_run s = rn" "lf_pc s = PServe" "lf_go s PodInformer = GLoop"
    "if informer then lf_go s PolicyInformer = GLoop else lf_go s Poller = GNew"
  using assms
  by (cases informer) (simp_all add: start_labels_def life_step_def main_defs go_step_def go_enter_def life_start_def)

lemma quiet_policies: "list_all quiet (map PolicyEvent evs)" "policy_events (map PolicyEvent evs) = evs"
  by (induction evs) (simp_all add: quiet_def)

text \<open>
  C12 (early_pod). A pod that exists when the agent starts can be handled before the policies are known: the informer's
  store being synced does not mean that its events have been handled, and polling refreshes for the first time in a
  goroutine of its own. The pod then gets the parameters for no policies, and keeps them when the policies arrive,
  although the resolver now has others for it.
\<close>

theorem early_pod:
  fixes evs :: "('u, 'sel) policy_event list" and loaded
  assumes "kernel_map cgio" "cf_resolver cfg" "cf_watcher cfg" "watch_event ev = Some (OnAdd pod)"
    and "am_task (mapOps a) = Some tm" "am_cgroup (mapOps a) = Some cm" "ag_resolver a = NewResolver clk"
    and "cg \<in> set (resolvePodCgroupIDs env (pod_uid pod))" "cg \<noteq> 0" "tm pid = None"
    and "fst (UpdatePodParams cgio pidio env t (Some pod) [fst (Resolve L [] pod (NewResolver clk))] (mapOps a)) = None"
    and "\<forall>ev \<in> set evs. is_poll ev \<longleftrightarrow> \<not> informer"
  shows "\<exists>n s cm' tp. life_run cfg L conv cgio pidio
      (start_labels informer @ map Work (PodEvent ev # replicate n (Callback [] t) @ map PolicyEvent evs))
      (life_start loaded (run_start a env)) = s \<and>
    am_task (mapOps (rn_agent (lf_run s))) = Some tm \<and> am_cgroup (mapOps (rn_agent (lf_run s))) = Some cm' \<and>
    effective_params tm cm' pid cg = (True, tp) \<and>
    (uint (weight tp), uint (budget_ns tp)) = resolve_spec L pod (NewResolver clk) \<and>
    resolve_spec L pod (ag_resolver (rn_agent (lf_run s))) = resolve_spec L pod (fold (handlePolicy conv) evs (NewResolver clk))"
proof -
  let ?rn = "run_start a env"
  have rn: "rn_cb ?rn = CIdle" "rn_agent ?rn = a" "rn_env ?rn = env" by (simp_all add: run_start_def)
  have r: "resolver_reach L conv clk (ag_resolver (rn_agent ?rn))" "order_of (ag_resolver (rn_agent ?rn)) []"
    unfolding rn assms(7) by (rule reach_new) (simp add: order_of_def NewResolver_def)
  have pre: "am_task (mapOps (rn_agent ?rn)) = Some tm" "am_cgroup (mapOps (rn_agent ?rn)) = Some cm"
      "cg \<in> set (resolvePodCgroupIDs (rn_env ?rn) (pod_uid pod))"
      "fst (UpdatePodParams cgio pidio (rn_env ?rn) t (Some pod)
        [fst (Resolve L [] pod (ag_resolver (rn_agent ?rn)))] (mapOps (rn_agent ?rn))) = None"
    unfolding rn assms(7) by (fact assms(5,6,8,11))+
  obtain n rn' cm' tp where p:
    "run_agent L conv cgio pidio (PodEvent ev # replicate n (Callback [] t) @ map PolicyEvent evs) ?rn = rn'"
    "am_task (mapOps (rn_agent rn')) = Some tm" "am_cgroup (mapOps (rn_agent rn')) = Some cm'"
    "effective_params tm cm' pid cg = (True, tp)" "(uint (weight tp), uint (budget_ns tp)) = resolve_spec L pod (NewResolver clk)"
    "resolve_spec L pod (ag_resolver (rn_agent rn')) = resolve_spec L pod (fold (handlePolicy conv) evs (NewResolver clk))"
    by (rule params_kept [OF assms(1) rn(1) assms(4) pre(1,2) r pre(3) assms(9,10) pre(4) quiet_policies(1) [of evs],
          unfolded rn(2) assms(7) quiet_policies(2)])
  obtain s where s: "life_run cfg L conv cgio pidio (start_labels informer) (life_start loaded ?rn) = s"
    "lf_run s = ?rn" "lf_pc s = PServe" "lf_go s PodInformer = GLoop"
    "if informer then lf_go s PolicyInformer = GLoop else lf_go s Poller = GNew"
    by (rule started [OF assms(2,3)])
  have "list_all (\<lambda>w. can_work w s) (PodEvent ev # replicate n (Callback [] t) @ map PolicyEvent evs)"
    using s(4,5) assms(12) by (auto simp: can_work_def list_all_iff worker_policy)
  from work_run [OF this, of cfg L conv cgio pidio] obtain go where
    "life_run cfg L conv cgio pidio (map Work (PodEvent ev # replicate n (Callback [] t) @ map PolicyEvent evs)) s = s\<lparr>lf_run := rn', lf_go := go\<rparr>"
    unfolding s(2) p(1) by blast
  with s(1) have "life_run cfg L conv cgio pidio (start_labels informer @ map Work (PodEvent ev # replicate n (Callback [] t) @ map PolicyEvent evs))
      (life_start loaded ?rn) = s\<lparr>lf_run := rn', lf_go := go\<rparr>" by (simp only: life_run_simps(3))
  with p(2-6) show ?thesis by (intro exI [of _ n] exI [of _ "s\<lparr>lf_run := rn', lf_go := go\<rparr>"] exI [of _ cm'] exI [of _ tp]) simp
qed

subsection \<open>Concrete runs\<close>

lemma demo_before: "resolve_spec demo_libs run_pod (NewResolver 0) = (800, 0)"
  by (simp add: resolve_spec_def applying_def NewResolver_def run_pod_def web_pod_def no_annotations qosDefaultWeight_def)

lemma refresh_one: "rs_policies (refreshPolicies (Some [p]) (NewResolver clk)) = [pol_Name p \<mapsto> p]"
  by (auto simp: refreshPolicies_def NewResolver_def put_policy_def Let_def fun_eq_iff)

definition full_config :: config where
  "full_config = \<lparr>cf_resolver = True, cf_watcher = True, cf_mapOps = True, cf_dynClient = True, cf_broadcaster = True\<rparr>"

abbreviation demo_life :: "((string \<times> string) policy, string \<times> string) life_label list \<Rightarrow> (string \<times> string, string, string) life" where
  "demo_life ls \<equiv> life_run full_config demo_libs Some demo_cgio demo_pidio ls (life_start (Some (0, Some 0)) (run_start demo_agent demo_env))"

theorem start_order_witness:
  "cf_resolver full_config \<and> lf_go (demo_life (start_labels True)) PodInformer \<noteq> GOff \<and> lf_synced (demo_life (start_labels True)) \<and>
   lf_go (demo_life (start_labels True)) Poller = GOff"
proof -
  have f: "cf_resolver full_config" "cf_watcher full_config" by (simp_all add: full_config_def)
  obtain s where s: "demo_life (start_labels True) = s" "lf_run s = run_start demo_agent demo_env" "lf_pc s = PServe"
      "lf_go s PodInformer = GLoop" "if True then lf_go s PolicyInformer = GLoop else lf_go s Poller = GNew"
    by (rule started [OF f])
  have "lf_synced s" unfolding s(1) [symmetric]
    by (simp add: start_labels_def life_step_def main_defs go_step_def go_enter_def life_start_def full_config_def)
  with start_order [OF f(1), of demo_libs Some demo_cgio demo_pidio "start_labels True" "Some (0, Some 0)" "run_start demo_agent demo_env" True]
    s(4,5) f(1) show ?thesis unfolding s(1) by simp
qed

theorem sync_blocks_witness:
  "lf_pc (demo_life ([StepMain True, StepMain True] @ [CancelContext, StepGo PolicyInformer True, StepMain True, StepMain False])) = PSync \<and>
   lf_done (demo_life ([StepMain True, StepMain True] @ [CancelContext, StepGo PolicyInformer True, StepMain True, StepMain False]))"
  using sync_blocks [of full_config "[CancelContext, StepGo PolicyInformer True, StepMain True, StepMain False]" demo_libs Some demo_cgio demo_pidio
      "Some (0, Some 0)" "run_start demo_agent demo_env"]
  by (simp add: full_config_def del: life_run_simps)

theorem run_refines_handover_witness:
  "\<exists>acts. set acts \<subseteq> {Act 0 True, Cancel 0} \<and>
     nd_phase (node_run acts (node_run [Act 0 True, Act 0 True, Act 0 True] fresh_node)) 0 = phase_of (demo_life (start_labels True))"
proof -
  let ?n = "node_run [Act 0 True, Act 0 True, Act 0 True] fresh_node"
  have "nd_phase ?n 0 = phase_of (life_start (Some (0, Some 0)) (run_start demo_agent demo_env))" "\<not> nd_done ?n 0"
    by (simp_all add: phase_of_def life_start_def node_step_def agent_act_def set_phase_def create_collection_def attach_def fresh_node_def)
  from run_refines_handover [OF this, where ls = "start_labels True" and L = demo_libs and conv = Some and cgio = demo_cgio and pidio = demo_pidio
      and cfg = full_config] show ?thesis by blast
qed

theorem shutdown_ends_witness:
  "\<exists>ls. lf_pc (demo_life ls) = PReturned \<and> (\<forall>g. ended (demo_life ls) g)"
proof -
  let ?before = "start_labels True @ [CancelContext]"
  have b: "lf_done (demo_life ?before)" "lf_pc (demo_life ?before) \<notin> {PClient, PHandler, PSync}"
    by (simp_all add: start_labels_def life_step_def main_defs go_step_def go_enter_def life_start_def full_config_def)
  from shutdown_ends [OF b, of "replicate 10 (StepMain True)"] obtain ls' where
    r: "lf_pc (life_run full_config demo_libs Some demo_cgio demo_pidio (replicate 10 (StepMain True)) (demo_life ?before)) = PReturned"
      "list_all (\<lambda>l. \<not> is_main l) ls'"
      "\<forall>g. ended (life_run full_config demo_libs Some demo_cgio demo_pidio (replicate 10 (StepMain True) @ ls') (demo_life ?before)) g"
    by (auto simp: is_main_def)
  have keep: "lf_pc (life_run full_config demo_libs Some demo_cgio demo_pidio ls s) = lf_pc s" if "list_all (\<lambda>l. \<not> is_main l) ls"
    for s :: "(string \<times> string, string, string) life" and ls :: "((string \<times> string) policy, string \<times> string) life_label list"
    using that by (induction ls arbitrary: s) (simp_all add: other_keeps_pc)
  from r keep [OF r(2)] show ?thesis
    by (intro exI [of _ "?before @ replicate 10 (StepMain True) @ ls'"]) (simp only: life_run_simps(3) simp_thms)
qed

theorem early_pod_witness:
  "\<exists>ls s tm cm tp. life_run full_config demo_libs Some demo_cgio demo_pidio ls
       (life_start None (run_start (demo_agent\<lparr>ag_resolver := NewResolver 0\<rparr>) demo_env)) = s \<and>
     am_task (mapOps (rn_agent (lf_run s))) = Some tm \<and> am_cgroup (mapOps (rn_agent (lf_run s))) = Some cm \<and>
     effective_params tm cm 71 56 = (True, tp) \<and> uint (weight tp) = 800 \<and>
     resolve_spec demo_libs run_pod (ag_resolver (rn_agent (lf_run s))) = (200, 2000000)"
proof -
  let ?a = "demo_agent\<lparr>ag_resolver := NewResolver 0\<rparr>" and ?p = "demo_policy ''a'' 200 []"
  let ?evs = "[PolicyPoll (Some [?p])]"
  have a: "am_task (mapOps ?a) = Some [70 \<mapsto> \<lparr>weight = 200, budget_ns = 0\<rparr>]" "am_cgroup (mapOps ?a) = Some Map.empty"
      "ag_resolver ?a = NewResolver 0" "cf_resolver full_config" "cf_watcher full_config"
    by (simp_all add: demo_agent_def demo_maps_def full_config_def)
  have c: "56 \<in> set (resolvePodCgroupIDs demo_env (pod_uid run_pod))" "(56 :: u64) \<noteq> 0"
      "[70 \<mapsto> \<lparr>weight = 200, budget_ns = 0\<rparr>] (71 :: u32) = None"
    by (simp_all add: run_pod_sel demo_ids)
  have upd: "fst (UpdatePodParams demo_cgio demo_pidio demo_env 0 (Some run_pod)
      [fst (Resolve demo_libs [] run_pod (NewResolver 0))] (mapOps ?a)) = None"
    by (rule demo_run_update [OF a(1,2)])
  have q: "\<forall>ev \<in> set ?evs. is_poll ev \<longleftrightarrow> \<not> False" by (simp add: is_poll_def)
  have "applying demo_libs run_pod (refreshPolicies (Some [?p]) (NewResolver 0)) = {?p}"
    by (auto simp: applying_def refresh_one run_pod_def policy_applies_def podSelectorMatches_def demo_policy_def demo_libs_def
        web_pod_def go_get_def)
  then have after: "resolve_spec demo_libs run_pod (fold (handlePolicy Some) ?evs (NewResolver 0)) = (200, 2000000)"
    by (simp add: handlePolicy_def resolve_spec_def demo_asked run_pod_def no_annotations Let_def)
  from early_pod [OF cgroup_map.kernel_map_axioms a(4,5) run_pod_sel(3) a(1-3) c upd q, where conv = Some and loaded = None,
      unfolded demo_before after]
  show ?thesis by (elim exE conjE) (intro exI conjI, assumption+, simp_all)
qed

end
