(* ===== verification/Deep_Copy.thy ===== *)
theory Deep_Copy
  imports Prelude "HOL-Library.AList"
begin

text \<open>
  The deep copies of the API types, \<^verbatim>\<open>api/v1alpha1/zz_generated.deepcopy.go\<close>, over the structures of
  \<^verbatim>\<open>api/v1alpha1/types.go\<close>. Pointers, slices and maps are addresses in an explicit store, so that sharing
  between a structure and its copy can be stated. The types of apimachinery (\<^verbatim>\<open>ObjectMeta\<close>, \<^verbatim>\<open>ListMeta\<close>, \<^verbatim>\<open>LabelSelector\<close>,
  \<^verbatim>\<open>Condition\<close>) and their own \<^verbatim>\<open>DeepCopyInto\<close> are parameters. What is relied on of them is the contract the
  functions here provide in turn, the locale \<open>deep_copier\<close>.
\<close>

subsection \<open>The store\<close>

type_synonym addr = nat

record 'c store =
  cells :: "addr \<rightharpoonup> 'c"
  limit :: addr

definition store_ok :: "'c store \<Rightarrow> bool" where
  "store_ok h \<longleftrightarrow> dom (cells h) \<subseteq> {..<limit h}"

definition alloc :: "'c \<Rightarrow> 'c store \<Rightarrow> addr \<times> 'c store" where
  "alloc c h = (limit h, h\<lparr>cells := (cells h)(limit h \<mapsto> c), limit := Suc (limit h)\<rparr>)"

definition extends :: "'c store \<Rightarrow> 'c store \<Rightarrow> bool" where
  "extends h h' \<longleftrightarrow> store_ok h' \<and> (\<forall>a \<in> dom (cells h). cells h' a = cells h a)"

lemma extends_refl: "store_ok h \<Longrightarrow> extends h h"
  by (simp add: extends_def)

lemma extends_dom: "extends h h' \<Longrightarrow> dom (cells h) \<subseteq> dom (cells h')"
  by (auto simp: extends_def dom_def)

lemma extends_trans: "extends h h1 \<Longrightarrow> extends h1 h2 \<Longrightarrow> extends h h2"
  using extends_dom [of h h1] unfolding extends_def by (metis (no_types, lifting) subsetD)

lemma alloc_extends:
  assumes "store_ok h" "alloc c h = (a, h')"
  shows "extends h h'" "cells h' a = Some c" "a \<notin> dom (cells h)" "cells h' b = (if b = a then Some c else cells h b)"
  using assms by (fastforce simp: alloc_def store_ok_def extends_def less_Suc_eq)+

subsection \<open>The contract of a deep copy\<close>

text \<open>
  \<open>view\<close> is the value behind a structure with all its pointers followed, \<open>reach\<close> the addresses it depends on, \<open>valid\<close> what Go's types
  and the runtime guarantee. A copy has the same value, in memory that was not allocated before, and changes nothing
  that was.
\<close>

locale deep_copier =
  fixes copy :: "'a \<Rightarrow> 'c store \<Rightarrow> 'a \<times> 'c store"
    and view :: "'c store \<Rightarrow> 'a \<Rightarrow> 'v"
    and reach :: "'c store \<Rightarrow> 'a \<Rightarrow> addr set"
    and valid :: "'c store \<Rightarrow> 'a \<Rightarrow> bool"
  assumes footprint: "(\<forall>a \<in> reach h x. cells h' a = cells h a) \<Longrightarrow>
      view h' x = view h x \<and> reach h' x = reach h x \<and> valid h' x = valid h x"
    and allocated: "valid h x \<Longrightarrow> reach h x \<subseteq> dom (cells h)"
    and copied: "store_ok h \<Longrightarrow> valid h x \<Longrightarrow> copy x h = (y, h') \<Longrightarrow>
      view h' y = view h x \<and> valid h' y \<and> extends h h' \<and> reach h' y \<inter> dom (cells h) = {}"
begin

lemma kept:
  assumes "valid h x" "extends h h'"
  shows "view h' x = view h x" "reach h' x = reach h x" "valid h' x"
proof -
  have "\<forall>a \<in> reach h x. cells h' a = cells h a" using allocated [OF assms(1)] assms(2) by (auto simp: extends_def)
  from footprint [OF this] assms(1) show "view h' x = view h x" "reach h' x = reach h x" "valid h' x" by simp_all
qed

text \<open>Whoever writes through the copy does not change the original, and the other way round.\<close>

lemma isolated:
  assumes "store_ok h" "valid h x" "copy x h = (y, h')"
  shows "(\<forall>a. a \<notin> reach h' y \<longrightarrow> cells m a = cells h' a) \<Longrightarrow> view m x = view h x"
    and "(\<forall>a. a \<notin> reach h x \<longrightarrow> cells m a = cells h' a) \<Longrightarrow> view m y = view h x"
proof -
  note c = copied [OF assms]
  have x: "view h' x = view h x" "reach h' x = reach h x" using kept [OF assms(2)] c by auto
  have disj: "reach h' y \<inter> reach h x = {}" using allocated [OF assms(2)] c by blast
  show "view m x = view h x" if "\<forall>a. a \<notin> reach h' y \<longrightarrow> cells m a = cells h' a"
  proof -
    have "\<forall>a \<in> reach h' x. cells m a = cells h' a" using that disj x(2) by blast
    from footprint [OF this] x(1) show ?thesis by simp
  qed
  show "view m y = view h x" if "\<forall>a. a \<notin> reach h x \<longrightarrow> cells m a = cells h' a"
  proof -
    have "\<forall>a \<in> reach h' y. cells m a = cells h' a" using that disj by blast
    from footprint [OF this] c show ?thesis by simp
  qed
qed

end

subsection \<open>Copies of parts\<close>

text \<open>A value without pointers, two values one after the other, a value that may be nil.\<close>

definition copy_plain :: "'a \<Rightarrow> 'c store \<Rightarrow> 'a \<times> 'c store" where
  "copy_plain x h = (x, h)"

definition copy_pair ::
    "('a \<Rightarrow> 'c store \<Rightarrow> 'a \<times> 'c store) \<Rightarrow> ('b \<Rightarrow> 'c store \<Rightarrow> 'b \<times> 'c store) \<Rightarrow> 'a \<times> 'b \<Rightarrow> 'c store \<Rightarrow> ('a \<times> 'b) \<times> 'c store" where
  "copy_pair f g p h = (case f (fst p) h of (x, h) \<Rightarrow> case g (snd p) h of (y, h) \<Rightarrow> ((x, y), h))"

definition copy_opt :: "('a \<Rightarrow> 'c store \<Rightarrow> 'a \<times> 'c store) \<Rightarrow> 'a option \<Rightarrow> 'c store \<Rightarrow> 'a option \<times> 'c store" where
  "copy_opt f p h = (case p of None \<Rightarrow> (None, h) | Some x \<Rightarrow> (case f x h of (y, h) \<Rightarrow> (Some y, h)))"

fun copy_all :: "('a \<Rightarrow> 'c store \<Rightarrow> 'a \<times> 'c store) \<Rightarrow> 'a list \<Rightarrow> 'c store \<Rightarrow> 'a list \<times> 'c store" where
  "copy_all f [] h = ([], h)"
| "copy_all f (x # xs) h = (case f x h of (y, h) \<Rightarrow> case copy_all f xs h of (ys, h) \<Rightarrow> (y # ys, h))"

text \<open>
  A value behind a pointer: \<open>mk\<close> makes a cell of it and \<open>get\<close> reads it. The new cell is allocated with its contents, after what the
  contents point to; the order of allocations cannot be observed.
\<close>

definition copy_box ::
    "('a \<Rightarrow> 'c) \<Rightarrow> ('c \<Rightarrow> 'a) \<Rightarrow> ('a \<Rightarrow> 'c store \<Rightarrow> 'a \<times> 'c store) \<Rightarrow> addr \<Rightarrow> 'c store \<Rightarrow> addr \<times> 'c store" where
  "copy_box mk get f a h = (case f (get (the (cells h a))) h of (y, h) \<Rightarrow> alloc (mk y) h)"

definition view_box :: "('c \<Rightarrow> 'a) \<Rightarrow> ('c store \<Rightarrow> 'a \<Rightarrow> 'v) \<Rightarrow> 'c store \<Rightarrow> addr \<Rightarrow> 'v" where
  "view_box get view h a = view h (get (the (cells h a)))"

definition reach_box :: "('c \<Rightarrow> 'a) \<Rightarrow> ('c store \<Rightarrow> 'a \<Rightarrow> addr set) \<Rightarrow> 'c store \<Rightarrow> addr \<Rightarrow> addr set" where
  "reach_box get reach h a = insert a (reach h (get (the (cells h a))))"

definition valid_box :: "('a \<Rightarrow> 'c) \<Rightarrow> ('c \<Rightarrow> 'a) \<Rightarrow> ('c store \<Rightarrow> 'a \<Rightarrow> bool) \<Rightarrow> 'c store \<Rightarrow> addr \<Rightarrow> bool" where
  "valid_box mk get valid h a \<longleftrightarrow> cells h a = Some (mk (get (the (cells h a)))) \<and> valid h (get (the (cells h a)))"

definition view_pair :: "('c store \<Rightarrow> 'a \<Rightarrow> 'v) \<Rightarrow> ('c store \<Rightarrow> 'b \<Rightarrow> 'w) \<Rightarrow> 'c store \<Rightarrow> 'a \<times> 'b \<Rightarrow> 'v \<times> 'w" where
  "view_pair v w h p = (v h (fst p), w h (snd p))"

definition reach_pair :: "('c store \<Rightarrow> 'a \<Rightarrow> addr set) \<Rightarrow> ('c store \<Rightarrow> 'b \<Rightarrow> addr set) \<Rightarrow> 'c store \<Rightarrow> 'a \<times> 'b \<Rightarrow> addr set" where
  "reach_pair r s h p = r h (fst p) \<union> s h (snd p)"

definition valid_pair :: "('c store \<Rightarrow> 'a \<Rightarrow> bool) \<Rightarrow> ('c store \<Rightarrow> 'b \<Rightarrow> bool) \<Rightarrow> 'c store \<Rightarrow> 'a \<times> 'b \<Rightarrow> bool" where
  "valid_pair v w h p \<longleftrightarrow> v h (fst p) \<and> w h (snd p)"

definition reach_list :: "('c store \<Rightarrow> 'a \<Rightarrow> addr set) \<Rightarrow> 'c store \<Rightarrow> 'a list \<Rightarrow> addr set" where
  "reach_list r h xs = (\<Union>x \<in> set xs. r h x)"

definition valid_list :: "('c store \<Rightarrow> 'a \<Rightarrow> bool) \<Rightarrow> 'c store \<Rightarrow> 'a list \<Rightarrow> bool" where
  "valid_list v h xs \<longleftrightarrow> (\<forall>x \<in> set xs. v h x)"

definition reach_opt :: "('c store \<Rightarrow> 'a \<Rightarrow> addr set) \<Rightarrow> 'c store \<Rightarrow> 'a option \<Rightarrow> addr set" where
  "reach_opt r h p = (case p of None \<Rightarrow> {} | Some x \<Rightarrow> r h x)"

definition valid_opt :: "('c store \<Rightarrow> 'a \<Rightarrow> bool) \<Rightarrow> 'c store \<Rightarrow> 'a option \<Rightarrow> bool" where
  "valid_opt v h p \<longleftrightarrow> (case p of None \<Rightarrow> True | Some x \<Rightarrow> v h x)"

lemma plain_copier: "deep_copier copy_plain (\<lambda>h x. x) (\<lambda>h x. {}) (\<lambda>h x. True)"
  by unfold_locales (simp_all add: copy_plain_def extends_refl)

lemma pair_copier:
  fixes f :: "'a \<Rightarrow> 'c store \<Rightarrow> 'a \<times> 'c store"
  assumes "deep_copier f v r ok" "deep_copier g w s ok'"
  shows "deep_copier (copy_pair f g) (view_pair v w) (reach_pair r s) (valid_pair ok ok')"
proof
  fix h h' :: "'c store" and p
  assume "\<forall>a \<in> reach_pair r s h p. cells h' a = cells h a"
  then have "\<forall>a \<in> r h (fst p). cells h' a = cells h a" "\<forall>a \<in> s h (snd p). cells h' a = cells h a" by (auto simp: reach_pair_def)
  from deep_copier.footprint [OF assms(1) this(1)] deep_copier.footprint [OF assms(2) this(2)]
  show "view_pair v w h' p = view_pair v w h p \<and> reach_pair r s h' p = reach_pair r s h p \<and> valid_pair ok ok' h' p = valid_pair ok ok' h p"
    by (simp add: view_pair_def reach_pair_def valid_pair_def)
next
  fix h :: "'c store" and p
  assume "valid_pair ok ok' h p"
  then show "reach_pair r s h p \<subseteq> dom (cells h)"
    using deep_copier.allocated [OF assms(1)] deep_copier.allocated [OF assms(2)] by (simp add: valid_pair_def reach_pair_def)
next
  fix h h' :: "'c store" and p q
  assume h: "store_ok h" "valid_pair ok ok' h p" "copy_pair f g p h = (q, h')"
  obtain x h1 where x: "f (fst p) h = (x, h1)" by fastforce
  obtain y h2 where y: "g (snd p) h1 = (y, h2)" by fastforce
  have q: "q = (x, y)" "h' = h2" using h(3) x y by (simp_all add: copy_pair_def)
  have ok: "ok h (fst p)" "ok' h (snd p)" using h(2) by (simp_all add: valid_pair_def)
  note c1 = deep_copier.copied [OF assms(1) h(1) ok(1) x]
  then have e1: "extends h h1" "store_ok h1" by (simp_all add: extends_def)
  note k2 = deep_copier.kept [OF assms(2) ok(2) e1(1)]
  note c2 = deep_copier.copied [OF assms(2) e1(2) k2(3) y]
  then have e2: "extends h1 h2" by simp
  from c1 have "ok h1 x" by simp
  note k1 = deep_copier.kept [OF assms(1) this e2]
  have "s h2 y \<inter> dom (cells h) = {}" using c2 extends_dom [OF e1(1)] by blast
  then show "view_pair v w h' q = view_pair v w h p \<and> valid_pair ok ok' h' q \<and> extends h h' \<and> reach_pair r s h' q \<inter> dom (cells h) = {}"
    using c1 c2 k1 k2 extends_trans [OF e1(1) e2] by (auto simp: q view_pair_def valid_pair_def reach_pair_def)
qed

lemma opt_copier:
  fixes f :: "'a \<Rightarrow> 'c store \<Rightarrow> 'a \<times> 'c store"
  assumes "deep_copier f v r ok"
  shows "deep_copier (copy_opt f) (\<lambda>h. map_option (v h)) (reach_opt r) (valid_opt ok)"
proof
  fix h h' :: "'c store" and p
  assume a: "\<forall>a \<in> reach_opt r h p. cells h' a = cells h a"
  show "map_option (v h') p = map_option (v h) p \<and> reach_opt r h' p = reach_opt r h p \<and> valid_opt ok h' p = valid_opt ok h p"
    using a deep_copier.footprint [OF assms, of h _ h'] by (cases p) (simp_all add: reach_opt_def valid_opt_def)
next
  fix h :: "'c store" and p
  assume "valid_opt ok h p"
  then show "reach_opt r h p \<subseteq> dom (cells h)"
    using deep_copier.allocated [OF assms, of h] by (cases p) (simp_all add: reach_opt_def valid_opt_def)
next
  fix h h' :: "'c store" and p q
  assume h: "store_ok h" "valid_opt ok h p" "copy_opt f p h = (q, h')"
  show "map_option (v h') q = map_option (v h) p \<and> valid_opt ok h' q \<and> extends h h' \<and> reach_opt r h' q \<inter> dom (cells h) = {}"
  proof (cases p)
    case None
    with h show ?thesis by (auto simp: copy_opt_def valid_opt_def reach_opt_def extends_refl)
  next
    case (Some x)
    obtain y h1 where y: "f x h = (y, h1)" by fastforce
    with h Some deep_copier.copied [OF assms h(1) _ y] show ?thesis by (auto simp: copy_opt_def valid_opt_def reach_opt_def)
  qed
qed

lemma list_copier:
  fixes f :: "'a \<Rightarrow> 'c store \<Rightarrow> 'a \<times> 'c store"
  assumes "deep_copier f v r ok"
  shows "deep_copier (copy_all f) (\<lambda>h. map (v h)) (reach_list r) (valid_list ok)"
proof
  fix h h' :: "'c store" and xs
  assume a: "\<forall>a \<in> reach_list r h xs. cells h' a = cells h a"
  have "v h' x = v h x \<and> r h' x = r h x \<and> ok h' x = ok h x" if "x \<in> set xs" for x
    by (rule deep_copier.footprint [OF assms]) (use a that in \<open>auto simp: reach_list_def\<close>)
  then show "map (v h') xs = map (v h) xs \<and> reach_list r h' xs = reach_list r h xs \<and> valid_list ok h' xs = valid_list ok h xs"
    by (simp add: reach_list_def valid_list_def)
next
  fix h :: "'c store" and xs
  assume "valid_list ok h xs"
  then show "reach_list r h xs \<subseteq> dom (cells h)"
    using deep_copier.allocated [OF assms, of h] by (auto simp: reach_list_def valid_list_def)
next
  fix h h' :: "'c store" and xs ys
  assume "store_ok h" "valid_list ok h xs" "copy_all f xs h = (ys, h')"
  then show "map (v h') ys = map (v h) xs \<and> valid_list ok h' ys \<and> extends h h' \<and> reach_list r h' ys \<inter> dom (cells h) = {}"
  proof (induction xs arbitrary: h ys)
    case Nil
    then show ?case by (simp add: valid_list_def reach_list_def extends_refl)
  next
    case (Cons x xs)
    obtain y h1 where y: "f x h = (y, h1)" by fastforce
    obtain zs h2 where zs: "copy_all f xs h1 = (zs, h2)" by fastforce
    have eq: "ys = y # zs" "h' = h2" using Cons.prems(3) y zs by simp_all
    have ok: "ok h x" "\<forall>x \<in> set xs. ok h x" using Cons.prems(2) by (simp_all add: valid_list_def)
    note c1 = deep_copier.copied [OF assms Cons.prems(1) ok(1) y]
    then have e1: "extends h h1" "store_ok h1" "ok h1 y" by (simp_all add: extends_def)
    have k2: "v h1 x = v h x" "ok h1 x" if "x \<in> set xs" for x using deep_copier.kept [OF assms _ e1(1)] ok(2) that by auto
    then have "valid_list ok h1 xs" by (simp add: valid_list_def)
    from Cons.IH [OF e1(2) this] zs eq have c2: "map (v h2) zs = map (v h1) xs" "valid_list ok h2 zs" "extends h1 h2"
      "reach_list r h2 zs \<inter> dom (cells h1) = {}" by simp_all
    note k1 = deep_copier.kept [OF assms e1(3) c2(3)]
    have "reach_list r h2 zs \<inter> dom (cells h) = {}" using c2(4) extends_dom [OF e1(1)] by blast
    then show ?case using c1 c2 k1 k2 extends_trans [OF e1(1) c2(3)]
      by (auto simp: eq valid_list_def reach_list_def)
  qed
qed

lemma box_copier:
  fixes f :: "'a \<Rightarrow> 'c store \<Rightarrow> 'a \<times> 'c store"
  assumes "deep_copier f v r ok" "\<And>x. get (mk x) = x"
  shows "deep_copier (copy_box mk get f) (view_box get v) (reach_box get r) (valid_box mk get ok)"
proof
  fix h h' :: "'c store" and b
  assume a: "\<forall>a \<in> reach_box get r h b. cells h' a = cells h a"
  then have b: "cells h' b = cells h b" by (simp add: reach_box_def)
  have "\<forall>a \<in> r h (get (the (cells h b))). cells h' a = cells h a" using a by (simp add: reach_box_def)
  from deep_copier.footprint [OF assms(1) this] b
  show "view_box get v h' b = view_box get v h b \<and> reach_box get r h' b = reach_box get r h b \<and>
      valid_box mk get ok h' b = valid_box mk get ok h b"
    by (simp add: view_box_def reach_box_def valid_box_def)
next
  fix h :: "'c store" and b
  assume "valid_box mk get ok h b"
  then show "reach_box get r h b \<subseteq> dom (cells h)"
    using deep_copier.allocated [OF assms(1), of h] by (auto simp: reach_box_def valid_box_def)
next
  fix h h' :: "'c store" and b c
  assume h: "store_ok h" "valid_box mk get ok h b" "copy_box mk get f b h = (c, h')"
  let ?x = "get (the (cells h b))"
  have x: "ok h ?x" using h(2) by (simp add: valid_box_def)
  obtain y h1 where y: "f ?x h = (y, h1)" by fastforce
  have al: "alloc (mk y) h1 = (c, h')" using h(3) y by (simp add: copy_box_def)
  note c1 = deep_copier.copied [OF assms(1) h(1) x y]
  then have e1: "extends h h1" "store_ok h1" "ok h1 y" by (simp_all add: extends_def)
  note a2 = alloc_extends [OF e1(2) al]
  note k = deep_copier.kept [OF assms(1) e1(3) a2(1)]
  have "c \<notin> dom (cells h)" using a2(3) extends_dom [OF e1(1)] by blast
  then show "view_box get v h' c = view_box get v h b \<and> valid_box mk get ok h' c \<and> extends h h' \<and> reach_box get r h' c \<inter> dom (cells h) = {}"
    using c1 k extends_trans [OF e1(1) a2(1)] by (simp add: view_box_def valid_box_def reach_box_def a2(2) assms(2))
qed

text \<open>A structure of which only a part has pointers: the rest is copied by the assignment.\<close>

lemma part_copier:
  fixes f :: "'a \<Rightarrow> 'c store \<Rightarrow> 'a \<times> 'c store"
  assumes "deep_copier f v r ok" "\<And>x h. copy x h = (case f (part x) h of (y, h) \<Rightarrow> (put y x, h))"
    and "\<And>x y. part (put y x) = y" "\<And>x y h. view h (put y x) = u x (v h y)" "\<And>x h. view h x = u x (v h (part x))"
  shows "deep_copier copy view (\<lambda>h x. r h (part x)) (\<lambda>h x. ok h (part x))"
proof
  fix h h' :: "'c store" and x
  assume "\<forall>a \<in> r h (part x). cells h' a = cells h a"
  from deep_copier.footprint [OF assms(1) this]
  show "view h' x = view h x \<and> r h' (part x) = r h (part x) \<and> ok h' (part x) = ok h (part x)" by (simp add: assms(5))
next
  fix h :: "'c store" and x
  assume "ok h (part x)"
  then show "r h (part x) \<subseteq> dom (cells h)" by (rule deep_copier.allocated [OF assms(1)])
next
  fix h h' :: "'c store" and x z
  assume h: "store_ok h" "ok h (part x)" "copy x h = (z, h')"
  obtain y h1 where y: "f (part x) h = (y, h1)" by fastforce
  have z: "z = put y x" "h' = h1" using h(3) y by (simp_all add: assms(2))
  show "view h' z = view h x \<and> ok h' (part z) \<and> extends h h' \<and> r h' (part z) \<inter> dom (cells h) = {}"
    using deep_copier.copied [OF assms(1) h(1,2) y] by (simp add: z assms(3,4) assms(5) [of h x])
qed


subsection \<open>Slices and maps\<close>

record slice =
  sl_addr :: addr
  sl_off :: nat
  sl_len :: nat

definition elems :: "('c \<Rightarrow> 'a list) \<Rightarrow> 'c store \<Rightarrow> slice \<Rightarrow> 'a list" where
  "elems get h s = take (sl_len s) (drop (sl_off s) (get (the (cells h (sl_addr s)))))"

text \<open>\<^verbatim>\<open>make\<close> with the length of the slice, and the loop over its indices.\<close>

definition copy_slice ::
    "('a list \<Rightarrow> 'c) \<Rightarrow> ('c \<Rightarrow> 'a list) \<Rightarrow> ('a \<Rightarrow> 'c store \<Rightarrow> 'a \<times> 'c store) \<Rightarrow> slice \<Rightarrow> 'c store \<Rightarrow> slice \<times> 'c store" where
  "copy_slice mk get f s h =
     (case copy_all f (elems get h s) h of (ys, h) \<Rightarrow>
      case alloc (mk ys) h of (b, h) \<Rightarrow> (\<lparr>sl_addr = b, sl_off = 0, sl_len = sl_len s\<rparr>, h))"

definition reach_slice :: "('c \<Rightarrow> 'a list) \<Rightarrow> ('c store \<Rightarrow> 'a \<Rightarrow> addr set) \<Rightarrow> 'c store \<Rightarrow> slice \<Rightarrow> addr set" where
  "reach_slice get r h s = insert (sl_addr s) (reach_list r h (elems get h s))"

definition valid_slice :: "('a list \<Rightarrow> 'c) \<Rightarrow> ('c \<Rightarrow> 'a list) \<Rightarrow> ('c store \<Rightarrow> 'a \<Rightarrow> bool) \<Rightarrow> 'c store \<Rightarrow> slice \<Rightarrow> bool" where
  "valid_slice mk get ok h s \<longleftrightarrow>
     cells h (sl_addr s) = Some (mk (get (the (cells h (sl_addr s))))) \<and>
     sl_off s + sl_len s \<le> length (get (the (cells h (sl_addr s)))) \<and> valid_list ok h (elems get h s)"

lemma slice_copier:
  fixes f :: "'a \<Rightarrow> 'c store \<Rightarrow> 'a \<times> 'c store"
  assumes "deep_copier f v r ok" "\<And>xs. get (mk xs) = xs"
  shows "deep_copier (copy_slice mk get f) (\<lambda>h s. map (v h) (elems get h s)) (reach_slice get r) (valid_slice mk get ok)"
proof
  fix h h' :: "'c store" and s
  assume a: "\<forall>a \<in> reach_slice get r h s. cells h' a = cells h a"
  then have s: "cells h' (sl_addr s) = cells h (sl_addr s)" by (simp add: reach_slice_def)
  then have e: "elems get h' s = elems get h s" by (simp add: elems_def)
  have "\<forall>a \<in> reach_list r h (elems get h s). cells h' a = cells h a" using a by (simp add: reach_slice_def)
  from deep_copier.footprint [OF list_copier [OF assms(1)] this] s e
  show "map (v h') (elems get h' s) = map (v h) (elems get h s) \<and> reach_slice get r h' s = reach_slice get r h s \<and>
      valid_slice mk get ok h' s = valid_slice mk get ok h s"
    by (simp add: reach_slice_def valid_slice_def)
next
  fix h :: "'c store" and s
  assume "valid_slice mk get ok h s"
  then show "reach_slice get r h s \<subseteq> dom (cells h)"
    using deep_copier.allocated [OF list_copier [OF assms(1)], of h] by (auto simp: reach_slice_def valid_slice_def)
next
  fix h h' :: "'c store" and s s'
  assume h: "store_ok h" "valid_slice mk get ok h s" "copy_slice mk get f s h = (s', h')"
  have ok: "valid_list ok h (elems get h s)" using h(2) by (simp add: valid_slice_def)
  obtain ys h1 where ys: "copy_all f (elems get h s) h = (ys, h1)" by fastforce
  obtain b h2 where al: "alloc (mk ys) h1 = (b, h2)" by fastforce
  have eq: "s' = \<lparr>sl_addr = b, sl_off = 0, sl_len = sl_len s\<rparr>" "h' = h2" using h(3) ys al by (simp_all add: copy_slice_def)
  note c1 = deep_copier.copied [OF list_copier [OF assms(1)] h(1) ok ys]
  then have e1: "extends h h1" "store_ok h1" "valid_list ok h1 ys" by (simp_all add: extends_def)
  note a2 = alloc_extends [OF e1(2) al]
  note k = deep_copier.kept [OF list_copier [OF assms(1)] e1(3) a2(1)]
  have "length ys = length (elems get h s)" using c1 by (metis length_map)
  then have len: "length ys = sl_len s" using h(2) by (auto simp: elems_def valid_slice_def)
  then have e: "elems get h' s' = ys" by (simp add: eq elems_def a2(2) assms(2))
  have "b \<notin> dom (cells h)" using a2(3) extends_dom [OF e1(1)] by blast
  then show "map (v h') (elems get h' s') = map (v h) (elems get h s) \<and> valid_slice mk get ok h' s' \<and> extends h h' \<and>
      reach_slice get r h' s' \<inter> dom (cells h) = {}"
    using c1 k len extends_trans [OF e1(1) a2(1)] unfolding e
    by (simp add: e reach_slice_def valid_slice_def) (simp add: eq a2(2) assms(2))
qed

text \<open>A Go map, as its entries in the order in which \<^verbatim>\<open>range\<close> visits them. Keys are distinct.\<close>

definition copy_inner :: "(string \<times> s32) list \<Rightarrow> 'c store \<Rightarrow> (string \<times> s32) list \<times> 'c store" where
  "copy_inner val h = (fold (\<lambda>(k, v) outVal. AList.update k v outVal) val [], h)"

fun copy_entries ::
    "('a \<Rightarrow> 'c store \<Rightarrow> 'a \<times> 'c store) \<Rightarrow> (string \<times> 'a option) list \<Rightarrow> (string \<times> 'a option) list \<Rightarrow> 'c store
     \<Rightarrow> (string \<times> 'a option) list \<times> 'c store" where
  "copy_entries f [] out h = (out, h)"
| "copy_entries f ((key, val) # kvs) out h =
     (case copy_opt f val h of (outVal, h) \<Rightarrow> copy_entries f kvs (AList.update key outVal out) h)"

definition valid_map :: "('c store \<Rightarrow> 'a option \<Rightarrow> bool) \<Rightarrow> 'c store \<Rightarrow> (string \<times> 'a option) list \<Rightarrow> bool" where
  "valid_map ok h kvs \<longleftrightarrow> distinct (map fst kvs) \<and> valid_list (\<lambda>h p. ok h (snd p)) h kvs"

lemma update_new: "k \<notin> fst ` set m \<Longrightarrow> AList.update k v m = m @ [(k, v)]"
  by (induction m) auto

lemma inner_same: "distinct (map fst (out @ val)) \<Longrightarrow> fold (\<lambda>(k, v) outVal. AList.update k v outVal) val out = out @ val"
  by (induction val arbitrary: out) (auto simp: update_new)

interpretation inner: deep_copier copy_inner "\<lambda>h. map_of" "\<lambda>h val. {}" "\<lambda>h val. distinct (map fst val)"
  by unfold_locales (auto simp: copy_inner_def inner_same [of "[]", simplified] extends_refl)

lemma copy_all_keys: "copy_all (copy_pair copy_plain f) kvs h = (ys, h') \<Longrightarrow> map fst ys = map fst kvs"
  by (induction kvs arbitrary: h ys) (auto simp: copy_pair_def copy_plain_def split: prod.splits)

lemma entries_same:
  "distinct (map fst (out @ kvs)) \<Longrightarrow>
   copy_entries f kvs out h = (case copy_all (copy_pair copy_plain (copy_opt f)) kvs h of (ys, h') \<Rightarrow> (out @ ys, h'))"
proof (induction kvs arbitrary: out h)
  case (Cons kv kvs)
  obtain k p where kv: "kv = (k, p)" by fastforce
  obtain q h1 where q: "copy_opt f p h = (q, h1)" by fastforce
  have "distinct (map fst ((out @ [(k, q)]) @ kvs))" "AList.update k q out = out @ [(k, q)]"
    using Cons.prems by (auto simp: kv update_new)
  with Cons.IH [of "out @ [(k, q)]" h1] q show ?case
    by (simp add: kv copy_pair_def copy_plain_def split: prod.splits)
qed simp

lemma map_copier:
  fixes f :: "'a \<Rightarrow> 'c store \<Rightarrow> 'a \<times> 'c store"
  assumes "deep_copier f v r ok"
  shows "deep_copier (\<lambda>kvs. copy_entries f kvs []) (\<lambda>h kvs. map_of (map (\<lambda>(k, p). (k, map_option (v h) p)) kvs))
    (reach_list (\<lambda>h p. reach_opt r h (snd p))) (valid_map (valid_opt ok))"
proof -
  let ?r = "reach_list (\<lambda>h (p :: string \<times> 'a option). reach_opt r h (snd p))"
    and ?ok = "valid_list (\<lambda>h (p :: string \<times> 'a option). valid_opt ok h (snd p))"
  let ?v = "\<lambda>h. map (\<lambda>(k :: string, p). (k, map_option (v h) p))"
  have "deep_copier (copy_all (copy_pair copy_plain (copy_opt f))) (\<lambda>h. map (view_pair (\<lambda>h (x :: string). x) (\<lambda>h. map_option (v h)) h))
      (reach_list (reach_pair (\<lambda>h (x :: string). {}) (reach_opt r))) (valid_list (valid_pair (\<lambda>h (x :: string). True) (valid_opt ok)))"
    by (intro list_copier pair_copier opt_copier plain_copier assms)
  moreover have "view_pair (\<lambda>h (x :: string). x) (\<lambda>h. map_option (v h)) = (\<lambda>h (k :: string, p). (k, map_option (v h) p))"
      "reach_pair (\<lambda>h (x :: string). {}) (reach_opt r) = (\<lambda>h p. reach_opt r h (snd p))"
      "valid_pair (\<lambda>h (x :: string). True) (valid_opt ok) = (\<lambda>h p. valid_opt ok h (snd p))"
    by (simp_all add: fun_eq_iff view_pair_def reach_pair_def valid_pair_def)
  ultimately have lc: "deep_copier (copy_all (copy_pair copy_plain (copy_opt f))) ?v ?r ?ok" by simp
  show ?thesis
  proof
    fix h h' :: "'c store" and kvs
    assume "\<forall>a \<in> ?r h kvs. cells h' a = cells h a"
    from deep_copier.footprint [OF lc this] have "?v h' kvs = ?v h kvs" "?r h' kvs = ?r h kvs" "?ok h' kvs = ?ok h kvs" by blast+
    then show "map_of (?v h' kvs) = map_of (?v h kvs) \<and> ?r h' kvs = ?r h kvs \<and> valid_map (valid_opt ok) h' kvs = valid_map (valid_opt ok) h kvs"
      by (simp only: valid_map_def)
  next
    fix h :: "'c store" and kvs
    assume "valid_map (valid_opt ok) h kvs"
    then show "?r h kvs \<subseteq> dom (cells h)" using deep_copier.allocated [OF lc] by (simp add: valid_map_def)
  next
    fix h h' :: "'c store" and kvs kvs'
    assume h: "store_ok h" "valid_map (valid_opt ok) h kvs" "copy_entries f kvs [] h = (kvs', h')"
    then have d: "distinct (map fst kvs)" "?ok h kvs" by (simp_all add: valid_map_def)
    then have c: "copy_all (copy_pair copy_plain (copy_opt f)) kvs h = (kvs', h')"
      using h(3) entries_same [of "[]" kvs f h] by (simp split: prod.splits)
    have "distinct (map fst kvs')" using copy_all_keys [OF c] d(1) by simp
    with deep_copier.copied [OF lc h(1) d(2) c]
    show "map_of (?v h' kvs') = map_of (?v h kvs) \<and> valid_map (valid_opt ok) h' kvs' \<and> extends h h' \<and> ?r h' kvs' \<inter> dom (cells h) = {}"
      by (simp add: valid_map_def)
  qed
qed


subsection \<open>The API types\<close>

record policy_spec =
  ps_PodSelector :: "addr option"        \<comment> \<open>\<^verbatim>\<open>*metav1.LabelSelector\<close>\<close>
  ps_Weight :: s32
  ps_BudgetMicroseconds :: s64
  ps_CELCondition :: string

record policy_status =
  pt_ActivePods :: s32
  pt_NodeStatuses :: "addr option"       \<comment> \<open>a map of maps, nil or its address\<close>
  pt_Conditions :: "slice option"
  pt_ObservedGeneration :: s64

record ('tm, 'om) scheduling_policy =
  po_TypeMeta :: 'tm
  po_ObjectMeta :: 'om
  po_Spec :: policy_spec
  po_Status :: policy_status

record ('tm, 'lm) scheduling_policy_list =
  pl_TypeMeta :: 'tm
  pl_ListMeta :: 'lm
  pl_Items :: "slice option"

text \<open>What an address can hold; \<open>CForeign\<close> is memory of apimachinery's types.\<close>

datatype ('tm, 'om, 'lm, 'sel, 'cond, 'f) cell =
    CSelector (the_selector: 'sel)
  | CInner (the_inner: "(string \<times> s32) list")
  | COuter (the_outer: "(string \<times> addr option) list")
  | CConditions (the_conditions: "'cond list")
  | CItems (the_items: "('tm, 'om) scheduling_policy list")
  | CSpec (the_spec: policy_spec)
  | CStatus (the_status: policy_status)
  | CPolicy (the_policy: "('tm, 'om) scheduling_policy")
  | CPolicyList (the_list: "('tm, 'lm) scheduling_policy_list")
  | CForeign 'f

text \<open>The \<^verbatim>\<open>DeepCopyInto\<close> of apimachinery's types, and how their values are read.\<close>

record ('a, 'c, 'v) reader =
  rd_view :: "'c store \<Rightarrow> 'a \<Rightarrow> 'v"
  rd_reach :: "'c store \<Rightarrow> 'a \<Rightarrow> addr set"
  rd_valid :: "'c store \<Rightarrow> 'a \<Rightarrow> bool"

definition copies :: "('a \<Rightarrow> 'c store \<Rightarrow> 'a \<times> 'c store) \<Rightarrow> ('a, 'c, 'v) reader \<Rightarrow> bool" where
  "copies f R \<longleftrightarrow> deep_copier f (rd_view R) (rd_reach R) (rd_valid R)"

record ('om, 'lm, 'sel, 'cond, 'c) meta_lib =
  ObjectMeta_copy :: "'om \<Rightarrow> 'c store \<Rightarrow> 'om \<times> 'c store"
  ListMeta_copy :: "'lm \<Rightarrow> 'c store \<Rightarrow> 'lm \<times> 'c store"
  LabelSelector_copy :: "'sel \<Rightarrow> 'c store \<Rightarrow> 'sel \<times> 'c store"
  Condition_copy :: "'cond \<Rightarrow> 'c store \<Rightarrow> 'cond \<times> 'c store"

subsection \<open>The generated functions\<close>

text \<open>
  \<^verbatim>\<open>DeepCopyInto\<close> as a function of the structure it copies: the value it leaves in \<open>out\<close>, which it overwrites as a whole, and the store.
\<close>

definition SchedulingPolicySpec_DeepCopyInto ::
    "('om, 'lm, 'sel, 'cond, ('tm, 'om, 'lm, 'sel, 'cond, 'f) cell) meta_lib \<Rightarrow> policy_spec
     \<Rightarrow> ('tm, 'om, 'lm, 'sel, 'cond, 'f) cell store \<Rightarrow> policy_spec \<times> ('tm, 'om, 'lm, 'sel, 'cond, 'f) cell store" where
  "SchedulingPolicySpec_DeepCopyInto M x h =
     (case copy_opt (copy_box CSelector the_selector (LabelSelector_copy M)) (ps_PodSelector x) h of
        (sel, h) \<Rightarrow> (x\<lparr>ps_PodSelector := sel\<rparr>, h))"

definition SchedulingPolicyStatus_DeepCopyInto ::
    "('om, 'lm, 'sel, 'cond, ('tm, 'om, 'lm, 'sel, 'cond, 'f) cell) meta_lib \<Rightarrow> policy_status
     \<Rightarrow> ('tm, 'om, 'lm, 'sel, 'cond, 'f) cell store \<Rightarrow> policy_status \<times> ('tm, 'om, 'lm, 'sel, 'cond, 'f) cell store" where
  "SchedulingPolicyStatus_DeepCopyInto M x h =
     (case copy_opt (copy_box COuter the_outer (\<lambda>kvs. copy_entries (copy_box CInner the_inner copy_inner) kvs [])) (pt_NodeStatuses x) h of
        (ns, h) \<Rightarrow>
      case copy_opt (copy_slice CConditions the_conditions (Condition_copy M)) (pt_Conditions x) h of
        (cs, h) \<Rightarrow> (x\<lparr>pt_NodeStatuses := ns, pt_Conditions := cs\<rparr>, h))"

definition SchedulingPolicy_DeepCopyInto ::
    "('om, 'lm, 'sel, 'cond, ('tm, 'om, 'lm, 'sel, 'cond, 'f) cell) meta_lib \<Rightarrow> ('tm, 'om) scheduling_policy
     \<Rightarrow> ('tm, 'om, 'lm, 'sel, 'cond, 'f) cell store
     \<Rightarrow> ('tm, 'om) scheduling_policy \<times> ('tm, 'om, 'lm, 'sel, 'cond, 'f) cell store" where
  "SchedulingPolicy_DeepCopyInto M x h =
     (case ObjectMeta_copy M (po_ObjectMeta x) h of (om, h) \<Rightarrow>
      case SchedulingPolicySpec_DeepCopyInto M (po_Spec x) h of (spec, h) \<Rightarrow>
      case SchedulingPolicyStatus_DeepCopyInto M (po_Status x) h of (status, h) \<Rightarrow>
        (x\<lparr>po_ObjectMeta := om, po_Spec := spec, po_Status := status\<rparr>, h))"

definition SchedulingPolicyList_DeepCopyInto ::
    "('om, 'lm, 'sel, 'cond, ('tm, 'om, 'lm, 'sel, 'cond, 'f) cell) meta_lib \<Rightarrow> ('tm, 'lm) scheduling_policy_list
     \<Rightarrow> ('tm, 'om, 'lm, 'sel, 'cond, 'f) cell store
     \<Rightarrow> ('tm, 'lm) scheduling_policy_list \<times> ('tm, 'om, 'lm, 'sel, 'cond, 'f) cell store" where
  "SchedulingPolicyList_DeepCopyInto M x h =
     (case ListMeta_copy M (pl_ListMeta x) h of (lm, h) \<Rightarrow>
      case copy_opt (copy_slice CItems the_items (SchedulingPolicy_DeepCopyInto M)) (pl_Items x) h of
        (items, h) \<Rightarrow> (x\<lparr>pl_ListMeta := lm, pl_Items := items\<rparr>, h))"

text \<open>\<^verbatim>\<open>DeepCopy\<close>: nil for nil, else a new structure behind a new pointer.\<close>

definition SchedulingPolicySpec_DeepCopy where
  "SchedulingPolicySpec_DeepCopy M = copy_opt (copy_box CSpec the_spec (SchedulingPolicySpec_DeepCopyInto M))"

definition SchedulingPolicyStatus_DeepCopy where
  "SchedulingPolicyStatus_DeepCopy M = copy_opt (copy_box CStatus the_status (SchedulingPolicyStatus_DeepCopyInto M))"

definition SchedulingPolicy_DeepCopy where
  "SchedulingPolicy_DeepCopy M = copy_opt (copy_box CPolicy the_policy (SchedulingPolicy_DeepCopyInto M))"

definition SchedulingPolicyList_DeepCopy where
  "SchedulingPolicyList_DeepCopy M = copy_opt (copy_box CPolicyList the_list (SchedulingPolicyList_DeepCopyInto M))"

text \<open>\<^verbatim>\<open>DeepCopyObject\<close>: a nil pointer becomes a nil interface, not an interface that holds a nil pointer.\<close>

datatype object_kind = KPolicy | KPolicyList

definition as_object :: "object_kind \<Rightarrow> addr option \<times> 's \<Rightarrow> (object_kind \<times> addr) option \<times> 's" where
  "as_object k r = (case r of (c, h) \<Rightarrow> (case c of Some a \<Rightarrow> (Some (k, a), h) | None \<Rightarrow> (None, h)))"

definition SchedulingPolicy_DeepCopyObject where
  "SchedulingPolicy_DeepCopyObject M p h = as_object KPolicy (SchedulingPolicy_DeepCopy M p h)"

definition SchedulingPolicyList_DeepCopyObject where
  "SchedulingPolicyList_DeepCopyObject M p h = as_object KPolicyList (SchedulingPolicyList_DeepCopy M p h)"

subsection \<open>Reading the structures\<close>

text \<open>The map of maps, and how each structure is read when its parts are.\<close>

definition view_statuses :: "('tm, 'om, 'lm, 'sel, 'cond, 'f) cell store \<Rightarrow> addr \<Rightarrow> string \<rightharpoonup> (string \<rightharpoonup> s32) option" where
  "view_statuses = view_box the_outer (\<lambda>h kvs. map_of (map (\<lambda>(k, p). (k, map_option (view_box the_inner (\<lambda>h. map_of) h) p)) kvs))"

definition reach_statuses :: "('tm, 'om, 'lm, 'sel, 'cond, 'f) cell store \<Rightarrow> addr \<Rightarrow> addr set" where
  "reach_statuses = reach_box the_outer (reach_list (\<lambda>h p. reach_opt (reach_box the_inner (\<lambda>h val. {})) h (snd p)))"

definition valid_statuses :: "('tm, 'om, 'lm, 'sel, 'cond, 'f) cell store \<Rightarrow> addr \<Rightarrow> bool" where
  "valid_statuses =
     valid_box COuter the_outer (valid_map (valid_opt (valid_box CInner the_inner (\<lambda>h val. distinct (map fst val)))))"

interpretation statuses: deep_copier
  "copy_box COuter the_outer (\<lambda>kvs. copy_entries (copy_box CInner the_inner copy_inner) kvs [])"
  view_statuses reach_statuses valid_statuses
  unfolding view_statuses_def reach_statuses_def valid_statuses_def
  by (intro box_copier map_copier inner.deep_copier_axioms) simp_all

definition spec_reading :: "('sel, ('tm, 'om, 'lm, 'sel, 'cond, 'f) cell, 'selv) reader
    \<Rightarrow> (policy_spec, ('tm, 'om, 'lm, 'sel, 'cond, 'f) cell, 'selv option \<times> s32 \<times> s64 \<times> string) reader" where
  "spec_reading S =
     \<lparr>rd_view = (\<lambda>h x. (map_option (view_box the_selector (rd_view S) h) (ps_PodSelector x), ps_Weight x, ps_BudgetMicroseconds x,
        ps_CELCondition x)),
      rd_reach = (\<lambda>h x. reach_opt (reach_box the_selector (rd_reach S)) h (ps_PodSelector x)),
      rd_valid = (\<lambda>h x. valid_opt (valid_box CSelector the_selector (rd_valid S)) h (ps_PodSelector x))\<rparr>"

definition status_reading :: "('cond, ('tm, 'om, 'lm, 'sel, 'cond, 'f) cell, 'condv) reader
    \<Rightarrow> (policy_status, ('tm, 'om, 'lm, 'sel, 'cond, 'f) cell,
        s32 \<times> (string \<rightharpoonup> (string \<rightharpoonup> s32) option) option \<times> 'condv list option \<times> s64) reader" where
  "status_reading C =
     \<lparr>rd_view = (\<lambda>h x. (pt_ActivePods x, map_option (view_statuses h) (pt_NodeStatuses x),
        map_option (\<lambda>s. map (rd_view C h) (elems the_conditions h s)) (pt_Conditions x), pt_ObservedGeneration x)),
      rd_reach = (\<lambda>h x. reach_opt reach_statuses h (pt_NodeStatuses x) \<union> reach_opt (reach_slice the_conditions (rd_reach C)) h (pt_Conditions x)),
      rd_valid = (\<lambda>h x. valid_opt valid_statuses h (pt_NodeStatuses x) \<and>
        valid_opt (valid_slice CConditions the_conditions (rd_valid C)) h (pt_Conditions x))\<rparr>"

definition policy_reading where
  "policy_reading Ob S C =
     \<lparr>rd_view = (\<lambda>h x. (po_TypeMeta x, rd_view Ob h (po_ObjectMeta x), rd_view (spec_reading S) h (po_Spec x),
        rd_view (status_reading C) h (po_Status x))),
      rd_reach = (\<lambda>h x. rd_reach Ob h (po_ObjectMeta x) \<union> (rd_reach (spec_reading S) h (po_Spec x) \<union>
        rd_reach (status_reading C) h (po_Status x))),
      rd_valid = (\<lambda>h x. rd_valid Ob h (po_ObjectMeta x) \<and> rd_valid (spec_reading S) h (po_Spec x) \<and>
        rd_valid (status_reading C) h (po_Status x))\<rparr>"

definition list_reading where
  "list_reading N Ob S C =
     \<lparr>rd_view = (\<lambda>h x. (pl_TypeMeta x, rd_view N h (pl_ListMeta x),
        map_option (\<lambda>s. map (rd_view (policy_reading Ob S C) h) (elems the_items h s)) (pl_Items x))),
      rd_reach = (\<lambda>h x. rd_reach N h (pl_ListMeta x) \<union> reach_opt (reach_slice the_items (rd_reach (policy_reading Ob S C))) h (pl_Items x)),
      rd_valid = (\<lambda>h x. rd_valid N h (pl_ListMeta x) \<and>
        valid_opt (valid_slice CItems the_items (rd_valid (policy_reading Ob S C))) h (pl_Items x))\<rparr>"

definition pointer_reading :: "('a \<Rightarrow> 'c) \<Rightarrow> ('c \<Rightarrow> 'a) \<Rightarrow> ('a, 'c, 'v) reader \<Rightarrow> (addr option, 'c, 'v option) reader" where
  "pointer_reading mk get R =
     \<lparr>rd_view = (\<lambda>h. map_option (view_box get (rd_view R) h)), rd_reach = reach_opt (reach_box get (rd_reach R)),
      rd_valid = valid_opt (valid_box mk get (rd_valid R))\<rparr>"

lemma copies_pointer: "copies f R \<Longrightarrow> (\<And>x. get (mk x) = x) \<Longrightarrow> copies (copy_opt (copy_box mk get f)) (pointer_reading mk get R)"
  by (simp add: copies_def pointer_reading_def box_copier opt_copier)

lemma copies_spec:
  assumes "copies (LabelSelector_copy M) S"
  shows "copies (SchedulingPolicySpec_DeepCopyInto M) (spec_reading S)"
  unfolding copies_def spec_reading_def reader.simps
proof (rule part_copier [where put = "\<lambda>sel x. x\<lparr>ps_PodSelector := sel\<rparr>"
      and u = "\<lambda>x sel. (sel, ps_Weight x, ps_BudgetMicroseconds x, ps_CELCondition x)"])
  show "deep_copier (copy_opt (copy_box CSelector the_selector (LabelSelector_copy M)))
      (\<lambda>h. map_option (view_box the_selector (rd_view S) h)) (reach_opt (reach_box the_selector (rd_reach S)))
      (valid_opt (valid_box CSelector the_selector (rd_valid S)))"
    using assms by (intro opt_copier box_copier) (simp_all add: copies_def)
qed (simp_all add: SchedulingPolicySpec_DeepCopyInto_def)

lemma copies_status:
  assumes "copies (Condition_copy M) C"
  shows "copies (SchedulingPolicyStatus_DeepCopyInto M) (status_reading C)"
proof -
  let ?f = "copy_opt (copy_box COuter the_outer (\<lambda>kvs. copy_entries (copy_box CInner the_inner copy_inner) kvs []))"
    and ?g = "copy_opt (copy_slice CConditions the_conditions (Condition_copy M))"
    and ?part = "\<lambda>x. (pt_NodeStatuses x, pt_Conditions x)"
  have "deep_copier (SchedulingPolicyStatus_DeepCopyInto M) (rd_view (status_reading C))
      (\<lambda>h x. reach_pair (reach_opt reach_statuses) (reach_opt (reach_slice the_conditions (rd_reach C))) h (?part x))
      (\<lambda>h x. valid_pair (valid_opt valid_statuses) (valid_opt (valid_slice CConditions the_conditions (rd_valid C))) h (?part x))"
  proof (rule part_copier [where f = "copy_pair ?f ?g" and part = ?part
        and put = "\<lambda>p x. x\<lparr>pt_NodeStatuses := fst p, pt_Conditions := snd p\<rparr>"
        and u = "\<lambda>x p. (pt_ActivePods x, fst p, snd p, pt_ObservedGeneration x)"])
    show "deep_copier (copy_pair ?f ?g)
        (view_pair (\<lambda>h. map_option (view_statuses h)) (\<lambda>h. map_option (\<lambda>s. map (rd_view C h) (elems the_conditions h s))))
        (reach_pair (reach_opt reach_statuses) (reach_opt (reach_slice the_conditions (rd_reach C))))
        (valid_pair (valid_opt valid_statuses) (valid_opt (valid_slice CConditions the_conditions (rd_valid C))))"
      using assms by (intro pair_copier opt_copier slice_copier statuses.deep_copier_axioms) (simp_all add: copies_def)
  qed (simp_all add: SchedulingPolicyStatus_DeepCopyInto_def copy_pair_def status_reading_def view_pair_def split: prod.splits)
  then show ?thesis by (simp add: copies_def status_reading_def reach_pair_def valid_pair_def)
qed


lemma copies_policy:
  assumes "copies (ObjectMeta_copy M) Ob" "copies (LabelSelector_copy M) S" "copies (Condition_copy M) C"
  shows "copies (SchedulingPolicy_DeepCopyInto M) (policy_reading Ob S C)"
proof -
  let ?part = "\<lambda>x. (po_ObjectMeta x, po_Spec x, po_Status x)" and ?P = "spec_reading S" and ?T = "status_reading C"
  let ?f = "copy_pair (ObjectMeta_copy M) (copy_pair (SchedulingPolicySpec_DeepCopyInto M) (SchedulingPolicyStatus_DeepCopyInto M))"
  have "deep_copier (SchedulingPolicy_DeepCopyInto M) (rd_view (policy_reading Ob S C))
      (\<lambda>h x. reach_pair (rd_reach Ob) (reach_pair (rd_reach ?P) (rd_reach ?T)) h (?part x))
      (\<lambda>h x. valid_pair (rd_valid Ob) (valid_pair (rd_valid ?P) (rd_valid ?T)) h (?part x))"
  proof (rule part_copier [where f = ?f and part = ?part
        and put = "\<lambda>p x. x\<lparr>po_ObjectMeta := fst p, po_Spec := fst (snd p), po_Status := snd (snd p)\<rparr>"
        and u = "\<lambda>x p. (po_TypeMeta x, p)"])
    show "deep_copier ?f (view_pair (rd_view Ob) (view_pair (rd_view ?P) (rd_view ?T)))
        (reach_pair (rd_reach Ob) (reach_pair (rd_reach ?P) (rd_reach ?T))) (valid_pair (rd_valid Ob) (valid_pair (rd_valid ?P) (rd_valid ?T)))"
      using assms(1) copies_spec [OF assms(2)] copies_status [OF assms(3)] by (intro pair_copier) (simp_all add: copies_def)
  qed (simp_all add: SchedulingPolicy_DeepCopyInto_def copy_pair_def policy_reading_def view_pair_def split: prod.splits)
  then show ?thesis by (simp add: copies_def policy_reading_def reach_pair_def valid_pair_def)
qed

lemma copies_list:
  assumes "copies (ListMeta_copy M) N" "copies (ObjectMeta_copy M) Ob" "copies (LabelSelector_copy M) S" "copies (Condition_copy M) C"
  shows "copies (SchedulingPolicyList_DeepCopyInto M) (list_reading N Ob S C)"
proof -
  let ?part = "\<lambda>x. (pl_ListMeta x, pl_Items x)" and ?R = "policy_reading Ob S C"
  let ?f = "copy_pair (ListMeta_copy M) (copy_opt (copy_slice CItems the_items (SchedulingPolicy_DeepCopyInto M)))"
  have "deep_copier (SchedulingPolicyList_DeepCopyInto M) (rd_view (list_reading N Ob S C))
      (\<lambda>h x. reach_pair (rd_reach N) (reach_opt (reach_slice the_items (rd_reach ?R))) h (?part x))
      (\<lambda>h x. valid_pair (rd_valid N) (valid_opt (valid_slice CItems the_items (rd_valid ?R))) h (?part x))"
  proof (rule part_copier [where f = ?f and part = ?part and put = "\<lambda>p x. x\<lparr>pl_ListMeta := fst p, pl_Items := snd p\<rparr>"
        and u = "\<lambda>x p. (pl_TypeMeta x, p)"])
    show "deep_copier ?f (view_pair (rd_view N) (\<lambda>h. map_option (\<lambda>s. map (rd_view ?R h) (elems the_items h s))))
        (reach_pair (rd_reach N) (reach_opt (reach_slice the_items (rd_reach ?R))))
        (valid_pair (rd_valid N) (valid_opt (valid_slice CItems the_items (rd_valid ?R))))"
      using assms(1) copies_policy [OF assms(2-4)] by (intro pair_copier opt_copier slice_copier) (simp_all add: copies_def)
  qed (simp_all add: SchedulingPolicyList_DeepCopyInto_def copy_pair_def list_reading_def view_pair_def split: prod.splits)
  then show ?thesis by (simp add: copies_def list_reading_def reach_pair_def valid_pair_def)
qed

subsection \<open>Properties\<close>

lemma copies_isolated:
  assumes "copies f R" "store_ok h" "rd_valid R h x" "f x h = (y, h')"
  shows "rd_view R h' y = rd_view R h x" "a \<in> dom (cells h) \<Longrightarrow> cells h' a = cells h a"
    and "(\<forall>a. a \<notin> rd_reach R h' y \<longrightarrow> cells m a = cells h' a) \<Longrightarrow> rd_view R m x = rd_view R h x"
    and "(\<forall>a. a \<notin> rd_reach R h x \<longrightarrow> cells m a = cells h' a) \<Longrightarrow> rd_view R m y = rd_view R h x"
  using deep_copier.copied [OF assms(1) [unfolded copies_def] assms(2-4)]
    deep_copier.isolated [OF assms(1) [unfolded copies_def] assms(2-4)]
  by (simp_all add: extends_def)

text \<open>
  C32 (deep_copy_isolated). A deep copy of a list of policies has the same value as the original, down to labels, conditions and the maps of
  node statuses, changes nothing of the original, and shares no memory with it: whatever is later written to memory
  of the copy leaves the original as it is, and the other way round. Nil is copied to nil, and becomes a nil object.
\<close>

theorem deep_copy_isolated:
  fixes M :: "('om, 'lm, 'sel, 'cond, ('tm, 'om, 'lm, 'sel, 'cond, 'f) cell) meta_lib"
    and m :: "('tm, 'om, 'lm, 'sel, 'cond, 'f) cell store"
  assumes "copies (ListMeta_copy M) N" "copies (ObjectMeta_copy M) Ob" "copies (LabelSelector_copy M) S" "copies (Condition_copy M) C"
  defines "R \<equiv> pointer_reading CPolicyList the_list (list_reading N Ob S C)"
  assumes "store_ok h" "rd_valid R h p" "SchedulingPolicyList_DeepCopy M p h = (q, h')"
  shows "rd_view R h' q = rd_view R h p \<and> (q = None \<longleftrightarrow> p = None) \<and>
    SchedulingPolicyList_DeepCopyObject M p h = (map_option (Pair KPolicyList) q, h') \<and>
    (\<forall>a \<in> dom (cells h). cells h' a = cells h a) \<and>
    ((\<forall>a. a \<notin> rd_reach R h' q \<longrightarrow> cells m a = cells h' a) \<longrightarrow> rd_view R m p = rd_view R h p) \<and>
    ((\<forall>a. a \<notin> rd_reach R h p \<longrightarrow> cells m a = cells h' a) \<longrightarrow> rd_view R m q = rd_view R h p)"
proof -
  have c: "copies (SchedulingPolicyList_DeepCopy M) R"
    unfolding R_def SchedulingPolicyList_DeepCopy_def by (rule copies_pointer [OF copies_list [OF assms(1-4)]]) simp
  note i = copies_isolated [OF c assms(6-8)]
  have "q = None \<longleftrightarrow> p = None"
    using assms(8) by (auto simp: SchedulingPolicyList_DeepCopy_def copy_opt_def split: option.splits prod.splits)
  moreover have "SchedulingPolicyList_DeepCopyObject M p h = (map_option (Pair KPolicyList) q, h')"
    using assms(8) by (cases q) (simp_all add: SchedulingPolicyList_DeepCopyObject_def as_object_def)
  ultimately show ?thesis using i by blast
qed

text \<open>A list with one policy, which has a selector, a condition and a map with a nil entry and two entries that share a map.\<close>

definition plain_reading :: "('a, 'c, 'a) reader" where
  "plain_reading = \<lparr>rd_view = (\<lambda>h x. x), rd_reach = (\<lambda>h x. {}), rd_valid = (\<lambda>h x. True)\<rparr>"

definition plain_lib :: "('om, 'lm, 'sel, 'cond, 'c) meta_lib" where
  "plain_lib = \<lparr>ObjectMeta_copy = copy_plain, ListMeta_copy = copy_plain, LabelSelector_copy = copy_plain, Condition_copy = copy_plain\<rparr>"

lemma plain_copies: "copies (ListMeta_copy plain_lib) plain_reading" "copies (ObjectMeta_copy plain_lib) plain_reading"
    "copies (LabelSelector_copy plain_lib) plain_reading" "copies (Condition_copy plain_lib) plain_reading"
  by (simp_all add: copies_def plain_lib_def plain_reading_def plain_copier)

definition demo_object :: "(string, string) scheduling_policy" where
  "demo_object = \<lparr>po_TypeMeta = ''SchedulingPolicy'', po_ObjectMeta = ''a'',
     po_Spec = \<lparr>ps_PodSelector = Some 0, ps_Weight = 200, ps_BudgetMicroseconds = 0, ps_CELCondition = []\<rparr>,
     po_Status = \<lparr>pt_ActivePods = 1, pt_NodeStatuses = Some 2, pt_Conditions = Some \<lparr>sl_addr = 3, sl_off = 1, sl_len = 1\<rparr>,
       pt_ObservedGeneration = 1\<rparr>\<rparr>"

definition demo_store :: "(string, string, string, string, string, unit) cell store" where
  "demo_store = \<lparr>cells = [0 \<mapsto> CSelector ''app=web'', 1 \<mapsto> CInner [(''a'', 3)],
     2 \<mapsto> COuter [(''n1'', Some 1), (''n2'', None), (''n3'', Some 1)], 3 \<mapsto> CConditions [''old'', ''Ready''], 4 \<mapsto> CItems [demo_object],
     5 \<mapsto> CPolicyList \<lparr>pl_TypeMeta = ''List'', pl_ListMeta = ''1'', pl_Items = Some \<lparr>sl_addr = 4, sl_off = 0, sl_len = 1\<rparr>\<rparr>], limit = 6\<rparr>"

abbreviation demo_reading :: "(addr option, (string, string, string, string, string, unit) cell, _) reader" where
  "demo_reading \<equiv> pointer_reading CPolicyList the_list (list_reading plain_reading plain_reading plain_reading plain_reading)"

theorem deep_copy_isolated_witness:
  "\<exists>a h'. SchedulingPolicyList_DeepCopy plain_lib (Some 5) demo_store = (Some a, h') \<and> 6 \<le> a \<and>
     rd_view demo_reading h' (Some a) = rd_view demo_reading demo_store (Some 5) \<and>
     cells h' 1 = Some (CInner [(''a'', 3)])"
proof -
  have ok: "store_ok demo_store" by (auto simp: store_ok_def demo_store_def split: if_splits)
  have "rd_valid demo_reading demo_store (Some 5)"
    by (simp add: pointer_reading_def list_reading_def policy_reading_def spec_reading_def status_reading_def plain_reading_def
        valid_opt_def valid_box_def valid_slice_def valid_statuses_def valid_map_def valid_list_def elems_def demo_store_def demo_object_def)
  obtain q h' where q: "SchedulingPolicyList_DeepCopy plain_lib (Some 5) demo_store = (q, h')" by fastforce
  note d = deep_copy_isolated [OF plain_copies ok \<open>rd_valid demo_reading demo_store (Some 5)\<close> q, where m = h']
  then obtain a where a: "q = Some a" by auto
  have "dom (cells demo_store) = {..<6}" by (auto simp: demo_store_def numeral_eq_Suc less_Suc_eq)
  moreover have "6 \<le> a"
  proof (rule ccontr)
    assume "\<not> 6 \<le> a"
    have "copies (SchedulingPolicyList_DeepCopy plain_lib) demo_reading"
      unfolding SchedulingPolicyList_DeepCopy_def by (rule copies_pointer [OF copies_list [OF plain_copies]]) simp
    from deep_copier.copied [OF this [unfolded copies_def] ok \<open>rd_valid demo_reading demo_store (Some 5)\<close> q]
    have "a \<notin> dom (cells demo_store)" by (auto simp: a pointer_reading_def reach_opt_def reach_box_def)
    with \<open>\<not> 6 \<le> a\<close> calculation show False by auto
  qed
  moreover have "cells h' 1 = cells demo_store 1" using d calculation(1) by simp
  ultimately show ?thesis using d q unfolding a by (intro exI [of _ a] exI [of _ h']) (simp add: demo_store_def)
qed

end
