(* ===== verification/Registry.thy ===== *)
theory Registry
  imports Go_Lib
begin

text \<open>
  The names under which the agent is known to others: the API group of \<^verbatim>\<open>api/v1alpha1/groupversion_info.go\<close>, the resource
  the resolver watches or polls, the object of policy events, and the Prometheus metrics of
  \<^verbatim>\<open>internal/metrics/metrics.go\<close>. The scheme's functions and \<^verbatim>\<open>GroupVersion.String\<close> are parameters.
\<close>

subsection \<open>The API group\<close>

record group_version =
  gv_Group :: string
  gv_Version :: string

record group_resource =
  gr_Group :: string
  gr_Resource :: string

record group_version_resource =
  gvr_Group :: string
  gvr_Version :: string
  gvr_Resource :: string

definition SchemeGroupVersion :: group_version where
  "SchemeGroupVersion = \<lparr>gv_Group = ''scheduling.fengrru.dev'', gv_Version = ''v1alpha1''\<rparr>"

definition GroupVersion :: group_version where
  "GroupVersion = SchemeGroupVersion"

definition Resource :: "string \<Rightarrow> group_resource" where
  "Resource resource = \<lparr>gr_Group = gv_Group SchemeGroupVersion, gr_Resource = resource\<rparr>"

definition addKnownTypes :: "(group_version \<Rightarrow> string list \<Rightarrow> 's \<Rightarrow> 's) \<Rightarrow> (group_version \<Rightarrow> 's \<Rightarrow> 's) \<Rightarrow> 's \<Rightarrow> 's" where
  "addKnownTypes AddKnownTypes AddToGroupVersion s =
     AddToGroupVersion SchemeGroupVersion (AddKnownTypes SchemeGroupVersion [''SchedulingPolicy'', ''SchedulingPolicyList''] s)"

subsection \<open>The resource of the policies\<close>

definition SchedulingPolicyGVR :: group_version_resource where
  "SchedulingPolicyGVR = \<lparr>gvr_Group = ''scheduling.fengrru.dev'', gvr_Version = ''v1alpha1'', gvr_Resource = ''schedulingpolicies''\<rparr>"

text \<open>The path \<^verbatim>\<open>refreshPolicies\<close> reads.\<close>

definition policies_path :: string where
  "policies_path = ''/apis/scheduling.fengrru.dev/v1alpha1/schedulingpolicies''"

record event_object =
  eo_APIVersion :: string
  eo_Kind :: string
  eo_Name :: string

definition policyEventObject :: "(group_version \<Rightarrow> string) \<Rightarrow> string \<Rightarrow> event_object" where
  "policyEventObject gvString name = \<lparr>eo_APIVersion = gvString GroupVersion, eo_Kind = ''SchedulingPolicy'', eo_Name = name\<rparr>"

lemma policy_resource_agree:
  "gvr_Group SchedulingPolicyGVR = gv_Group SchemeGroupVersion" "gvr_Version SchedulingPolicyGVR = gv_Version SchemeGroupVersion"
  "Resource (gvr_Resource SchedulingPolicyGVR) = \<lparr>gr_Group = gvr_Group SchedulingPolicyGVR, gr_Resource = gvr_Resource SchedulingPolicyGVR\<rparr>"
  "split_on (CHR ''/'') policies_path =
     [[], ''apis'', gv_Group GroupVersion, gv_Version GroupVersion, gvr_Resource SchedulingPolicyGVR]"
  by (simp_all add: SchedulingPolicyGVR_def SchemeGroupVersion_def GroupVersion_def Resource_def) code_simp

subsection \<open>Metrics\<close>

datatype metric_type = Gauge | Counter

record metric =
  mt_type :: metric_type
  mt_Name :: string
  mt_Help :: string

definition metrics :: "metric list" where
  "metrics =
     [\<lparr>mt_type = Gauge, mt_Name = ''k8s_sched_active_policies'', mt_Help = ''Number of active SchedulingPolicy CRDs''\<rparr>,
      \<lparr>mt_type = Counter, mt_Name = ''k8s_sched_enqueues_total'', mt_Help = ''Total number of task enqueues into the scheduler's vtime queue''\<rparr>,
      \<lparr>mt_type = Counter, mt_Name = ''k8s_sched_budget_capped_total'', mt_Help = ''Total number of enqueues with the slice capped by a CPU budget''\<rparr>,
      \<lparr>mt_type = Counter, mt_Name = ''k8s_sched_local_dispatches_total'',
       mt_Help = ''Total number of idle-CPU direct dispatches bypassing the vtime queue''\<rparr>,
      \<lparr>mt_type = Gauge, mt_Name = ''k8s_sched_scheduler_loaded'', mt_Help = ''1 when the sched_ext scheduler is attached, 0 in observe-only mode''\<rparr>,
      \<lparr>mt_type = Gauge, mt_Name = ''k8s_sched_params_mapped'', mt_Help = ''Number of pods with active scheduling parameter mappings''\<rparr>,
      \<lparr>mt_type = Counter, mt_Name = ''k8s_sched_attach_retries_total'',
       mt_Help = ''Total number of scheduler attach retries during rolling upgrade handover''\<rparr>,
      \<lparr>mt_type = Counter, mt_Name = ''k8s_sched_status_writebacks_total'', mt_Help = ''Total number of SchedulingPolicy status write-backs''\<rparr>]"

text \<open>
  Registering two metrics of one name panics at start; names are of letters, digits and underscores; a counter's name ends in
  \<^verbatim>\<open>_total\<close> and a gauge's does not.
\<close>

definition name_char :: "char \<Rightarrow> bool" where
  "name_char c \<longleftrightarrow> c \<in> set ''abcdefghijklmnopqrstuvwxyz0123456789_''"

lemma metrics_wellnamed:
  "distinct (map mt_Name metrics)"
  "list_all (\<lambda>m. list_all name_char (mt_Name m) \<and> (mt_type m = Counter \<longleftrightarrow> drop (length (mt_Name m) - 6) (mt_Name m) = ''_total'')) metrics"
  by (simp_all add: metrics_def name_char_def)

end
