(* ===== verification/Spec2Isabelle.thy ===== *)
theory Spec2Isabelle
  imports Waiting Bpf_Tracing Helper_Defs Object_File Start_Up Deep_Copy Registry
begin

text \<open>
  A model of k8s-sched: a sched\_ext CPU scheduler in BPF, and the agent that runs on every node
  of a cluster, loads the scheduler and keeps its parameter maps in step with the pods.

  \<^bold>\<open>How the parts interact.\<close> The kernel calls the scheduler's callbacks (\<^verbatim>\<open>bpf/k8s_sched.bpf.c\<close>), which
  order tasks by a weighted virtual time and read weight and budget of a task from two hash maps, by
  process ID and by cgroup ID. The agent watches pods (\<^verbatim>\<open>internal/k8s\<close>) and \<^verbatim>\<open>SchedulingPolicy\<close>
  objects (\<^verbatim>\<open>internal/policy\<close>, with CEL conditions cached by \<^verbatim>\<open>internal/cel\<close>), resolves a weight and a
  budget for each running pod, finds the pod's cgroups and processes on the node and writes the maps
  (\<^verbatim>\<open>internal/maps\<close>). It exports the scheduler's counters, writes policy statuses back and hands the
  scheduler over to its successor in a rolling upgrade (\<^verbatim>\<open>internal/sched\<close>, \<^verbatim>\<open>cmd/agent\<close>). The headers under
  \<^verbatim>\<open>include/bpf\<close> are the macros and the helper table the BPF program is compiled with.

  \<^bold>\<open>The kernel side.\<close>
  \<^item> \<^verbatim>\<open>Prelude\<close>: machine words, shared lemmas and collections.
  \<^item> \<^verbatim>\<open>Scx_Common\<close>: \<^verbatim>\<open>bpf/scx_common.bpf.h\<close>. The kernel functions are the fields of a record \<open>scx_env\<close>, a
    parameter of every callback; contracts state their documented behaviour. \<^verbatim>\<open>Scx_Reference\<close> is a small
    kernel that satisfies the contracts and serves as the instance in witnesses. The contract of the move to a CPU is for tasks that may
    run on every CPU: it takes the first entry of the queue.
  \<^item> \<^verbatim>\<open>Bpf_Helpers\<close>: \<^verbatim>\<open>bpf_helpers.h\<close>; the print macros, static tail calls and the
    loops over iterators, whose bodies run only within the bounds. \<^verbatim>\<open>Bpf_Regs\<close>, \<^verbatim>\<open>Bpf_Tracing\<close>:
    \<^verbatim>\<open>bpf_tracing.h\<close>; register tables of all architectures and the argument macros. \<^verbatim>\<open>Helper_Defs\<close>:
    \<^verbatim>\<open>bpf_helper_defs.h\<close>; every helper with number and prototype, and of its documentation whether the result can be a negative
    error or null.
  \<^item> \<^verbatim>\<open>Bpf_Sched\<close>: the maps and every callback of \<^verbatim>\<open>k8s_sched.bpf.c\<close>, on 64-bit words. Lemmas: the charge
    of a slice, the clamp at enqueue, the monotone clock, read-only lookups, the counters over any run. \<open>effective_params\<close> there
    is what \<open>lookup_task_params\<close> returns as a function of the two maps alone (lemma \<open>lookup_effective\<close>); statements about the
    agent's maps use it.
  \<^item> \<^verbatim>\<open>Fairness\<close>: an abstract pool of tasks with integer virtual times. Rounds of the callbacks refine it as
    long as the virtual times of waiting tasks fit into half of the 64-bit circle, and tasks that wait
    together get CPU time in proportion to their weights, up to the charge of one slice and the rounding of each service.
  \<^item> \<^verbatim>\<open>Waiting\<close>: a step relation for any number of CPUs, with tasks that sleep, wake and are dispatched
    directly, and with parameters that change meanwhile. A queued task is dispatched after a bounded
    number of dispatches, and virtual times stay within a bound of the clock.
  \<^item> \<^verbatim>\<open>Object_File\<close>: the declaration macros of \<^verbatim>\<open>bpf_helpers.h\<close>, C structure layout, and the maps, sections and
    symbols of \<^verbatim>\<open>k8s_sched.bpf.c\<close>, which agree with the names and paths the agent uses. Structures as bytes in memory: what one side stores
    in a map the other side reads.

  \<^bold>\<open>The agent.\<close>
  \<^item> \<^verbatim>\<open>Go_Lib\<close>: what is used of Go's \<^verbatim>\<open>strconv\<close> and \<^verbatim>\<open>strings\<close>. \<^verbatim>\<open>Annotations\<close>: parameters from annotations.
    \<^verbatim>\<open>Node_Fs\<close>: the file-system walks of \<^verbatim>\<open>maps.go\<close> over a finite tree, and the cache of \<^verbatim>\<open>/proc\<close>.
  \<^item> \<^verbatim>\<open>Pod_Maps\<close>: the operations of \<^verbatim>\<open>maps.go\<close> on the pinned maps and the bookkeeping. The locale \<open>kernel_map\<close>
    is what they rely on of the eBPF library; bounded hash maps provide it.
  \<^item> \<^verbatim>\<open>Cel_Cache\<close>: the cache of compiled expressions. One goroutine alone (\<open>Evaluate\<close>), and an inductive
    step relation \<open>cel_step\<close> for any number of goroutines with the read-write lock, the atomic clock
    and the in-flight table. The locale \<open>condition_evaluator\<close> is what the resolver relies on.
  \<^item> \<^verbatim>\<open>Policy_Resolver\<close>: policy events, matching, resolution, tracking of matched pods. A \<^verbatim>\<open>range\<close> over a
    Go map is a parameter, the order, and the properties hold for every order. \<^verbatim>\<open>float64\<close> values are
    rationals rounded to 53 bits.
  \<^item> \<^verbatim>\<open>Agent\<close>: the watcher's event handlers, the pod callbacks, HTTP handlers, statistics export and status
    write-back. The locale \<open>merge_patch\<close> is the JSON merge patch of the API server.
  \<^item> \<^verbatim>\<open>Agent_Run\<close>: the callbacks, policy events and the sweep as goroutines whose steps interleave while the
    node changes. Alone they are the operations of \<^verbatim>\<open>Agent\<close>; in every interleaving weights stay in range and
    cgroups that exist throughout keep their entries, also while other pods are removed. Removing a pod, the per-process fallback and the
    sweep of process IDs are one step each.
  \<^item> \<^verbatim>\<open>Handover\<close>: the start and exit status of the program; loading, retrying, attaching, opening maps and shutting down, for any number of agents on
    a node whose actions interleave in any order, while the kernel may eject schedulers and agents may be killed. A ready agent owns the
    slot unless it was ejected; a hand-over goes through, or fails at two unlucky moments; an agent that hangs while it starts keeps the slot.
  \<^item> \<^verbatim>\<open>Start_Up\<close>: \<^verbatim>\<open>Run\<close> with its goroutines, the context and the channel that end them, the resolver's wait for its informer
    and the fallback to polling. The work of the goroutines is that of \<^verbatim>\<open>Agent_Run\<close>, and every run is one of an agent of
    \<^verbatim>\<open>Handover\<close>. Lemmas: the order of starting, the wait that canceling does not end, the end of every goroutine, and pods handled
    before the policies.
  \<^item> \<^verbatim>\<open>Deep_Copy\<close>: the generated deep copies of the API types over an explicit store. The locale \<open>deep_copier\<close> is the contract of a
    copy, relied on of apimachinery's types and provided for each type here. \<^verbatim>\<open>Registry\<close>: the API group, the resource and the metrics.

  \<^bold>\<open>Across components.\<close> \<open>pod_pipeline\<close> in \<^verbatim>\<open>Agent\<close> follows a pod from the watcher to the slice and the
  charge the scheduler computes; \<open>weights_in_range\<close> in \<^verbatim>\<open>Agent_Run\<close> bounds that charge for every run of the
  agent; \<open>run_refines_handover\<close> in \<^verbatim>\<open>Start_Up\<close> connects one agent with its node, and \<open>early_pod\<close> there the start with what the
  scheduler finds; \<open>agent_bpf_agree\<close> in \<^verbatim>\<open>Object_File\<close> compares both sides of the shared maps; \<open>enqueues_exported\<close> below
  follows the enqueue counter from the callbacks to Prometheus.

  \<^bold>\<open>Loops and bounds.\<close> There is no fuel: loops over lists are structural, the eviction loop of the CEL
  cache comes with a termination proof, the iterator loops of the BPF helpers are partial functions proved to return on
  every iterator with finitely many elements, and the retry loop of
  the agent is a step function whose runs are arbitrary sequences of actions. Bounds in hypotheses are
  where machine arithmetic ends: half of the 64-bit circle for virtual times, 2 to the 64 increments of
  the cache clock, 2 to the 53 for counters exported as doubles.

  \<^bold>\<open>Not modelled.\<close> Logging; the syntax of flags and the construction of clients, informers and servers;
  tickers and real time (a tick is an input); the eBPF loader beyond success, failure and the reuse of
  pinned maps; the stub for systems other than Linux; the Helm chart, the CRD manifest and scripts. Compiler
  barriers of \<^verbatim>\<open>bpf_helpers.h\<close> have no behaviour to model, and loop bodies that leave a \<^verbatim>\<open>bpf_for\<close> early are left out. CPU affinity of
  tasks is outside the kernel contracts. The exporters and HTTP handlers
  are not interleaved with the callbacks.
\<close>

text \<open>The number of enqueue callbacks that ran on the given CPUs.\<close>

definition enqueues_on :: "s32 list \<Rightarrow> 'k event list \<Rightarrow> nat" where
  "enqueues_on cpus es = sum_list (map (\<lambda>c. length (filter (is_enqueue_on c) es)) cpus)"

text \<open>What the agent reads of the statistics map: the values of all CPUs.\<close>

definition stats_reading :: "s32 list \<Rightarrow> 'k sched \<Rightarrow> agent_maps \<Rightarrow> agent_maps" where
  "stats_reading cpus s m = m\<lparr>am_stats := Some (PerCpu (map (\<lambda>c. the (get_stats c s)) cpus))\<rparr>"

lemma enqueues_on_append: "enqueues_on cpus (xs @ ys) = enqueues_on cpus xs + enqueues_on cpus ys"
  by (simp add: enqueues_on_def sum_list_addf)

lemma read_enqueues:
  assumes "\<forall>c \<in> set cpus. get_stats c s0 = Some zero_stats"
  shows "map_option enqueues (ReadStats (stats_reading cpus (run K es s0) m)) = Some (of_nat (enqueues_on cpus es))"
proof -
  have "enqueues (the (get_stats c (run K es s0))) = of_nat (length (filter (is_enqueue_on c) es))" if "c \<in> set cpus" for c
    using run_enqueues [of c K es s0] assms that by (auto simp: zero_stats_def)
  then have "sum_list (map (\<lambda>c. enqueues (the (get_stats c (run K es s0)))) cpus) = of_nat (enqueues_on cpus es)"
    unfolding enqueues_on_def by (induction cpus) simp_all
  then show ?thesis
    by (simp add: ReadStats_def stats_reading_def fold_add_stats zero_stats_def comp_def)
qed

fun tick_readings :: "'k scx_env \<Rightarrow> s32 list \<Rightarrow> agent_maps \<Rightarrow> 'k event list \<Rightarrow> 'k event list list \<Rightarrow> 'k sched \<Rightarrow> agent_maps list" where
  "tick_readings K cpus m es [] s0 = []"
| "tick_readings K cpus m es (b # bs) s0 =
     stats_reading cpus (run K (es @ b) s0) m # tick_readings K cpus m (es @ b) bs s0"

lemma uint_small: "n < 2 ^ 53 \<Longrightarrow> uint (of_nat n :: u64) = int n"
  by (simp add: uint_nat unat_of_nat)

lemma tick_values:
  fixes K m
  assumes "\<forall>c \<in> set cpus. get_stats c s0 = Some zero_stats" "enqueues_on cpus (es @ concat bs) < 2 ^ 53"
  defines "vs \<equiv> map enqueues (List.map_filter ReadStats (tick_readings K cpus m es bs s0))"
  shows "rises (of_nat (enqueues_on cpus es)) vs \<and>
    last (of_nat (enqueues_on cpus es) # vs) = of_nat (enqueues_on cpus (es @ concat bs))"
  unfolding vs_def using assms(2)
proof (induction bs arbitrary: es)
  case (Cons b bs)
  obtain st where st: "ReadStats (stats_reading cpus (run K (es @ b) s0) m) = Some st"
      "enqueues st = of_nat (enqueues_on cpus (es @ b))"
    using read_enqueues [OF assms(1), of K "es @ b" m] by auto
  have le: "enqueues_on cpus es \<le> enqueues_on cpus (es @ b)" "enqueues_on cpus (es @ b) < 2 ^ 53"
    using Cons.prems by (simp_all add: enqueues_on_append)
  then have "(of_nat (enqueues_on cpus es) :: u64) \<le> of_nat (enqueues_on cpus (es @ b))"
    by (simp add: word_le_def uint_small)
  with Cons.IH [of "es @ b"] Cons.prems le st show ?case by (simp add: List.map_filter_simps uint_small)
qed (simp add: List.map_filter_simps)

text \<open>
  C13 (enqueues_exported). The Prometheus counter of enqueues, after any number of export ticks between
  which the kernel runs any callbacks of the scheduler, is the number of enqueue callbacks that
  ran on the node's CPUs up to the last tick: nothing is lost or counted twice between the per-CPU
  counters of the BPF program, the agent's sum over the CPUs and its differences between ticks. The
  bound is where a double stops representing every integer.
\<close>

theorem enqueues_exported:
  assumes "\<forall>c \<in> set cpus. get_stats c s0 = Some zero_stats" "enqueues_on cpus (concat batches) < 2 ^ 53"
  shows "EnqueueCount (snd (fold export_tick (tick_readings K cpus m [] batches s0) export_start)) =
    of_nat (enqueues_on cpus (concat batches))"
proof -
  let ?reads = "tick_readings K cpus m [] batches s0"
  let ?vs = "map enqueues (List.map_filter ReadStats ?reads)"
  have v: "rises 0 ?vs" "last (0 # ?vs) = of_nat (enqueues_on cpus (concat batches))"
    using tick_values [OF assms(1), of "[]" batches K m] assms(2) by (simp_all add: enqueues_on_def)
  have "EnqueueCount (snd (fold export_tick ?reads export_start)) = of_int (uint (last (0 # ?vs)))"
    using export_enqueues [of "snd export_start" zero_stats ?reads] v(1)
    by (simp add: export_start_def zero_stats_def)
  then show ?thesis using assms(2) by (simp only: v(2) uint_small of_int_of_nat_eq)
qed

theorem enqueues_exported_witness:
  "EnqueueCount (snd (fold export_tick (tick_readings ref_env [0, 1] New_maps []
     [[EvEnqueue 0 1 0], [], [EvEnqueue 1 1 0, EvEnqueue 0 1 0]] ref_sched) export_start)) = 3"
proof -
  let ?b = "[[EvEnqueue 0 1 0], [], [EvEnqueue 1 1 0, EvEnqueue 0 1 0]] :: ref_kern event list list"
  have z: "\<forall>c \<in> set [0, 1]. get_stats c ref_sched = Some zero_stats"
    by (simp add: get_stats_def ref_sched_def zero_stats_def)
  have n: "enqueues_on [0, 1] (concat ?b) = 3" by (simp add: enqueues_on_def)
  have "enqueues_on [0, 1] (concat ?b) < 2 ^ 53" unfolding n by simp
  from enqueues_exported [OF z this, of ref_env New_maps] show ?thesis unfolding n by simp
qed

end
